(* ===== verification/Prelude.thy ===== *)
theory Prelude
  imports Complex_Main "HOL-Library.Monad_Syntax"
begin

text \<open>
  Shared vocabulary of the development: programs that thread a state and may
  raise, a weakest-precondition calculus for them, and the table operations
  (lookup, update and delete by a key) that stand for the SQL statements of
  the control plane.  A table is the list of its rows; a row is a record.
\<close>

named_theorems wp_simps \<open>weakest precondition of the program combinators\<close>
named_theorems run_simps \<open>running the program combinators\<close>
named_theorems table_simps \<open>lookup, update and delete on keyed tables\<close>
named_theorems inv_intros \<open>invariants kept by the operations of a component\<close>

section \<open>Programs: state and exceptions\<close>

text \<open>
  A program maps a state to an error (\<open>Inl\<close>) or a value (\<open>Inr\<close>) and the state
  it leaves behind.  What was written before a raise stays written: undoing it
  is the business of the surrounding transaction, see \<open>transaction\<close>.
\<close>

type_synonym ('s, 'e, 'a) prog = "'s \<Rightarrow> ('e + 'a) \<times> 's"

definition ret :: "'a \<Rightarrow> ('s, 'e, 'a) prog" where
  "ret x s = (Inr x, s)"

definition raise :: "'e \<Rightarrow> ('s, 'e, 'a) prog" where
  "raise e s = (Inl e, s)"

definition andThen :: "('s, 'e, 'a) prog \<Rightarrow> ('a \<Rightarrow> ('s, 'e, 'b) prog) \<Rightarrow> ('s, 'e, 'b) prog" where
  "andThen m f s = (case m s of (Inl e, s') \<Rightarrow> (Inl e, s') | (Inr x, s') \<Rightarrow> f x s')"

definition gets :: "('s \<Rightarrow> 'a) \<Rightarrow> ('s, 'e, 'a) prog" where
  "gets f s = (Inr (f s), s)"

definition modify :: "('s \<Rightarrow> 's) \<Rightarrow> ('s, 'e, unit) prog" where
  "modify f s = (Inr (), f s)"

text \<open>\<open>ensure b e\<close> is a guard: \<open>if not b: raise e\<close>.\<close>

definition ensure :: "bool \<Rightarrow> 'e \<Rightarrow> ('s, 'e, unit) prog" where
  "ensure b e s = (if b then (Inr (), s) else (Inl e, s))"

text \<open>\<open>fetch f e\<close> is a lookup whose absence is an error: \<open>if x is None: raise e\<close>.\<close>

definition fetch :: "('s \<Rightarrow> 'a option) \<Rightarrow> 'e \<Rightarrow> ('s, 'e, 'a) prog" where
  "fetch f e s = (case f s of None \<Rightarrow> (Inl e, s) | Some x \<Rightarrow> (Inr x, s))"

definition whenever :: "bool \<Rightarrow> ('s, 'e, unit) prog \<Rightarrow> ('s, 'e, unit) prog" where
  "whenever b m s = (if b then m s else (Inr (), s))"

fun for_each :: "'a list \<Rightarrow> ('a \<Rightarrow> ('s, 'e, unit) prog) \<Rightarrow> ('s, 'e, unit) prog" where
  "for_each [] f s = (Inr (), s)"
| "for_each (x # xs) f s = (case f x s of (Inl e, s') \<Rightarrow> (Inl e, s') | (Inr _, s') \<Rightarrow> for_each xs f s')"

text \<open>
  All-or-nothing execution: on an error the state is the one before.  This is
  a savepoint (\<open>begin_nested\<close>) as well as a database transaction.
\<close>

definition transaction :: "('s, 'e, 'a) prog \<Rightarrow> ('s, 'e, 'a) prog" where
  "transaction m s = (case m s of (Inl e, s') \<Rightarrow> (Inl e, s) | (Inr x, s') \<Rightarrow> (Inr x, s'))"

text \<open>\<open>catch m h\<close> runs \<open>h e\<close> in the state the failed program left.\<close>

definition catch :: "('s, 'e, 'a) prog \<Rightarrow> ('e \<Rightarrow> ('s, 'e, 'a) prog) \<Rightarrow> ('s, 'e, 'a) prog" where
  "catch m h s = (case m s of (Inl e, s') \<Rightarrow> h e s' | (Inr x, s') \<Rightarrow> (Inr x, s'))"

text \<open>A pure computation that may raise, and such computations along a list.\<close>

definition of_result :: "'e + 'a \<Rightarrow> ('s, 'e, 'a) prog" where
  "of_result r = (case r of Inl e \<Rightarrow> raise e | Inr x \<Rightarrow> ret x)"

fun traverse :: "('a \<Rightarrow> 'e + 'b) \<Rightarrow> 'a list \<Rightarrow> 'e + 'b list" where
  "traverse f [] = Inr []"
| "traverse f (x # xs) =
     (case f x of Inl e \<Rightarrow> Inl e
      | Inr y \<Rightarrow> (case traverse f xs of Inl e \<Rightarrow> Inl e | Inr ys \<Rightarrow> Inr (y # ys)))"

lemma traverse_Inr: "(\<And>x. x \<in> set xs \<Longrightarrow> f x = Inr (g x)) \<Longrightarrow> traverse f xs = Inr (map g xs)"
  by (induction xs) auto

lemma traverse_Inr_length: "traverse f xs = Inr ys \<Longrightarrow> length ys = length xs"
  by (induction xs arbitrary: ys) (auto split: sum.splits)

lemmas prog_defs = ret_def raise_def andThen_def gets_def modify_def ensure_def fetch_def
  whenever_def transaction_def catch_def

lemma run_ret [run_simps]: "ret x s = (Inr x, s)"
  by (simp add: ret_def)

lemma run_raise [run_simps]: "raise e s = (Inl e, s)"
  by (simp add: raise_def)

lemma run_gets [run_simps]: "gets f s = (Inr (f s), s)"
  by (simp add: gets_def)

lemma run_of_result [run_simps]:
  "of_result r s = (case r of Inl e \<Rightarrow> (Inl e, s) | Inr x \<Rightarrow> (Inr x, s))"
  by (simp add: of_result_def ret_def raise_def split: sum.splits)

lemma run_modify [run_simps]: "modify f s = (Inr (), f s)"
  by (simp add: modify_def)

lemma run_ensure [run_simps]: "ensure b e s = (if b then (Inr (), s) else (Inl e, s))"
  by (simp add: ensure_def)

lemma run_fetch [run_simps]:
  "fetch f e s = (case f s of None \<Rightarrow> (Inl e, s) | Some x \<Rightarrow> (Inr x, s))"
  by (simp add: fetch_def)

lemma run_when [run_simps]: "whenever b m s = (if b then m s else (Inr (), s))"
  by (simp add: whenever_def)

lemma run_andThen [run_simps]:
  "andThen m f s = (case m s of (Inl e, s') \<Rightarrow> (Inl e, s') | (Inr x, s') \<Rightarrow> f x s')"
  by (simp add: andThen_def)

lemma run_transaction [run_simps]:
  "transaction m s = (case m s of (Inl e, s') \<Rightarrow> (Inl e, s) | (Inr x, s') \<Rightarrow> (Inr x, s'))"
  by (simp add: transaction_def)

lemma run_catch [run_simps]:
  "catch m h s = (case m s of (Inl e, s') \<Rightarrow> h e s' | (Inr x, s') \<Rightarrow> (Inr x, s'))"
  by (simp add: catch_def)

section \<open>Weakest preconditions\<close>

text \<open>
  \<open>wp m Q E s\<close>: running \<open>m\<close> in \<open>s\<close> either returns a value and a state that
  satisfy \<open>Q\<close>, or raises an error and leaves a state that satisfy \<open>E\<close>.
\<close>

definition wp :: "('s, 'e, 'a) prog \<Rightarrow> ('a \<Rightarrow> 's \<Rightarrow> bool) \<Rightarrow> ('e \<Rightarrow> 's \<Rightarrow> bool) \<Rightarrow> 's \<Rightarrow> bool" where
  "wp m Q E s \<longleftrightarrow> (case m s of (Inl e, s') \<Rightarrow> E e s' | (Inr x, s') \<Rightarrow> Q x s')"

lemma wp_ret [wp_simps]: "wp (ret x) Q E = Q x"
  by (rule ext) (simp add: wp_def run_simps)

lemma wp_raise [wp_simps]: "wp (raise e) Q E s = E e s"
  by (simp add: wp_def run_simps)

lemma wp_gets [wp_simps]: "wp (gets f) Q E s = Q (f s) s"
  by (simp add: wp_def run_simps)

lemma wp_of_result [wp_simps]:
  "wp (of_result r) Q E s = (case r of Inl e \<Rightarrow> E e s | Inr x \<Rightarrow> Q x s)"
  by (simp add: of_result_def wp_def ret_def raise_def split: sum.splits)

lemma wp_modify [wp_simps]: "wp (modify f) Q E s = Q () (f s)"
  by (simp add: wp_def run_simps)

lemma wp_ensure [wp_simps]: "wp (ensure b e) Q E s = ((b \<longrightarrow> Q () s) \<and> (\<not> b \<longrightarrow> E e s))"
  by (simp add: wp_def ensure_def)

lemma wp_fetch [wp_simps]:
  "wp (fetch f e) Q E s = ((\<forall>x. f s = Some x \<longrightarrow> Q x s) \<and> (f s = None \<longrightarrow> E e s))"
  by (simp add: wp_def fetch_def split: option.splits)

lemma wp_when [wp_simps]:
  "wp (whenever b m) Q E s = ((b \<longrightarrow> wp m Q E s) \<and> (\<not> b \<longrightarrow> Q () s))"
  by (simp add: wp_def whenever_def)

lemma wp_andThen [wp_simps]: "wp (andThen m f) Q E = wp m (\<lambda>x. wp (f x) Q E) E"
  by (rule ext) (simp add: wp_def andThen_def split: sum.splits prod.splits)

lemma wp_transaction [wp_simps]:
  "wp (transaction m) Q E s = wp m Q (\<lambda>e _. E e s) s"
  by (simp add: wp_def transaction_def split: sum.splits prod.splits)

lemma wp_catch [wp_simps]: "wp (catch m h) Q E s = wp m Q (\<lambda>e. wp (h e) Q E) s"
  by (simp add: wp_def catch_def split: sum.splits prod.splits)

lemma wp_if [wp_simps]:
  "wp (if b then m else n) Q E s = ((b \<longrightarrow> wp m Q E s) \<and> (\<not> b \<longrightarrow> wp n Q E s))"
  by simp

lemma wp_case_option [wp_simps]:
  "wp (case x of None \<Rightarrow> m | Some y \<Rightarrow> f y) Q E s
     = ((x = None \<longrightarrow> wp m Q E s) \<and> (\<forall>y. x = Some y \<longrightarrow> wp (f y) Q E s))"
  by (simp split: option.splits)

lemma wp_let [wp_simps]: "wp (let x = t in f x) Q E s = wp (f t) Q E s"
  by (simp add: Let_def)

lemma wp_fun:
  "wp (modify f) Q E = (\<lambda>s. Q () (f s))" "wp (raise e) Q E = E e"
  by (simp_all add: fun_eq_iff wp_simps)

lemma wp_mono:
  assumes "wp m Q E s" "\<And>x s'. Q x s' \<Longrightarrow> Q' x s'" "\<And>e s'. E e s' \<Longrightarrow> E' e s'"
  shows "wp m Q' E' s"
  using assms by (auto simp: wp_def split: sum.splits prod.splits)

lemma wp_conj:
  "wp m Q E s \<Longrightarrow> wp m Q' E' s \<Longrightarrow> wp m (\<lambda>x s. Q x s \<and> Q' x s) (\<lambda>e s. E e s \<and> E' e s) s"
  by (auto simp: wp_def split: sum.splits prod.splits)

lemma wp_okD: "wp m Q E s \<Longrightarrow> m s = (Inr x, s') \<Longrightarrow> Q x s'"
  by (simp add: wp_def)

lemma wp_errD: "wp m Q E s \<Longrightarrow> m s = (Inl e, s') \<Longrightarrow> E e s'"
  by (simp add: wp_def)

lemma wp_True: "wp m (\<lambda>_ _. True) (\<lambda>_ _. True) s"
  by (simp add: wp_def split: sum.splits prod.splits)

lemma for_each_Cons_andThen: "for_each (x # xs) f = andThen (f x) (\<lambda>_. for_each xs f)"
  by (rule ext) (simp add: andThen_def)

lemma wp_for_each:
  assumes "J s" "\<And>x s. x \<in> set xs \<Longrightarrow> J s \<Longrightarrow> wp (f x) (\<lambda>_. J) E s"
  shows "wp (for_each xs f) (\<lambda>_. J) E s"
  using assms
proof (induction xs arbitrary: s)
  case (Cons x xs)
  then have "wp (f x) (\<lambda>_. J) E s" and "J s' \<Longrightarrow> wp (for_each xs f) (\<lambda>_. J) E s'" for s'
    by simp_all
  then show ?case
    unfolding for_each_Cons_andThen wp_andThen by (blast intro: wp_mono)
qed (simp add: wp_def)

text \<open>
  \<open>keeps I m\<close>: the program keeps the invariant, whether it returns or raises.
\<close>

definition keeps :: "('s \<Rightarrow> bool) \<Rightarrow> ('s, 'e, 'a) prog \<Rightarrow> bool" where
  "keeps I m \<longleftrightarrow> (\<forall>s. I s \<longrightarrow> wp m (\<lambda>_. I) (\<lambda>_. I) s)"

lemma keepsI [intro?]: "(\<And>s. I s \<Longrightarrow> wp m (\<lambda>_. I) (\<lambda>_. I) s) \<Longrightarrow> keeps I m"
  by (simp add: keeps_def)

lemma keepsD: "keeps I m \<Longrightarrow> I s \<Longrightarrow> wp m (\<lambda>_. I) (\<lambda>_. I) s"
  by (simp add: keeps_def)

lemma keeps_iff: "keeps I m \<longleftrightarrow> (\<forall>s. I s \<longrightarrow> I (snd (m s)))"
  by (auto simp: keeps_def wp_def case_prod_beta split: sum.splits)

lemma keeps_snd: "keeps I m \<Longrightarrow> I s \<Longrightarrow> I (snd (m s))"
  by (simp add: keeps_iff)

lemma keeps_ret [inv_intros]: "keeps I (ret x)"
  by (simp add: keeps_def wp_simps)

lemma keeps_raise [inv_intros]: "keeps I (raise e)"
  by (simp add: keeps_def wp_simps)

lemma keeps_gets [inv_intros]: "keeps I (gets f)"
  by (simp add: keeps_def wp_simps)

lemma keeps_ensure [inv_intros]: "keeps I (ensure b e)"
  by (simp add: keeps_def wp_simps)

lemma keeps_fetch [inv_intros]: "keeps I (fetch f e)"
  by (simp add: keeps_def wp_simps)

lemma keeps_of_result [inv_intros]: "keeps I (of_result r)"
  by (simp add: keeps_def wp_of_result split: sum.splits)

lemma keeps_modify [inv_intros]: "(\<And>s. I s \<Longrightarrow> I (f s)) \<Longrightarrow> keeps I (modify f)"
  by (simp add: keeps_def wp_simps)

lemma keeps_andThen [inv_intros]: "keeps I m \<Longrightarrow> (\<And>x. keeps I (f x)) \<Longrightarrow> keeps I (andThen m f)"
  by (auto simp: keeps_iff andThen_def case_prod_beta split: sum.splits)

lemma keeps_when [inv_intros]: "keeps I m \<Longrightarrow> keeps I (whenever b m)"
  by (simp add: keeps_def wp_simps)

lemma keeps_if [inv_intros]: "(b \<Longrightarrow> keeps I m) \<Longrightarrow> (\<not> b \<Longrightarrow> keeps I n) \<Longrightarrow> keeps I (if b then m else n)"
  by simp

lemma keeps_case_option [inv_intros]:
  "keeps I m \<Longrightarrow> (\<And>y. keeps I (f y)) \<Longrightarrow> keeps I (case x of None \<Rightarrow> m | Some y \<Rightarrow> f y)"
  by (cases x) simp_all

lemma keeps_case_sum [inv_intros]:
  "(\<And>e. keeps I (f e)) \<Longrightarrow> (\<And>y. keeps I (g y)) \<Longrightarrow> keeps I (case x of Inl e \<Rightarrow> f e | Inr y \<Rightarrow> g y)"
  by (cases x) auto

lemma keeps_let [inv_intros]: "keeps I (f t) \<Longrightarrow> keeps I (let x = t in f x)"
  by (simp add: Let_def)

lemma keeps_transaction [inv_intros]: "keeps I m \<Longrightarrow> keeps I (transaction m)"
  by (auto simp: keeps_iff transaction_def case_prod_beta split: sum.splits)

lemma keeps_catch [inv_intros]: "keeps I m \<Longrightarrow> (\<And>e. keeps I (h e)) \<Longrightarrow> keeps I (catch m h)"
  by (auto simp: keeps_iff catch_def case_prod_beta split: sum.splits)

lemma keeps_for_each [inv_intros]: "(\<And>x. keeps I (f x)) \<Longrightarrow> keeps I (for_each xs f)"
  by (rule keepsI) (auto simp: keeps_def intro: wp_for_each)

text \<open>
  \<open>commits I m\<close>: when the program returns, the invariant holds; an error leads
  to a rollback of the surrounding transaction.
\<close>

definition commits :: "('s \<Rightarrow> bool) \<Rightarrow> ('s, 'e, 'a) prog \<Rightarrow> bool" where
  "commits I m \<longleftrightarrow> (\<forall>s. I s \<longrightarrow> wp m (\<lambda>_. I) (\<lambda>_ _. True) s)"

lemma commitsI: "(\<And>s. I s \<Longrightarrow> wp m (\<lambda>_. I) (\<lambda>_ _. True) s) \<Longrightarrow> commits I m"
  by (simp add: commits_def)

lemma commitsD: "commits I m \<Longrightarrow> I s \<Longrightarrow> m s = (Inr x, s') \<Longrightarrow> I s'"
  by (auto simp: commits_def dest: wp_okD)

lemma commits_wp: "commits I m \<Longrightarrow> I s \<Longrightarrow> wp m (\<lambda>_. I) (\<lambda>_ _. True) s"
  by (simp add: commits_def)

lemma keeps_commits: "keeps I m \<Longrightarrow> commits I m"
  unfolding keeps_def commits_def by (blast intro: wp_mono)

lemma keeps_transaction_commits: "commits I m \<Longrightarrow> keeps I (transaction m)"
  by (auto simp: keeps_iff transaction_def dest: commitsD split: sum.splits prod.splits)

lemma transaction_error: "transaction m s = (Inl e, s') \<Longrightarrow> s' = s"
  by (auto simp: transaction_def split: sum.splits prod.splits)

section \<open>Keyed tables\<close>

definition row :: "('r \<Rightarrow> 'k) \<Rightarrow> 'k \<Rightarrow> 'r list \<Rightarrow> 'r option" where
  "row key k rs = find (\<lambda>r. key r = k) rs"

definition update_row :: "('r \<Rightarrow> 'k) \<Rightarrow> 'k \<Rightarrow> ('r \<Rightarrow> 'r) \<Rightarrow> 'r list \<Rightarrow> 'r list" where
  "update_row key k f rs = map (\<lambda>r. if key r = k then f r else r) rs"

definition update_where :: "('r \<Rightarrow> bool) \<Rightarrow> ('r \<Rightarrow> 'r) \<Rightarrow> 'r list \<Rightarrow> 'r list" where
  "update_where p f rs = map (\<lambda>r. if p r then f r else r) rs"

definition delete_row :: "('r \<Rightarrow> 'k) \<Rightarrow> 'k \<Rightarrow> 'r list \<Rightarrow> 'r list" where
  "delete_row key k rs = filter (\<lambda>r. key r \<noteq> k) rs"

lemma filter_singleD: "filter p xs = [x] \<Longrightarrow> x \<in> set xs \<and> p x"
  using set_filter [of p xs] by auto

lemma filter_key_cases:
  "distinct (map f xs) \<Longrightarrow> filter (\<lambda>x. f x = k) xs = [] \<or> (\<exists>y. filter (\<lambda>x. f x = k) xs = [y])"
proof (induction xs)
  case (Cons x xs)
  then show ?case by (cases "f x = k") (auto simp: filter_empty_conv image_iff)
qed simp

lemma row_Nil [simp, table_simps]: "row key k [] = None"
  by (simp add: row_def)

lemma row_Cons [table_simps]: "row key k (r # rs) = (if key r = k then Some r else row key k rs)"
  by (simp add: row_def)

lemma update_row_Nil [simp, table_simps]: "update_row key k f [] = []"
  by (simp add: update_row_def)

lemma update_row_Cons [table_simps]:
  "update_row key k f (r # rs) = (if key r = k then f r else r) # update_row key k f rs"
  by (simp add: update_row_def)

lemma row_SomeD: "row key k rs = Some r \<Longrightarrow> r \<in> set rs \<and> key r = k"
  by (auto simp: row_def find_Some_iff)

lemma row_NoneD: "row key k rs = None \<Longrightarrow> r \<in> set rs \<Longrightarrow> key r \<noteq> k"
  by (auto simp: row_def find_None_iff)

lemma row_None_iff: "row key k rs = None \<longleftrightarrow> k \<notin> key ` set rs"
  by (auto simp: row_def find_None_iff)

lemma row_append [table_simps]:
  "row key k (rs @ rs') = (case row key k rs of None \<Rightarrow> row key k rs' | Some r \<Rightarrow> Some r)"
  by (induction rs) (auto simp: row_Cons)

lemma row_distinct: "distinct (map key rs) \<Longrightarrow> r \<in> set rs \<Longrightarrow> row key (key r) rs = Some r"
  by (induction rs) (auto simp: row_Cons)

lemma row_distinct_iff:
  "distinct (map key rs) \<Longrightarrow> row key k rs = Some r \<longleftrightarrow> r \<in> set rs \<and> key r = k"
  using row_SomeD row_distinct by metis

lemma row_update_row [table_simps]:
  "(\<And>r. key (f r) = key r) \<Longrightarrow>
   row key k (update_row key j f rs) = (if k = j then map_option f (row key k rs) else row key k rs)"
  by (induction rs) (auto simp: row_Cons update_row_def)

lemma set_update_row: "set (update_row key k f rs) = (\<lambda>r. if key r = k then f r else r) ` set rs"
  by (simp add: update_row_def)

lemma in_update_rowI:
  "r \<in> set rs \<Longrightarrow> key r = k \<Longrightarrow> f r \<in> set (update_row key k f rs)"
  "r \<in> set rs \<Longrightarrow> key r \<noteq> k \<Longrightarrow> r \<in> set (update_row key k f rs)"
  by (auto simp: update_row_def)

lemma in_update_rowE:
  assumes "r \<in> set (update_row key k f rs)"
  obtains r0 where "r0 \<in> set rs" "key r0 = k" "r = f r0" | "r \<in> set rs" "key r \<noteq> k"
  using assms by (auto simp: update_row_def split: if_splits)

lemma map_update_row [table_simps]:
  "(\<And>r. g (f r) = g r) \<Longrightarrow> map g (update_row key k f rs) = map g rs"
  by (simp add: update_row_def)

lemma length_update_row [simp, table_simps]: "length (update_row key k f rs) = length rs"
  by (simp add: update_row_def)

lemma update_row_absent: "k \<notin> key ` set rs \<Longrightarrow> update_row key k f rs = rs"
  unfolding update_row_def by (rule map_idI) auto

lemma set_update_where: "set (update_where p f rs) = (\<lambda>r. if p r then f r else r) ` set rs"
  by (simp add: update_where_def)

lemma map_update_where [table_simps]:
  "(\<And>r. g (f r) = g r) \<Longrightarrow> map g (update_where p f rs) = map g rs"
  by (simp add: update_where_def)

lemma set_delete_row [simp]: "set (delete_row key k rs) = {r \<in> set rs. key r \<noteq> k}"
  by (auto simp: delete_row_def)

lemma row_delete_row [table_simps]:
  "row key k (delete_row key j rs) = (if k = j then None else row key k rs)"
  by (induction rs) (auto simp: delete_row_def row_Cons)

lemma row_filter_None: "row key k rs = None \<Longrightarrow> row key k (filter p rs) = None"
  by (auto simp: row_None_iff)

lemma distinct_map_filter [simp]: "distinct (map key rs) \<Longrightarrow> distinct (map key (filter p rs))"
  by (induction rs) auto

lemma distinct_map_delete_row [simp]:
  "distinct (map key rs) \<Longrightarrow> distinct (map key (delete_row key' k rs))"
  by (simp add: delete_row_def)

text \<open>The join of several guards over a table, and the counting that \<open>COUNT\<close> does.\<close>

definition count_rows :: "('r \<Rightarrow> bool) \<Rightarrow> 'r list \<Rightarrow> nat" where
  "count_rows p rs = length (filter p rs)"

lemma count_rows_0_iff: "count_rows p rs = 0 \<longleftrightarrow> (\<forall>r\<in>set rs. \<not> p r)"
  by (auto simp: count_rows_def filter_empty_conv)

section \<open>Pairwise constraints\<close>

text \<open>
  \<open>exclusive R rs\<close>: no two rows at different positions are related, which is
  what a unique index or an exclusion constraint over the rows says.
\<close>

fun exclusive :: "('r \<Rightarrow> 'r \<Rightarrow> bool) \<Rightarrow> 'r list \<Rightarrow> bool" where
  "exclusive R [] = True"
| "exclusive R (r # rs) = ((\<forall>r'\<in>set rs. \<not> R r r') \<and> exclusive R rs)"

lemma exclusive_append:
  "exclusive R (xs @ ys) \<longleftrightarrow> exclusive R xs \<and> exclusive R ys \<and> (\<forall>x\<in>set xs. \<forall>y\<in>set ys. \<not> R x y)"
  by (induction xs) auto

lemma exclusive_filter [simp]: "exclusive R rs \<Longrightarrow> exclusive R (filter p rs)"
  by (induction rs) auto

lemma exclusive_delete_row [simp]: "exclusive R rs \<Longrightarrow> exclusive R (delete_row key k rs)"
  by (simp add: delete_row_def)

lemma exclusive_map_anti:
  "exclusive R rs \<Longrightarrow> (\<And>x y. x \<in> set rs \<Longrightarrow> y \<in> set rs \<Longrightarrow> R (f x) (f y) \<Longrightarrow> R x y)
   \<Longrightarrow> exclusive R (map f rs)"
  by (induction rs) auto

lemma exclusive_nth:
  "exclusive R rs \<longleftrightarrow> (\<forall>i j. i < j \<longrightarrow> j < length rs \<longrightarrow> \<not> R (rs ! i) (rs ! j))"
proof (induction rs)
  case (Cons r rs)
  show ?case (is "?l \<longleftrightarrow> ?r")
  proof
    assume ?l
    with Cons show ?r by (auto simp: nth_Cons split: nat.splits)
  next
    assume r: ?r
    have "\<not> R r r'" if "r' \<in> set rs" for r'
    proof -
      from that obtain j where "j < length rs" "rs ! j = r'" by (auto simp: in_set_conv_nth)
      with r have "\<not> R ((r # rs) ! 0) ((r # rs) ! Suc j)" by (metis Suc_less_eq length_Cons zero_less_Suc)
      with \<open>rs ! j = r'\<close> show ?thesis by simp
    qed
    moreover have "\<forall>i j. i < j \<longrightarrow> j < length rs \<longrightarrow> \<not> R (rs ! i) (rs ! j)"
      using r by (metis Suc_less_eq length_Cons nth_Cons_Suc)
    ultimately show ?l using Cons by simp
  qed
qed simp

lemma exclusive_distinct: "exclusive (\<lambda>x y. key x = key y) rs \<longleftrightarrow> distinct (map key rs)"
  by (induction rs) auto

lemma exclusiveD:
  assumes "exclusive R rs" "x \<in> set rs" "y \<in> set rs" "x \<noteq> y" "symp R"
  shows "\<not> R x y"
  using assms by (induction rs) (auto dest: sympD)

end
