(* ===== verification/Cidr.thy ===== *)
theory Cidr
  imports Prelude
begin

text \<open>
  IPv4 networks: \<open>app/core/cidr.py\<close> and what it uses of Python's \<open>ipaddress\<close>
  (the parsers of IPv4 and IPv6 networks, \<open>str\<close>, \<open>subnet_of\<close>), and the three
  network operators of the queries (\<open>&&\<close>, \<open>>>=\<close>, \<open><<=\<close>).  Python text is the list
  of its code points.  The lemmas relate the operators to sets of addresses
  and show that parsing inverts printing.
\<close>

section \<open>Text\<close>

type_synonym ustr = "nat list"

definition codes :: "string \<Rightarrow> ustr" where
  "codes s = map of_char s"

text \<open>\<open>str.split(sep)\<close> for a separator of one character.\<close>

fun split_on :: "nat \<Rightarrow> ustr \<Rightarrow> ustr list" where
  "split_on c [] = [[]]"
| "split_on c (x # xs) =
     (if x = c then [] # split_on c xs
      else case split_on c xs of [] \<Rightarrow> [[x]] | y # ys \<Rightarrow> (x # y) # ys)"

definition is_digit :: "nat \<Rightarrow> bool" where
  "is_digit c \<longleftrightarrow> 48 \<le> c \<and> c \<le> 57"

text \<open>\<open>s.isascii() and s.isdigit()\<close>; \<open>isdigit\<close> is false on the empty string.\<close>

definition ascii_digits :: "ustr \<Rightarrow> bool" where
  "ascii_digits s \<longleftrightarrow> s \<noteq> [] \<and> list_all is_digit s"

definition int10 :: "ustr \<Rightarrow> nat" where
  "int10 s = foldl (\<lambda>n c. n * 10 + (c - 48)) 0 s"

fun dec :: "nat \<Rightarrow> ustr" where
  "dec n = (if n < 10 then [48 + n] else dec (n div 10) @ [48 + n mod 10])"

declare dec.simps [simp del]

section \<open>The parsers of Python's ipaddress\<close>

datatype ipaddress_error = AddressValueError | NetmaskValueError | HostBitsSet | NotANetwork

datatype net = Net (net_addr: nat) (prefixlen: nat)

datatype ip_net = V4 net | V6 nat nat

definition parse_octet :: "ustr \<Rightarrow> nat option" where
  "parse_octet s =
     (if \<not> ascii_digits s then None
      else if 3 < length s then None
      else if s \<noteq> [48] \<and> hd s = 48 then None
      else if 255 < int10 s then None
      else Some (int10 s))"

definition ipv4_int_from_string :: "ustr \<Rightarrow> nat option" where
  "ipv4_int_from_string s =
     (case map parse_octet (split_on 46 s) of
        [Some a, Some b, Some c, Some d] \<Rightarrow> Some (((a * 256 + b) * 256 + c) * 256 + d)
      | _ \<Rightarrow> None)"

definition ipv4_address :: "ustr \<Rightarrow> nat option" where
  "ipv4_address s = (if 47 \<in> set s then None else ipv4_int_from_string s)"

text \<open>
  A prefix in digits (leading zeros allowed; \<open>int\<close> refuses more than 4300
  digits), else a netmask, else a hostmask in dotted form.
\<close>

definition prefix_from_prefix_string :: "nat \<Rightarrow> ustr \<Rightarrow> nat option" where
  "prefix_from_prefix_string bits s =
     (if ascii_digits s \<and> length s \<le> 4300 \<and> int10 s \<le> bits then Some (int10 s) else None)"

fun count_righthand_zero_bits :: "nat \<Rightarrow> nat \<Rightarrow> nat" where
  "count_righthand_zero_bits n 0 = 0"
| "count_righthand_zero_bits n (Suc bits) =
     (if n mod 2 = 1 then 0 else Suc (count_righthand_zero_bits (n div 2) bits))"

definition prefix_from_ip_int :: "nat \<Rightarrow> nat option" where
  "prefix_from_ip_int n =
     (let z = count_righthand_zero_bits n 32; p = 32 - z
      in if n div 2 ^ z = 2 ^ p - 1 then Some p else None)"

definition prefix_from_ip_string :: "ustr \<Rightarrow> nat option" where
  "prefix_from_ip_string s =
     (case ipv4_int_from_string s of
        None \<Rightarrow> None
      | Some n \<Rightarrow>
          (case prefix_from_ip_int n of
             Some p \<Rightarrow> Some p
           | None \<Rightarrow> prefix_from_ip_int (2 ^ 32 - 1 - n)))"

definition ipv4_make_netmask :: "ustr \<Rightarrow> nat option" where
  "ipv4_make_netmask s =
     (case prefix_from_prefix_string 32 s of
        Some p \<Rightarrow> Some p
      | None \<Rightarrow> prefix_from_ip_string s)"

text \<open>The network address under a mask of \<open>p\<close> bits, \<open>packed & netmask\<close>.\<close>

definition mask_host :: "nat \<Rightarrow> nat \<Rightarrow> nat \<Rightarrow> nat" where
  "mask_host bits p a = a div 2 ^ (bits - p) * 2 ^ (bits - p)"

definition ipv4_network :: "ustr \<Rightarrow> bool \<Rightarrow> ipaddress_error + net" where
  "ipv4_network s strict =
     (case split_on 47 s of
        [addr] \<Rightarrow>
          (case ipv4_address addr of
             None \<Rightarrow> Inl AddressValueError
           | Some a \<Rightarrow> Inr (Net a 32))
      | [addr, netmask] \<Rightarrow>
          (case ipv4_address addr of
             None \<Rightarrow> Inl AddressValueError
           | Some a \<Rightarrow>
               (case ipv4_make_netmask netmask of
                  None \<Rightarrow> Inl NetmaskValueError
                | Some p \<Rightarrow>
                    if mask_host 32 p a \<noteq> a \<and> strict then Inl HostBitsSet
                    else Inr (Net (mask_host 32 p a) p)))
      | _ \<Rightarrow> Inl AddressValueError)"

definition hex_digit :: "nat \<Rightarrow> nat option" where
  "hex_digit c =
     (if 48 \<le> c \<and> c \<le> 57 then Some (c - 48)
      else if 97 \<le> c \<and> c \<le> 102 then Some (c - 87)
      else if 65 \<le> c \<and> c \<le> 70 then Some (c - 55)
      else None)"

definition parse_hextet :: "ustr \<Rightarrow> nat option" where
  "parse_hextet s =
     (if s = [] \<or> 4 < length s \<or> \<not> list_all (\<lambda>c. hex_digit c \<noteq> None) s then None
      else Some (foldl (\<lambda>n c. n * 16 + the (hex_digit c)) 0 s))"

fun parse_hextets :: "ustr list \<Rightarrow> nat option" where
  "parse_hextets [] = Some 0"
| "parse_hextets (p # ps) =
     (case (parse_hextet p, parse_hextets ps) of
        (Some h, Some n) \<Rightarrow> Some (h * 2 ^ (16 * length ps) + n)
      | _ \<Rightarrow> None)"

definition hex4 :: "nat \<Rightarrow> ustr" where
  "hex4 n = map (\<lambda>d. if d < 10 then 48 + d else 87 + d)
     [n div 4096 mod 16, n div 256 mod 16, n div 16 mod 16, n mod 16]"

text \<open>The parts of an IPv6 address, its dotted IPv4 suffix replaced by two hextets.\<close>

definition ipv6_parts :: "ustr \<Rightarrow> ustr list option" where
  "ipv6_parts s =
     (let parts = split_on 58 s in
      if s = [] \<or> length parts < 3 then None
      else if 46 \<in> set (last parts) then
        (case ipv4_address (last parts) of
           None \<Rightarrow> None
         | Some n \<Rightarrow> Some (butlast parts @ [hex4 (n div 65536), hex4 (n mod 65536)]))
      else Some parts)"

definition ipv6_int_from_parts :: "ustr list \<Rightarrow> nat option" where
  "ipv6_int_from_parts parts =
     (if 9 < length parts then None
      else case filter (\<lambda>i. parts ! i = []) [1 ..< length parts - 1] of
        [] \<Rightarrow>
          if length parts \<noteq> 8 \<or> hd parts = [] \<or> last parts = [] then None
          else parse_hextets parts
      | [i] \<Rightarrow>
          let hi0 = i; lo0 = length parts - i - 1;
              hi = (if hd parts = [] then hi0 - 1 else hi0);
              lo = (if last parts = [] then lo0 - 1 else lo0)
          in if hd parts = [] \<and> hi \<noteq> 0 then None
             else if last parts = [] \<and> lo \<noteq> 0 then None
             else if 8 < hi + lo + 1 then None
             else (case (parse_hextets (take hi parts),
                         parse_hextets (drop (length parts - lo) parts)) of
                     (Some h, Some l) \<Rightarrow> Some (h * 2 ^ (16 * (8 - hi)) + l)
                   | _ \<Rightarrow> None)
      | _ \<Rightarrow> None)"

definition ipv6_address :: "ustr \<Rightarrow> nat option" where
  "ipv6_address s =
     (case split_on 37 s of
        [addr] \<Rightarrow> Option.bind (ipv6_parts addr) ipv6_int_from_parts
      | [addr, scope] \<Rightarrow>
          if scope = [] then None else Option.bind (ipv6_parts addr) ipv6_int_from_parts
      | _ \<Rightarrow> None)"

definition ipv6_network :: "ustr \<Rightarrow> bool \<Rightarrow> ipaddress_error + (nat \<times> nat)" where
  "ipv6_network s strict =
     (case split_on 47 s of
        [addr] \<Rightarrow>
          (case ipv6_address addr of
             None \<Rightarrow> Inl AddressValueError
           | Some a \<Rightarrow> Inr (a, 128))
      | [addr, netmask] \<Rightarrow>
          (case ipv6_address addr of
             None \<Rightarrow> Inl AddressValueError
           | Some a \<Rightarrow>
               (case prefix_from_prefix_string 128 netmask of
                  None \<Rightarrow> Inl NetmaskValueError
                | Some p \<Rightarrow>
                    if mask_host 128 p a \<noteq> a \<and> strict then Inl HostBitsSet
                    else Inr (mask_host 128 p a, p)))
      | _ \<Rightarrow> Inl AddressValueError)"

text \<open>
  \<open>ip_network\<close> tries IPv4, then IPv6; an address or mask error of one makes it
  try the next, set host bits are reported at once.
\<close>

definition ip_network :: "ustr \<Rightarrow> bool \<Rightarrow> ipaddress_error + ip_net" where
  "ip_network s strict =
     (case ipv4_network s strict of
        Inr n \<Rightarrow> Inr (V4 n)
      | Inl HostBitsSet \<Rightarrow> Inl HostBitsSet
      | Inl _ \<Rightarrow>
          (case ipv6_network s strict of
             Inr (a, p) \<Rightarrow> Inr (V6 a p)
           | Inl HostBitsSet \<Rightarrow> Inl HostBitsSet
           | Inl _ \<Rightarrow> Inl NotANetwork))"

text \<open>\<open>str\<close> of an IPv4 address and of an IPv4 network.\<close>

definition str_ipv4 :: "nat \<Rightarrow> ustr" where
  "str_ipv4 a =
     dec (a div 16777216 mod 256) @ [46] @ dec (a div 65536 mod 256) @ [46] @
     dec (a div 256 mod 256) @ [46] @ dec (a mod 256)"

definition str_net :: "net \<Rightarrow> ustr" where
  "str_net n = str_ipv4 (net_addr n) @ [47] @ dec (prefixlen n)"

section \<open>app/core/cidr.py\<close>

datatype CidrValidationError =
    HostBits_canonical net
  | Invalid_CIDR
  | IPv6_not_supported
  | Reserved_range
  | Zero_prefix

definition is_IPv4Network :: "ip_net \<Rightarrow> bool" where
  "is_IPv4Network n = (case n of V4 _ \<Rightarrow> True | V6 _ _ \<Rightarrow> False)"

definition has_host_bits :: "ustr \<Rightarrow> bool" where
  "has_host_bits value =
     (case ip_network value True of
        Inr strict_network \<Rightarrow> \<not> is_IPv4Network strict_network
      | Inl _ \<Rightarrow>
          (case ip_network value False of
             Inr n \<Rightarrow> is_IPv4Network n
           | Inl _ \<Rightarrow> False))"

definition parse_ipv4_cidr :: "ustr \<Rightarrow> CidrValidationError + net" where
  "parse_ipv4_cidr value =
     (case ip_network value True of
        Inl _ \<Rightarrow>
          if has_host_bits value then
            (case ip_network value False of
               Inr (V4 canonical) \<Rightarrow> Inl (HostBits_canonical canonical)
             | _ \<Rightarrow> Inl Invalid_CIDR)
          else Inl Invalid_CIDR
      | Inr (V6 _ _) \<Rightarrow> Inl IPv6_not_supported
      | Inr (V4 network) \<Rightarrow> Inr network)"

definition net_size :: "net \<Rightarrow> nat" where
  "net_size n = 2 ^ (32 - prefixlen n)"

definition broadcast_address :: "net \<Rightarrow> nat" where
  "broadcast_address n = net_addr n + net_size n - 1"

definition subnet_of :: "net \<Rightarrow> net \<Rightarrow> bool" where
  "subnet_of a b \<longleftrightarrow> net_addr b \<le> net_addr a \<and> broadcast_address b \<ge> broadcast_address a"

definition reject_reserved :: "net \<Rightarrow> CidrValidationError + unit" where
  "reject_reserved n =
     (if n = Net 0 0 \<or> subnet_of n (Net 0 8) then Inl Reserved_range else Inr ())"

definition is_subnet :: "net \<Rightarrow> net \<Rightarrow> bool" where
  "is_subnet target container = subnet_of target container"

section \<open>The network operators of the queries\<close>

text \<open>\<open>a && b\<close>: the shorter prefix is common to both.\<close>

definition net_overlaps :: "net \<Rightarrow> net \<Rightarrow> bool" where
  "net_overlaps a b =
     (let m = min (prefixlen a) (prefixlen b)
      in net_addr a div 2 ^ (32 - m) = net_addr b div 2 ^ (32 - m))"

text \<open>\<open>a >>= b\<close>: \<open>a\<close> contains or equals \<open>b\<close>; \<open>b <<= a\<close> is the same question.\<close>

definition net_contains :: "net \<Rightarrow> net \<Rightarrow> bool" where
  "net_contains a b \<longleftrightarrow>
     prefixlen a \<le> prefixlen b \<and>
     net_addr a div 2 ^ (32 - prefixlen a) = net_addr b div 2 ^ (32 - prefixlen a)"

text \<open>\<open>ORDER BY\<close> a network column: by address, then by prefix length.\<close>

definition net_less_eq :: "net \<Rightarrow> net \<Rightarrow> bool" where
  "net_less_eq a b \<longleftrightarrow>
     net_addr a < net_addr b \<or> net_addr a = net_addr b \<and> prefixlen a \<le> prefixlen b"

instantiation net :: linorder
begin

definition less_eq_net :: "net \<Rightarrow> net \<Rightarrow> bool" where
  "less_eq_net = net_less_eq"

definition less_net :: "net \<Rightarrow> net \<Rightarrow> bool" where
  "less_net a b \<longleftrightarrow> net_less_eq a b \<and> \<not> net_less_eq b a"

instance
  by standard (auto simp: less_eq_net_def less_net_def net_less_eq_def net.expand)

end

text \<open>The values of a \<open>cidr\<close> column and of \<open>IPv4Network\<close>: no host bits.\<close>

definition valid_net :: "net \<Rightarrow> bool" where
  "valid_net n \<longleftrightarrow>
     prefixlen n \<le> 32 \<and> net_addr n < 2 ^ 32 \<and> net_addr n mod net_size n = 0"

definition net_addrs :: "net \<Rightarrow> nat set" where
  "net_addrs n = {net_addr n ..< net_addr n + net_size n}"

section \<open>Networks as sets of addresses\<close>

lemma div_interval:
  fixes a k x :: nat
  assumes "0 < k" "a mod k = 0"
  shows "x \<in> {a ..< a + k} \<longleftrightarrow> x div k = a div k"
proof -
  obtain q where a: "a = k * q" using assms(2) by blast
  show ?thesis
  proof
    assume "x \<in> {a ..< a + k}"
    then obtain r where "x = k * q + r" "r < k"
      unfolding a using le_Suc_ex [of "k * q" x] by auto
    then show "x div k = a div k" using assms(1) by (simp add: a)
  next
    assume "x div k = a div k"
    then have "x div k = q" using assms(1) by (simp add: a)
    then have "x = k * q + x mod k" using mult_div_mod_eq [of k x] by simp
    then show "x \<in> {a ..< a + k}"
      using mod_less_divisor [OF assms(1), of x] unfolding a atLeastLessThan_iff by linarith
  qed
qed

lemma net_size_pos [simp]: "0 < net_size n"
  by (simp add: net_size_def)

lemma net_addrs_iff:
  "valid_net n \<Longrightarrow> x \<in> net_addrs n \<longleftrightarrow> x div net_size n = net_addr n div net_size n"
  unfolding net_addrs_def by (rule div_interval) (simp_all add: valid_net_def)

lemma net_addr_in_addrs [simp]: "net_addr n \<in> net_addrs n"
  by (simp add: net_addrs_def)

lemma div_coarser:
  fixes x y :: nat
  assumes "p \<le> q" "q \<le> 32" "x div 2 ^ (32 - q) = y div 2 ^ (32 - q)"
  shows "x div 2 ^ (32 - p) = y div 2 ^ (32 - p)"
proof -
  have "(2::nat) ^ (32 - p) = 2 ^ (32 - q) * 2 ^ (q - p)"
    using assms(1,2) by (simp flip: power_add)
  then show ?thesis using assms(3) by (simp add: div_mult2_eq)
qed

lemma net_contains_iff_subset:
  assumes "valid_net a" "valid_net b"
  shows "net_contains a b \<longleftrightarrow> net_addrs b \<subseteq> net_addrs a"
proof
  assume c: "net_contains a b"
  show "net_addrs b \<subseteq> net_addrs a"
  proof
    fix x assume "x \<in> net_addrs b"
    then have "x div 2 ^ (32 - prefixlen b) = net_addr b div 2 ^ (32 - prefixlen b)"
      using net_addrs_iff [OF assms(2)] by (simp add: net_size_def)
    then have "x div 2 ^ (32 - prefixlen a) = net_addr b div 2 ^ (32 - prefixlen a)"
      using c assms(2) by (auto simp: net_contains_def valid_net_def
          intro: div_coarser [of "prefixlen a" "prefixlen b"])
    then show "x \<in> net_addrs a"
      using c net_addrs_iff [OF assms(1)] by (simp add: net_contains_def net_size_def)
  qed
next
  assume sub: "net_addrs b \<subseteq> net_addrs a"
  then have "card (net_addrs b) \<le> card (net_addrs a)"
    by (intro card_mono) (auto simp: net_addrs_def)
  then have "net_size b \<le> net_size a" by (simp add: net_addrs_def)
  then have "prefixlen a \<le> prefixlen b"
    using assms by (auto simp: net_size_def valid_net_def)
  moreover have "net_addr b div net_size a = net_addr a div net_size a"
    using sub net_addr_in_addrs [of b] net_addrs_iff [OF assms(1), of "net_addr b"] by blast
  ultimately show "net_contains a b" by (simp add: net_contains_def net_size_def)
qed

lemma net_overlaps_contains: "net_overlaps a b \<longleftrightarrow> net_contains a b \<or> net_contains b a"
  by (auto simp: net_overlaps_def net_contains_def Let_def min_def)

lemma net_overlaps_sym: "net_overlaps a b = net_overlaps b a"
  by (auto simp: net_overlaps_contains)

lemma net_overlaps_refl [simp]: "net_overlaps a a"
  by (simp add: net_overlaps_def)

lemma net_overlaps_iff_intersect:
  assumes "valid_net a" "valid_net b"
  shows "net_overlaps a b \<longleftrightarrow> net_addrs a \<inter> net_addrs b \<noteq> {}"
proof
  assume "net_overlaps a b"
  then have "net_addrs b \<subseteq> net_addrs a \<or> net_addrs a \<subseteq> net_addrs b"
    using assms by (simp add: net_overlaps_contains net_contains_iff_subset)
  then show "net_addrs a \<inter> net_addrs b \<noteq> {}" using net_addr_in_addrs by blast
next
  assume "net_addrs a \<inter> net_addrs b \<noteq> {}"
  then obtain x where x: "x div 2 ^ (32 - prefixlen a) = net_addr a div 2 ^ (32 - prefixlen a)"
    "x div 2 ^ (32 - prefixlen b) = net_addr b div 2 ^ (32 - prefixlen b)"
    using assms by (auto simp: net_addrs_iff net_size_def)
  let ?m = "min (prefixlen a) (prefixlen b)"
  have "x div 2 ^ (32 - ?m) = net_addr a div 2 ^ (32 - ?m)"
    using assms(1) by (intro div_coarser [OF _ _ x(1)]) (simp_all add: valid_net_def)
  moreover have "x div 2 ^ (32 - ?m) = net_addr b div 2 ^ (32 - ?m)"
    using assms(2) by (intro div_coarser [OF _ _ x(2)]) (simp_all add: valid_net_def)
  ultimately show "net_overlaps a b" by (simp add: net_overlaps_def Let_def)
qed

lemma net_contains_refl [simp]: "net_contains a a"
  by (simp add: net_contains_def)

lemma net_contains_trans:
  "valid_net a \<Longrightarrow> valid_net b \<Longrightarrow> valid_net c \<Longrightarrow> net_contains a b \<Longrightarrow> net_contains b c
   \<Longrightarrow> net_contains a c"
  by (auto simp: net_contains_iff_subset)

lemma net_contains_overlaps_mono:
  "valid_net a \<Longrightarrow> valid_net b \<Longrightarrow> valid_net c \<Longrightarrow> net_contains a b \<Longrightarrow> net_overlaps b c
   \<Longrightarrow> net_overlaps a c"
  by (simp add: net_overlaps_iff_intersect net_contains_iff_subset) blast

lemma net_contains_antisym:
  assumes "valid_net a" "valid_net b" "net_contains a b" "net_contains b a"
  shows "a = b"
proof (cases a, cases b)
  fix x p y q assume ab: "a = Net x p" "b = Net y q"
  then have "p = q" using assms(3,4) by (simp add: net_contains_def)
  moreover have "x = y"
    using assms \<open>p = q\<close> ab mult_div_mod_eq [of "net_size a" x] mult_div_mod_eq [of "net_size a" y]
    by (simp add: net_contains_def valid_net_def net_size_def)
  ultimately show "a = b" using ab by simp
qed

lemma subnet_of_iff_subset: "subnet_of a b \<longleftrightarrow> net_addrs a \<subseteq> net_addrs b"
proof -
  obtain x y where "net_size a = Suc x" "net_size b = Suc y"
    using net_size_pos by (metis gr0_implies_Suc)
  then show ?thesis
    by (simp add: subnet_of_def broadcast_address_def net_addrs_def)
qed

lemma subnet_of_iff_contains:
  "valid_net a \<Longrightarrow> valid_net b \<Longrightarrow> subnet_of a b \<longleftrightarrow> net_contains b a"
  by (simp add: subnet_of_iff_subset net_contains_iff_subset)

section \<open>Parsing and printing\<close>

lemma split_on_absent: "c \<notin> set xs \<Longrightarrow> split_on c xs = [xs]"
  by (induction xs) auto

lemma split_on_append: "c \<notin> set xs \<Longrightarrow> split_on c (xs @ c # ys) = xs # split_on c ys"
  by (induction xs) auto

lemma dec_digits: "c \<in> set (dec n) \<Longrightarrow> is_digit c"
proof (induction n rule: dec.induct)
  case (1 n)
  then show ?case
    by (subst (asm) (2) dec.simps) (auto simp: is_digit_def split: if_splits)
qed

lemma dec_no_sep [simp]: "46 \<notin> set (dec n)" "47 \<notin> set (dec n)"
  using dec_digits [of 46 n] dec_digits [of 47 n] by (auto simp: is_digit_def)

lemma dec_nonempty [simp]: "dec n \<noteq> []"
  by (subst dec.simps) simp

lemma ascii_digits_dec [simp]: "ascii_digits (dec n)"
  by (auto simp: ascii_digits_def list_all_iff dec_digits)

lemma int10_snoc: "int10 (s @ [c]) = int10 s * 10 + (c - 48)"
  by (simp add: int10_def)

lemma int10_dec [simp]: "int10 (dec n) = n"
proof (induction n rule: dec.induct)
  case (1 n)
  show ?case
  proof (cases "n < 10")
    case True
    then show ?thesis by (subst dec.simps) (simp add: int10_def)
  next
    case False
    then have "int10 (dec n) = int10 (dec (n div 10) @ [48 + n mod 10])"
      by (subst dec.simps) simp
    also have "\<dots> = n" using 1 False by (simp add: int10_snoc)
    finally show ?thesis .
  qed
qed

lemma dec_inj: "dec m = dec n \<Longrightarrow> m = n"
  by (metis int10_dec)

lemma length_dec: "n < 1000 \<Longrightarrow> length (dec n) \<le> 3"
  by (subst dec.simps, subst dec.simps, subst dec.simps) simp

lemma hd_dec: "0 < n \<Longrightarrow> hd (dec n) \<noteq> 48"
proof (induction n rule: dec.induct)
  case (1 n)
  show ?case
  proof (cases "n < 10")
    case True
    then show ?thesis using 1 by (subst dec.simps) simp
  next
    case False
    then have "dec n = dec (n div 10) @ [48 + n mod 10]" by (subst dec.simps) simp
    moreover have "hd (dec (n div 10)) \<noteq> 48" using 1 False by simp
    ultimately show ?thesis by (simp add: hd_append)
  qed
qed

lemma dec_0 [simp]: "dec 0 = [48]"
  by (simp add: dec.simps)

lemma parse_octet_dec [simp]:
  assumes "n < 256"
  shows "parse_octet (dec n) = Some n"
proof (cases "n = 0")
  case True
  then show ?thesis by (simp add: parse_octet_def ascii_digits_def is_digit_def int10_def)
next
  case False
  then show ?thesis
    using assms hd_dec [of n] length_dec [of n] by (simp add: parse_octet_def)
qed

lemma ipv4_address_octets:
  assumes "b3 < 256" "b2 < 256" "b1 < 256" "b0 < 256"
  shows "ipv4_address (dec b3 @ [46] @ dec b2 @ [46] @ dec b1 @ [46] @ dec b0)
    = Some (((b3 * 256 + b2) * 256 + b1) * 256 + b0)"
  using assms
  by (simp add: ipv4_address_def ipv4_int_from_string_def split_on_append split_on_absent)

lemma ipv4_address_str_ipv4:
  assumes "a < 2 ^ 32"
  shows "ipv4_address (str_ipv4 a) = Some a"
proof -
  have "a div 16777216 mod 256 = a div 16777216" using assms by simp
  moreover have "a div 65536 = a div 16777216 * 256 + a div 65536 mod 256"
    using div_mult_mod_eq [of "a div 65536" 256] by (simp add: div_mult2_eq [symmetric])
  moreover have "a div 256 = a div 65536 * 256 + a div 256 mod 256"
    using div_mult_mod_eq [of "a div 256" 256] by (simp add: div_mult2_eq [symmetric])
  ultimately have "((a div 16777216 mod 256 * 256 + a div 65536 mod 256) * 256 + a div 256 mod 256)
      * 256 + a mod 256 = a"
    using div_mult_mod_eq [of a 256] by simp
  then show ?thesis
    unfolding str_ipv4_def by (subst ipv4_address_octets) (simp, simp, simp, simp, simp only:)
qed

lemma mask_host_id: "valid_net n \<Longrightarrow> mask_host 32 (prefixlen n) (net_addr n) = net_addr n"
  using div_mult_mod_eq [of "net_addr n" "net_size n"]
  by (simp add: mask_host_def valid_net_def net_size_def)

lemma ipv4_network_text:
  assumes "a < 2 ^ 32" "p \<le> 32"
  shows "ipv4_network (str_net (Net a p)) strict =
    (if mask_host 32 p a \<noteq> a \<and> strict then Inl HostBitsSet else Inr (Net (mask_host 32 p a) p))"
proof -
  have "47 \<notin> set (str_ipv4 a)" by (simp add: str_ipv4_def)
  moreover have "prefix_from_prefix_string 32 (dec p) = Some p"
    using assms length_dec [of p] by (simp add: prefix_from_prefix_string_def)
  ultimately show ?thesis
    using assms
    by (simp add: ipv4_network_def str_net_def split_on_append split_on_absent
        ipv4_address_str_ipv4 ipv4_make_netmask_def)
qed

lemma ipv4_network_str_net: "valid_net n \<Longrightarrow> ipv4_network (str_net n) strict = Inr n"
  using ipv4_network_text [of "net_addr n" "prefixlen n" strict] mask_host_id [of n] by (simp add: valid_net_def)

lemma parse_str_net: "valid_net n \<Longrightarrow> parse_ipv4_cidr (str_net n) = Inr n"
  by (simp add: parse_ipv4_cidr_def ip_network_def ipv4_network_str_net)

lemma str_net_inj: "valid_net m \<Longrightarrow> valid_net n \<Longrightarrow> str_net m = str_net n \<Longrightarrow> m = n"
  by (metis parse_str_net sum.inject(2))

lemma parse_octet_bound: "parse_octet s = Some n \<Longrightarrow> n < 256"
  by (auto simp: parse_octet_def split: if_splits)

lemma ipv4_address_bound: "ipv4_address s = Some a \<Longrightarrow> a < 2 ^ 32"
  by (auto simp: ipv4_address_def ipv4_int_from_string_def map_eq_Cons_conv
      dest!: parse_octet_bound split: if_splits list.splits option.splits)

lemma ipv4_make_netmask_bound: "ipv4_make_netmask s = Some p \<Longrightarrow> p \<le> 32"
  by (auto simp: ipv4_make_netmask_def prefix_from_prefix_string_def prefix_from_ip_string_def
      prefix_from_ip_int_def Let_def split: if_splits option.splits)

lemma valid_mask_host:
  assumes "a < 2 ^ 32" "p \<le> 32"
  shows "valid_net (Net (mask_host 32 p a) p)"
proof -
  have "mask_host 32 p a \<le> a" by (simp add: mask_host_def)
  then have "mask_host 32 p a < 2 ^ 32" using assms(1) by (rule le_less_trans)
  then show ?thesis using assms(2) by (simp add: valid_net_def net_size_def) (simp add: mask_host_def)
qed

lemma valid_mask_host_fixed:
  "a < 2 ^ 32 \<Longrightarrow> p \<le> 32 \<Longrightarrow> mask_host 32 p a = a \<Longrightarrow> valid_net (Net a p)"
  by (metis valid_mask_host)

lemma valid_host: "a < 2 ^ 32 \<Longrightarrow> valid_net (Net a 32)"
  by (simp add: valid_net_def net_size_def)

lemma ipv4_network_valid: "ipv4_network s strict = Inr n \<Longrightarrow> valid_net n"
  by (auto simp: ipv4_network_def
      intro!: valid_mask_host valid_mask_host_fixed valid_host
      dest!: ipv4_address_bound ipv4_make_netmask_bound
      split: list.splits option.splits if_splits)

lemma ip_network_valid: "ip_network s strict = Inr (V4 n) \<Longrightarrow> valid_net n"
  by (auto simp: ip_network_def dest: ipv4_network_valid
      split: sum.splits ipaddress_error.splits prod.splits)

lemma parse_ipv4_cidr_valid: "parse_ipv4_cidr s = Inr n \<Longrightarrow> valid_net n"
  by (auto simp: parse_ipv4_cidr_def dest: ip_network_valid split: sum.splits ip_net.splits if_splits)

lemma parse_host_bits:
  assumes "a < 2 ^ 32" "p \<le> 32" "mask_host 32 p a \<noteq> a"
  shows "parse_ipv4_cidr (str_net (Net a p)) = Inl (HostBits_canonical (Net (mask_host 32 p a) p))"
  using assms by (simp add: parse_ipv4_cidr_def ip_network_def ipv4_network_text has_host_bits_def is_IPv4Network_def)


lemma mask_host_minus: "mask_host 32 p a = a - a mod 2 ^ (32 - p)"
  by (simp add: mask_host_def minus_mod_eq_div_mult)


section \<open>Properties\<close>

text \<open>
  C30 The parser of networks is exact.  Every network without
  host bits is printed to a text that \<open>parse_ipv4_cidr\<close> reads back as the same
  network; the text of an address with host bits below its prefix is refused, and
  the error names the network the address lies in; and whatever text is accepted
  is read as a network without host bits.
\<close>

theorem cidr_print_parse:
  "(valid_net n \<longrightarrow> parse_ipv4_cidr (str_net n) = Inr n) \<and> (parse_ipv4_cidr s = Inr n \<longrightarrow> valid_net n) \<and>
   (a < 2 ^ 32 \<and> p \<le> 32 \<and> a mod 2 ^ (32 - p) \<noteq> 0 \<longrightarrow>
      parse_ipv4_cidr (str_net (Net a p)) = Inl (HostBits_canonical (Net (a - a mod 2 ^ (32 - p)) p)))"
proof (intro conjI impI)
  assume a: "a < 2 ^ 32 \<and> p \<le> 32 \<and> a mod 2 ^ (32 - p) \<noteq> 0"
  moreover have "a mod 2 ^ (32 - p) \<le> a" by simp
  ultimately have "mask_host 32 p a \<noteq> a" unfolding mask_host_minus by linarith
  then show "parse_ipv4_cidr (str_net (Net a p)) = Inl (HostBits_canonical (Net (a - a mod 2 ^ (32 - p)) p))"
    using a parse_host_bits [of a p] unfolding mask_host_minus by blast
qed (simp_all add: parse_str_net parse_ipv4_cidr_valid)

theorem cidr_print_parse_witness:
  "parse_ipv4_cidr (str_net (Net 167772160 8)) = Inr (Net 167772160 8) \<and> valid_net (Net 167772160 8) \<and>
   parse_ipv4_cidr (str_net (Net 167772161 8)) = Inl (HostBits_canonical (Net 167772160 8))"
proof -
  have v: "valid_net (Net 167772160 8)" by (simp add: valid_net_def net_size_def)
  then show ?thesis using cidr_print_parse [of "Net 167772160 8" "str_net (Net 167772160 8)" 167772161 8] by simp
qed

text \<open>
  The network operators mean what the code uses them for.  On networks
  without host bits, containment (\<open>>>=\<close> in the queries, \<open>subnet_of\<close> in Python) is
  inclusion of the sets of addresses, and overlap (\<open>&&\<close>) is having an address in
  common.
\<close>

theorem network_operators_are_set_operators:
  assumes "valid_net a" "valid_net b"
  shows "(net_contains a b \<longleftrightarrow> net_addrs b \<subseteq> net_addrs a) \<and>
    (is_subnet b a \<longleftrightarrow> net_addrs b \<subseteq> net_addrs a) \<and>
    (net_overlaps a b \<longleftrightarrow> net_addrs a \<inter> net_addrs b \<noteq> {})"
  using assms
  by (simp add: net_contains_iff_subset net_overlaps_iff_intersect is_subnet_def subnet_of_iff_subset)

theorem network_operators_are_set_operators_witness:
  "net_addrs (Net 167772161 32) \<subseteq> net_addrs (Net 167772160 8) \<and>
   net_addrs (Net 167772160 8) \<inter> net_addrs (Net 184549376 8) = {}"
proof -
  have v: "valid_net (Net 167772160 8)" "valid_net (Net 167772161 32)" "valid_net (Net 184549376 8)"
    by (simp_all add: valid_net_def net_size_def)
  have "net_contains (Net 167772160 8) (Net 167772161 32)" by (simp add: net_contains_def)
  moreover have "\<not> net_overlaps (Net 167772160 8) (Net 184549376 8)" by (simp add: net_overlaps_def)
  ultimately show ?thesis
    using network_operators_are_set_operators [OF v(1,2)] network_operators_are_set_operators [OF v(1,3)] by simp
qed

end
