(* ===== verification/Models.thy ===== *)
theory Models
  imports Cidr "HOL-Library.Product_Lexorder"
begin

text \<open>
  The data of the control plane, \<open>app/db/models.py\<close>: its enumerations as
  datatypes, its tables as lists of records, and the database as the record of
  the tables.  Identifiers are natural numbers, instants are microseconds
  since the epoch (\<open>DateTime\<close> has that resolution), \<open>Numeric\<close> columns are
  rationals, JSON documents are trees.  An object relation is not a column and
  has no field; a generated identifier or a timestamp that no code reads back
  is left out of its record.
\<close>

type_synonym uuid = nat
type_synonym timestamp = int

definition seconds :: "int \<Rightarrow> int" where
  "seconds n = n * 1000000"

section \<open>Enumerations\<close>

datatype Role = Role_admin | Role_tenant_user

datatype UserStatus = UserStatus_active | UserStatus_disabled

datatype TenantStatus = TenantStatus_active | TenantStatus_suspended

datatype CIDRStatus = CIDRStatus_active | CIDRStatus_revoked

datatype ApplyStatus =
  ApplyStatus_pending | ApplyStatus_queued | ApplyStatus_applying | ApplyStatus_active | ApplyStatus_failed

datatype JobStatus =
  JobStatus_queued | JobStatus_applying | JobStatus_succeeded | JobStatus_failed | JobStatus_superseded

datatype JobType = JobType_service_update | JobType_feed_sync | JobType_global_deny_apply

datatype ChangeTrigger =
    Trigger_service | Trigger_plan | Trigger_rule | Trigger_whitelist | Trigger_enable | Trigger_disable
  | Trigger_feed_manual | Trigger_feed_schedule | Trigger_feed_delete | Trigger_feed_dry_run
  | Trigger_global_deny_retry

datatype FeedFormat = FeedFormat_line_list

datatype FeedSyncStatus =
  FeedSync_queued | FeedSync_running | FeedSync_success | FeedSync_partial | FeedSync_failed

datatype ServiceMode = ServiceMode_allow_rule_only

datatype Protocol = Protocol_tcp | Protocol_udp | Protocol_icmp | Protocol_any

datatype BlacklistScope = BlacklistScope_service | BlacklistScope_global

datatype BlacklistSource = BlacklistSource_manual | BlacklistSource_feed

datatype OveragePolicy = OveragePolicy_billed | OveragePolicy_capped

datatype BillingStatus = BillingStatus_open | BillingStatus_final

datatype TelemetryScope = TelemetryScope_service | TelemetryScope_node

datatype XdpMode = XdpMode_native | XdpMode_generic | XdpMode_offline | XdpMode_unknown

datatype AlertScope = AlertScope_node | AlertScope_service

datatype AlertState = AlertState_pending | AlertState_firing | AlertState_resolved

datatype AlertSeverity = AlertSeverity_info | AlertSeverity_warning | AlertSeverity_critical

datatype ChannelKind = ChannelKind_email | ChannelKind_webhook

datatype NotificationState =
  Notification_pending | Notification_sent | Notification_retrying | Notification_failed

section \<open>JSON documents and errors\<close>

text \<open>
  A value that the code renders into text before it stores it (an identifier,
  a network, a decimal, an enumeration value) keeps its structure here.
\<close>

datatype json =
    JNull
  | JBool bool
  | JInt int
  | JDec rat
  | JStr string
  | JUuid uuid
  | JNet net
  | JList "json list"
  | JObj "(string \<times> json) list"

datatype exc =
    HTTPException int json
  | IntegrityError string
  | MultipleResultsFound
  | IllegalTransition ApplyStatus ApplyStatus
  | NonMonotonicVersion
  | NotFailedError
  | ValueError string
  | RuntimeError string
  | KeyError string
  | PortRangeError string
  | CidrError CidrValidationError
  | GlobalDenyLimitError
  | GlobalDenyRevisionMismatch
  | FeedFetchError string
  | FeedParseError string
  | ApplyError string
  | StructError
  | NoHandlerError
  | RedisError
  | TypeError
  | DpReaderError string
  | TimeoutError
  | OperationalError
  | StaleDataError
  | DataError

section \<open>Tables\<close>

record tenant =
  tn_id :: uuid
  tn_name :: string
  tn_status :: TenantStatus
  tn_created_at :: timestamp
  tn_updated_at :: timestamp

record user =
  us_id :: uuid
  us_tenant_id :: "uuid option"
  us_role :: Role
  us_username :: string
  us_password_hash :: string
  us_status :: UserStatus
  us_session_version :: int
  us_last_login_at :: "timestamp option"
  us_created_at :: timestamp
  us_updated_at :: timestamp

record allocated_cidr =
  al_id :: uuid
  al_tenant_id :: uuid
  al_cidr :: net
  al_status :: CIDRStatus
  al_allocated_by :: "uuid option"
  al_created_at :: timestamp
  al_updated_at :: timestamp

text \<open>Audit events are only ever appended; their generated identifier is not kept.\<close>

record audit_event =
  ev_actor_user_id :: "uuid option"
  ev_actor_username :: string
  ev_action :: string
  ev_target_type :: "string option"
  ev_target_id :: json
  ev_outcome :: string
  ev_ip_address :: "string option"
  ev_metadata :: "(string \<times> json) list"
  ev_created_at :: timestamp

record protected_service =
  sv_id :: uuid
  sv_dp_id :: int
  sv_tenant_id :: uuid
  sv_name :: string
  sv_cidr_or_ip :: net
  sv_mode :: ServiceMode
  sv_enabled :: bool
  sv_vip_pps :: "int option"
  sv_vip_bps :: "int option"
  sv_service_pps :: "int option"
  sv_service_bps :: "int option"
  sv_apply_status :: ApplyStatus
  sv_version :: int
  sv_active_version :: "int option"
  sv_created_by :: "uuid option"
  sv_created_at :: timestamp
  sv_updated_at :: timestamp

record service_plan =
  pl_service_id :: uuid
  pl_committed_clean_gbps :: rat
  pl_ceiling_clean_gbps :: rat
  pl_billing_metric :: string
  pl_overage_policy :: OveragePolicy

record billing_sample =
  bs_service_id :: uuid
  bs_dp_id :: "int option"
  bs_sample_ts :: timestamp
  bs_clean_bps :: int
  bs_window_seconds :: int
  bs_is_reset :: bool

record billing_usage =
  bu_service_id :: "uuid option"
  bu_tenant_id :: "uuid option"
  bu_service_name :: string
  bu_period_start :: timestamp
  bu_period_end :: timestamp
  bu_billing_metric :: string
  bu_committed_clean_gbps :: rat
  bu_p95_clean_gbps :: rat
  bu_billed_gbps :: rat
  bu_overage_gbps :: rat
  bu_overage_policy :: OveragePolicy
  bu_sample_count :: int
  bu_status :: BillingStatus
  bu_finalized_at :: "timestamp option"

record allow_rule =
  ru_id :: uuid
  ru_service_id :: uuid
  ru_priority :: int
  ru_protocol :: Protocol
  ru_src_port_lo :: "int option"
  ru_src_port_hi :: "int option"
  ru_dst_port_lo :: "int option"
  ru_dst_port_hi :: "int option"
  ru_enabled :: bool
  ru_created_at :: timestamp

record whitelist_entry =
  wl_id :: uuid
  wl_service_id :: uuid
  wl_source_cidr :: net
  wl_created_by :: "uuid option"
  wl_created_at :: timestamp

record blacklist_entry =
  bl_id :: uuid
  bl_scope :: BlacklistScope
  bl_source :: BlacklistSource
  bl_source_cidr :: net
  bl_created_by :: "uuid option"
  bl_created_at :: timestamp

record blocked_udp_port =
  bp_port :: int
  bp_note :: "string option"
  bp_created_by :: "uuid option"
  bp_created_at :: timestamp

record threat_feed_source =
  fs_id :: uuid
  fs_name :: string
  fs_url :: string
  fs_format :: FeedFormat
  fs_enabled :: bool
  fs_sync_interval_seconds :: int
  fs_credential_env_var :: "string option"
  fs_sync_sequence :: int
  fs_last_status :: "FeedSyncStatus option"
  fs_last_error :: "string option"
  fs_last_sync_at :: "timestamp option"
  fs_next_sync_at :: "timestamp option"
  fs_deleted_at :: "timestamp option"
  fs_created_at :: timestamp

record feed_sync_run =
  fr_id :: uuid
  fr_feed_source_id :: uuid
  fr_source_name :: string
  fr_sequence :: int
  fr_trigger :: ChangeTrigger
  fr_dry_run :: bool
  fr_status :: FeedSyncStatus
  fr_started_at :: "timestamp option"
  fr_finished_at :: "timestamp option"
  fr_duration_ms :: "int option"
  fr_error :: "string option"
  fr_fetched_lines :: int
  fr_valid :: int
  fr_duplicates :: int
  fr_added :: int
  fr_removed :: int
  fr_skipped_invalid :: int
  fr_overlap_count :: int
  fr_global_changed :: bool
  fr_desired_revision :: "int option"
  fr_node_map_version :: "int option"

record feed_blacklist_assertion =
  fa_feed_source_id :: uuid
  fa_blacklist_entry_id :: uuid
  fa_first_seen_at :: timestamp
  fa_last_seen_at :: timestamp

record feed_sync_overlap =
  fo_feed_sync_run_id :: uuid
  fo_feed_source_cidr :: net
  fo_whitelist_entry_id :: uuid
  fo_service_id :: uuid

record global_deny_state =
  gd_desired_revision :: int
  gd_active_revision :: int
  gd_desired_digest :: "string option"
  gd_active_digest :: "string option"
  gd_apply_status :: ApplyStatus
  gd_last_error :: "string option"
  gd_last_node_map_version :: "int option"

record node_control =
  nc_bypass_enabled :: bool
  nc_maintenance_enabled :: bool
  nc_bypass_reason :: "string option"
  nc_bypass_activated_at :: "timestamp option"
  nc_maintenance_activated_at :: "timestamp option"
  nc_bypass_actor_user_id :: "uuid option"
  nc_maintenance_actor_user_id :: "uuid option"

record agent_job =
  jb_id :: uuid
  jb_target_type :: string
  jb_target_id :: "uuid option"
  jb_feed_sync_run_id :: "uuid option"
  jb_version :: int
  jb_job_type :: JobType
  jb_trigger :: ChangeTrigger
  jb_status :: JobStatus
  jb_error :: "string option"
  jb_attempts :: int
  jb_dispatched_at :: "timestamp option"
  jb_created_at :: timestamp
  jb_started_at :: "timestamp option"
  jb_finished_at :: "timestamp option"

record telemetry_counter =
  tc_scope :: TelemetryScope
  tc_service_id :: "uuid option"
  tc_dp_id :: "int option"
  tc_window_start :: timestamp
  tc_window_seconds :: int
  tc_clean_pkts :: int
  tc_clean_bytes :: int
  tc_drop_pkts :: int
  tc_drop_bytes :: int
  tc_drop_by_reason :: "(string \<times> int) list"
  tc_pps :: int
  tc_bps :: int
  tc_top_dst_ports :: "(int \<times> int) list option"
  tc_top_src :: "(string \<times> int) list option"
  tc_is_baseline :: bool

record node_health_snapshot =
  nh_captured_at :: timestamp
  nh_window_seconds :: int
  nh_xdp_mode :: XdpMode
  nh_active_slot :: "int option"
  nh_map_version :: "int option"
  nh_map_error_count :: int
  nh_node_clean_bps :: int
  nh_node_capacity_bps :: int
  nh_bloom_stats :: "json option"

record alert_rule =
  ar_key :: string
  ar_enabled :: bool
  ar_severity_override :: "AlertSeverity option"
  ar_fire_threshold_override :: "rat option"
  ar_clear_threshold_override :: "rat option"
  ar_silence_in_maintenance :: bool

record notification_channel =
  ch_id :: uuid
  ch_name :: string
  ch_kind :: ChannelKind
  ch_tenant_id :: "uuid option"
  ch_enabled :: bool
  ch_min_severity :: AlertSeverity
  ch_config :: json
  ch_secret :: "string option"

record alert =
  at_id :: uuid
  at_rule_key :: string
  at_scope :: AlertScope
  at_scope_key :: json
  at_service_id :: "uuid option"
  at_tenant_id :: "uuid option"
  at_service_name :: "string option"
  at_severity :: AlertSeverity
  at_state :: AlertState
  at_metric_value :: "rat option"
  at_context :: json
  at_fire_streak :: int
  at_clear_streak :: int
  at_first_observed_at :: timestamp
  at_fired_at :: "timestamp option"
  at_resolved_at :: "timestamp option"
  at_last_notified_at :: "timestamp option"
  at_acknowledged_at :: "timestamp option"
  at_acknowledged_by :: "uuid option"

record alert_notification =
  an_id :: uuid
  an_alert_id :: uuid
  an_channel_id :: "uuid option"
  an_channel_name :: string
  an_kind :: ChannelKind
  an_trigger :: string
  an_state :: NotificationState
  an_attempts :: int
  an_last_error :: "string option"
  an_sent_at :: "timestamp option"
  an_created_at :: timestamp
  an_updated_at :: timestamp

section \<open>The database\<close>

text \<open>
  The tables, the two single-row tables as options, and the jobs whose dispatch
  the open session has registered for after its commit (\<open>session.info\<close> in
  \<open>app/db/session.py\<close>).
\<close>

record db =
  tenants :: "tenant list"
  users :: "user list"
  allocated_cidrs :: "allocated_cidr list"
  audit_events :: "audit_event list"
  protected_services :: "protected_service list"
  service_plans :: "service_plan list"
  allow_rules :: "allow_rule list"
  whitelist_entries :: "whitelist_entry list"
  blacklist_entries :: "blacklist_entry list"
  blocked_udp_ports :: "blocked_udp_port list"
  threat_feed_sources :: "threat_feed_source list"
  feed_sync_runs :: "feed_sync_run list"
  feed_blacklist_assertions :: "feed_blacklist_assertion list"
  feed_sync_overlaps :: "feed_sync_overlap list"
  global_deny_row :: "global_deny_state option"
  node_control_row :: "node_control option"
  agent_jobs :: "agent_job list"
  billing_samples :: "billing_sample list"
  billing_usages :: "billing_usage list"
  telemetry_counters :: "telemetry_counter list"
  node_health_snapshots :: "node_health_snapshot list"
  alert_rules :: "alert_rule list"
  notification_channels :: "notification_channel list"
  alerts :: "alert list"
  alert_notifications :: "alert_notification list"
  post_commit :: "uuid list"

type_synonym 'a dbprog = "(db, exc, 'a) prog"

definition empty_db :: db where
  "empty_db = \<lparr> tenants = [], users = [], allocated_cidrs = [], audit_events = [],
     protected_services = [], service_plans = [], allow_rules = [], whitelist_entries = [],
     blacklist_entries = [], blocked_udp_ports = [], threat_feed_sources = [], feed_sync_runs = [],
     feed_blacklist_assertions = [], feed_sync_overlaps = [], global_deny_row = None,
     node_control_row = None, agent_jobs = [], billing_samples = [], billing_usages = [],
     telemetry_counters = [], node_health_snapshots = [], alert_rules = [],
     notification_channels = [], alerts = [], alert_notifications = [], post_commit = [] \<rparr>"

text \<open>\<open>db.get(Model, id)\<close> for the tables with a generated key.\<close>

definition get_tenant :: "db \<Rightarrow> uuid \<Rightarrow> tenant option" where
  "get_tenant db i = row tn_id i (tenants db)"

definition get_user :: "db \<Rightarrow> uuid \<Rightarrow> user option" where
  "get_user db i = row us_id i (users db)"

definition get_allocation :: "db \<Rightarrow> uuid \<Rightarrow> allocated_cidr option" where
  "get_allocation db i = row al_id i (allocated_cidrs db)"

definition get_service_row :: "db \<Rightarrow> uuid \<Rightarrow> protected_service option" where
  "get_service_row db i = row sv_id i (protected_services db)"

definition get_plan :: "db \<Rightarrow> uuid \<Rightarrow> service_plan option" where
  "get_plan db i = row pl_service_id i (service_plans db)"

definition get_job :: "db \<Rightarrow> uuid \<Rightarrow> agent_job option" where
  "get_job db i = row jb_id i (agent_jobs db)"

definition get_run :: "db \<Rightarrow> uuid \<Rightarrow> feed_sync_run option" where
  "get_run db i = row fr_id i (feed_sync_runs db)"

definition get_source :: "db \<Rightarrow> uuid \<Rightarrow> threat_feed_source option" where
  "get_source db i = row fs_id i (threat_feed_sources db)"

text \<open>Assignments to the attributes of a loaded row, as the flush writes them.\<close>

definition set_service :: "uuid \<Rightarrow> (protected_service \<Rightarrow> protected_service) \<Rightarrow> db \<Rightarrow> db" where
  "set_service i f db = db\<lparr>protected_services := update_row sv_id i f (protected_services db)\<rparr>"

definition set_job :: "uuid \<Rightarrow> (agent_job \<Rightarrow> agent_job) \<Rightarrow> db \<Rightarrow> db" where
  "set_job i f db = db\<lparr>agent_jobs := update_row jb_id i f (agent_jobs db)\<rparr>"

definition set_run :: "uuid \<Rightarrow> (feed_sync_run \<Rightarrow> feed_sync_run) \<Rightarrow> db \<Rightarrow> db" where
  "set_run i f db = db\<lparr>feed_sync_runs := update_row fr_id i f (feed_sync_runs db)\<rparr>"

definition set_source :: "uuid \<Rightarrow> (threat_feed_source \<Rightarrow> threat_feed_source) \<Rightarrow> db \<Rightarrow> db" where
  "set_source i f db = db\<lparr>threat_feed_sources := update_row fs_id i f (threat_feed_sources db)\<rparr>"

text \<open>\<open>Result.scalars().one_or_none()\<close>.\<close>

definition one_or_none :: "'r list \<Rightarrow> ('s, exc, 'r option) prog" where
  "one_or_none rs =
     (case rs of [] \<Rightarrow> ret None | [r] \<Rightarrow> ret (Some r) | _ \<Rightarrow> raise MultipleResultsFound)"

text \<open>Case-insensitive text: \<open>CITEXT\<close> columns and \<open>func.lower\<close>.\<close>

definition lower_char :: "char \<Rightarrow> char" where
  "lower_char c = (if 65 \<le> (of_char c :: nat) \<and> (of_char c :: nat) \<le> 90
     then char_of ((of_char c :: nat) + 32) else c)"

definition lower :: "string \<Rightarrow> string" where
  "lower s = map lower_char s"

definition citext_eq :: "string \<Rightarrow> string \<Rightarrow> bool" where
  "citext_eq a b \<longleftrightarrow> lower a = lower b"

text \<open>
  \<open>session_scope\<close> and \<open>get_db\<close>: commit on success, then run the registered
  callbacks; on an error roll back and drop them.  A callback never raises
  (its errors are logged), so it is a function on the committed state.
\<close>

definition session_scope :: "(uuid \<Rightarrow> db \<Rightarrow> db) \<Rightarrow> 'a dbprog \<Rightarrow> 'a dbprog" where
  "session_scope callback m db =
     (case m (db\<lparr>post_commit := []\<rparr>) of
        (Inl e, _) \<Rightarrow> (Inl e, db\<lparr>post_commit := []\<rparr>)
      | (Inr x, db') \<Rightarrow> (Inr x, fold callback (post_commit db') (db'\<lparr>post_commit := []\<rparr>)))"

lemma wp_session_scope:
  "wp (session_scope callback m) Q E db =
     wp m (\<lambda>x d. Q x (fold callback (post_commit d) (d\<lparr>post_commit := []\<rparr>)))
       (\<lambda>e _. E e (db\<lparr>post_commit := []\<rparr>)) (db\<lparr>post_commit := []\<rparr>)"
  by (simp add: wp_def session_scope_def split: prod.splits sum.splits)

section \<open>Lemmas on rows\<close>

lemma get_service_set_service [table_simps]:
  "(\<And>s. sv_id (f s) = sv_id s) \<Longrightarrow> get_service_row (set_service i f db) k
     = (if k = i then map_option f (get_service_row db k) else get_service_row db k)"
  by (simp add: get_service_row_def set_service_def table_simps)

lemma get_job_set_job [table_simps]:
  "(\<And>j. jb_id (f j) = jb_id j) \<Longrightarrow> get_job (set_job i f db) k
     = (if k = i then map_option f (get_job db k) else get_job db k)"
  by (simp add: get_job_def set_job_def table_simps)

lemma get_service_set_job [simp]: "get_service_row (set_job i f db) = get_service_row db"
  by (rule ext) (simp add: get_service_row_def set_job_def)

lemma get_job_set_service [simp]: "get_job (set_service i f db) = get_job db"
  by (rule ext) (simp add: get_job_def set_service_def)

lemma citext_eq_refl [simp]: "citext_eq a a"
  by (simp add: citext_eq_def)

lemma citext_eq_sym: "citext_eq a b = citext_eq b a"
  by (auto simp: citext_eq_def)

lemma session_scope_error:
  "session_scope cb m db = (Inl e, db') \<Longrightarrow> db' = db\<lparr>post_commit := []\<rparr>"
  by (auto simp: session_scope_def split: sum.splits prod.splits)

lemma keeps_session_scope_commits:
  assumes "commits I m" "\<And>i db. I db \<Longrightarrow> I (cb i db)" "\<And>db xs. I (db\<lparr>post_commit := xs\<rparr>) = I db"
  shows "keeps I (session_scope cb m)"
proof -
  have "I (fold cb is db)" if "I db" for "is" db
    using that assms(2) by (induction "is" arbitrary: db) auto
  moreover have "I db'" if "m (db\<lparr>post_commit := []\<rparr>) = (Inr x, db')" "I db" for x db db'
    using commitsD [OF assms(1) _ that(1)] assms(3) that(2) by simp
  ultimately show ?thesis
    using assms(3)
    by (auto simp: keeps_iff session_scope_def split: sum.splits prod.splits)
qed

lemma keeps_session_scope [inv_intros]:
  assumes "keeps I m" "\<And>i db. I db \<Longrightarrow> I (cb i db)" "\<And>db xs. I (db\<lparr>post_commit := xs\<rparr>) = I db"
  shows "keeps I (session_scope cb m)"
proof -
  have "I (fold cb is db)" if "I db" for "is" db
    using that assms(2) by (induction "is" arbitrary: db) auto
  moreover have "I (snd (m (db\<lparr>post_commit := []\<rparr>)))" if "I db" for db
    using assms(1,3) that by (simp add: keeps_iff)
  ultimately show ?thesis
    using assms(3) by (auto simp: keeps_iff session_scope_def split: sum.splits prod.splits)
      (metis snd_conv)+
qed

end
