(* ===== verification/AuditLog.thy ===== *)
theory AuditLog
  imports Models
begin

text \<open>
  The audit log, \<open>app/services/audit.py\<close>: an event is appended with metadata
  from which every entry under a secret-looking key has been removed, at any
  depth of nesting.  Metadata are JSON values; the failures of the flush that
  inserts the row are not modelled.
\<close>

section \<open>Definitions\<close>

definition secret_key_parts :: "string list" where
  "secret_key_parts = [''password'', ''token'', ''secret'', ''credential'']"

text \<open>\<open>part in lowered\<close>.\<close>

fun contains_text :: "string \<Rightarrow> string \<Rightarrow> bool" where
  "contains_text part [] = (part = [])"
| "contains_text part (c # cs) = (take (length part) (c # cs) = part \<or> contains_text part cs)"

definition is_secret_key :: "string \<Rightarrow> bool" where
  "is_secret_key key = list_ex (\<lambda>part. contains_text part (lower key)) secret_key_parts"

fun scrub_value :: "json \<Rightarrow> json"
and scrub_values :: "json list \<Rightarrow> json list"
and scrub_items :: "(string \<times> json) list \<Rightarrow> (string \<times> json) list" where
  "scrub_value (JObj items) = JObj (scrub_items items)"
| "scrub_value (JList vs) = JList (scrub_values vs)"
| "scrub_value v = v"
| "scrub_values [] = []"
| "scrub_values (v # vs) = scrub_value v # scrub_values vs"
| "scrub_items [] = []"
| "scrub_items ((k, v) # items) =
     (if is_secret_key k then scrub_items items else (k, scrub_value v) # scrub_items items)"

definition scrub_metadata :: "(string \<times> json) list option \<Rightarrow> (string \<times> json) list" where
  "scrub_metadata metadata = (case metadata of None \<Rightarrow> [] | Some items \<Rightarrow> scrub_items items)"

definition record_event ::
  "timestamp \<Rightarrow> user option \<Rightarrow> string \<Rightarrow> string option \<Rightarrow> json \<Rightarrow> string \<Rightarrow> string option
   \<Rightarrow> (string \<times> json) list option \<Rightarrow> unit dbprog" where
  "record_event now actor action target_type target_id outcome ip metadata =
     modify (\<lambda>db. db\<lparr>audit_events := audit_events db @
       [\<lparr> ev_actor_user_id = map_option us_id actor,
          ev_actor_username = (case actor of None \<Rightarrow> ''system'' | Some u \<Rightarrow> us_username u),
          ev_action = action, ev_target_type = target_type, ev_target_id = target_id,
          ev_outcome = outcome, ev_ip_address = ip, ev_metadata = scrub_metadata metadata,
          ev_created_at = now \<rparr>]\<rparr>)"

text \<open>The keys that occur anywhere in a document.\<close>

fun json_keys :: "json \<Rightarrow> string set"
and json_keys_list :: "json list \<Rightarrow> string set"
and json_keys_items :: "(string \<times> json) list \<Rightarrow> string set" where
  "json_keys (JObj items) = json_keys_items items"
| "json_keys (JList vs) = json_keys_list vs"
| "json_keys _ = {}"
| "json_keys_list [] = {}"
| "json_keys_list (v # vs) = json_keys v \<union> json_keys_list vs"
| "json_keys_items [] = {}"
| "json_keys_items ((k, v) # items) = insert k (json_keys v \<union> json_keys_items items)"

section \<open>Lemmas\<close>

lemma contains_text_iff: "contains_text part s \<longleftrightarrow> (\<exists>pre suf. s = pre @ part @ suf)"
proof (induction s)
  case (Cons c cs)
  note IH = Cons.IH
  show ?case
  proof
    assume "contains_text part (c # cs)"
    then consider "take (length part) (c # cs) = part" | "contains_text part cs" by auto
    then show "\<exists>pre suf. c # cs = pre @ part @ suf"
    proof cases
      case 1
      then have "[] @ part @ drop (length part) (c # cs) = c # cs"
        using append_take_drop_id [of "length part" "c # cs"] by simp
      then show ?thesis by metis
    next
      case 2
      with IH obtain pre suf where "cs = pre @ part @ suf" by blast
      then have "c # cs = (c # pre) @ part @ suf" by simp
      then show ?thesis by blast
    qed
  next
    assume "\<exists>pre suf. c # cs = pre @ part @ suf"
    then obtain pre suf where e: "c # cs = pre @ part @ suf" by blast
    show "contains_text part (c # cs)"
    proof (cases pre)
      case Nil
      then have "take (length part) (c # cs) = part" using e by simp
      then show ?thesis by simp
    next
      case (Cons d pre')
      then have "cs = pre' @ part @ suf" using e by simp
      then have "contains_text part cs" using IH by blast
      then show ?thesis by simp
    qed
  qed
qed auto

lemma scrub_keys:
  "\<forall>k\<in>json_keys (scrub_value v). \<not> is_secret_key k"
  and scrub_keys_list: "\<forall>k\<in>json_keys_list (scrub_values vs). \<not> is_secret_key k"
  and scrub_keys_items: "\<forall>k\<in>json_keys_items (scrub_items items). \<not> is_secret_key k"
proof (induction v and vs and items rule: scrub_value_scrub_values_scrub_items.induct)
  case (7 k v items)
  then show ?case
    by (cases "is_secret_key k")
      (simp_all only: scrub_items.simps json_keys_items.simps if_True if_False ball_simps ball_Un,
       blast+)
qed (simp_all add: ball_Un)

lemma scrub_idem:
  "(\<forall>k\<in>json_keys v. \<not> is_secret_key k) \<Longrightarrow> scrub_value v = v"
  and scrub_idem_list: "(\<forall>k\<in>json_keys_list vs. \<not> is_secret_key k) \<Longrightarrow> scrub_values vs = vs"
  and scrub_idem_items: "(\<forall>k\<in>json_keys_items items. \<not> is_secret_key k) \<Longrightarrow> scrub_items items = items"
proof (induction v and vs and items rule: scrub_value_scrub_values_scrub_items.induct)
  case (7 k v items)
  then show ?case by (cases "is_secret_key k") (simp_all add: ball_Un)
qed (simp_all add: ball_Un)

lemma wp_record_event [wp_simps]:
  "wp (record_event now actor action tt ti outcome ip md) Q E db
     = Q () (snd (record_event now actor action tt ti outcome ip md db))"
  by (simp add: record_event_def wp_simps run_simps)

lemma run_record_event:
  "record_event now actor action tt ti outcome ip md db
     = (Inr (), snd (record_event now actor action tt ti outcome ip md db))"
  by (simp add: record_event_def run_simps)

text \<open>Recording an event touches no other table.\<close>

lemma record_event_frame [simp]:
  fixes now actor action tt ti outcome ip md db
  defines "db' \<equiv> snd (record_event now actor action tt ti outcome ip md db)"
  shows "protected_services db' = protected_services db" "agent_jobs db' = agent_jobs db"
    "tenants db' = tenants db" "users db' = users db" "allocated_cidrs db' = allocated_cidrs db"
    "service_plans db' = service_plans db" "allow_rules db' = allow_rules db"
    "whitelist_entries db' = whitelist_entries db" "blacklist_entries db' = blacklist_entries db"
    "threat_feed_sources db' = threat_feed_sources db" "feed_sync_runs db' = feed_sync_runs db"
    "feed_blacklist_assertions db' = feed_blacklist_assertions db"
    "feed_sync_overlaps db' = feed_sync_overlaps db" "global_deny_row db' = global_deny_row db"
    "node_control_row db' = node_control_row db" "blocked_udp_ports db' = blocked_udp_ports db"
    "post_commit db' = post_commit db" "billing_samples db' = billing_samples db"
    "billing_usages db' = billing_usages db" "alerts db' = alerts db"
    "notification_channels db' = notification_channels db"
  by (simp_all add: db'_def record_event_def run_simps)

lemma keeps_record_event [inv_intros]:
  assumes "\<And>db es. I (db\<lparr>audit_events := es\<rparr>) = I db"
  shows "keeps I (record_event now actor action tt ti outcome ip md)"
  unfolding record_event_def by (rule keeps_modify) (simp add: assms)

section \<open>Properties\<close>

text \<open>
  C31 No secret reaches the audit log.  Recording an event always succeeds,
  appends exactly one event and changes nothing else, and no key of the stored
  metadata, at any depth of nested objects and lists, contains \<open>password\<close>,
  \<open>token\<close>, \<open>secret\<close> or \<open>credential\<close> in any case of letters.
\<close>

theorem audit_metadata_has_no_secret_keys:
  "\<exists>e. record_event now actor action tt ti outcome ip md db =
      (Inr (), db\<lparr>audit_events := audit_events db @ [e]\<rparr>) \<and>
    (\<forall>k\<in>json_keys_items (ev_metadata e). \<forall>part\<in>set secret_key_parts.
       \<not> (\<exists>pre suf. lower k = pre @ part @ suf))"
proof -
  have "\<not> is_secret_key k" if "k \<in> json_keys_items (scrub_metadata md)" for k
    using that scrub_keys_items by (auto simp: scrub_metadata_def split: option.splits)
  then have "\<forall>k\<in>json_keys_items (scrub_metadata md). \<forall>part\<in>set secret_key_parts.
       \<not> (\<exists>pre suf. lower k = pre @ part @ suf)"
    by (simp add: is_secret_key_def list_ex_iff contains_text_iff)
  then show ?thesis by (auto simp: record_event_def run_simps)
qed

theorem audit_metadata_has_no_secret_keys_witness:
  "\<exists>e. record_event 0 None ''auth.login'' None JNull ''success'' None
       (Some [(''who'', JObj [(''apiToken'', JStr ''t''), (''name'', JStr ''n'')])]) empty_db =
      (Inr (), empty_db\<lparr>audit_events := [e]\<rparr>) \<and>
    (\<forall>k\<in>json_keys_items (ev_metadata e). \<forall>part\<in>set secret_key_parts. \<not> (\<exists>pre suf. lower k = pre @ part @ suf))"
  using audit_metadata_has_no_secret_keys [of 0 None "''auth.login''" None JNull "''success''" None
      "Some [(''who'', JObj [(''apiToken'', JStr ''t''), (''name'', JStr ''n'')])]" empty_db]
  by (simp add: empty_db_def)

end
