(* ===== verification/Deployment.thy ===== *)
theory Deployment
  imports Models
begin

text \<open>
  A small deployment: one tenant with the allocation 10.0.0.0/8, an
  administrator and a user of the tenant, one service on 10.0.0.1/32 whose
  first version is queued.  The closed instances of the properties in the other
  theories are taken at it.
\<close>

definition sample_tenant :: tenant where
  "sample_tenant = \<lparr> tn_id = 2, tn_name = ''acme'', tn_status = TenantStatus_active,
     tn_created_at = 0, tn_updated_at = 0 \<rparr>"

definition sample_admin :: user where
  "sample_admin = \<lparr> us_id = 10, us_tenant_id = None, us_role = Role_admin, us_username = ''root'',
     us_password_hash = ''x'', us_status = UserStatus_active, us_session_version = 0,
     us_last_login_at = None, us_created_at = 0, us_updated_at = 0 \<rparr>"

definition sample_user :: user where
  "sample_user = \<lparr> us_id = 11, us_tenant_id = Some 2, us_role = Role_tenant_user,
     us_username = ''alice'', us_password_hash = ''y'', us_status = UserStatus_active,
     us_session_version = 0, us_last_login_at = None, us_created_at = 0, us_updated_at = 0 \<rparr>"

definition sample_allocation :: allocated_cidr where
  "sample_allocation = \<lparr> al_id = 20, al_tenant_id = 2, al_cidr = Net 167772160 8,
     al_status = CIDRStatus_active, al_allocated_by = Some 10, al_created_at = 0, al_updated_at = 0 \<rparr>"

definition sample_service :: protected_service where
  "sample_service = \<lparr> sv_id = 30, sv_dp_id = 1, sv_tenant_id = 2, sv_name = ''web'',
     sv_cidr_or_ip = Net 167772161 32, sv_mode = ServiceMode_allow_rule_only, sv_enabled = False,
     sv_vip_pps = None, sv_vip_bps = None, sv_service_pps = None, sv_service_bps = None,
     sv_apply_status = ApplyStatus_queued, sv_version = 1, sv_active_version = None,
     sv_created_by = Some 11, sv_created_at = 0, sv_updated_at = 0 \<rparr>"

definition sample_plan :: service_plan where
  "sample_plan = \<lparr> pl_service_id = 30, pl_committed_clean_gbps = 1, pl_ceiling_clean_gbps = 2,
     pl_billing_metric = ''p95_clean'', pl_overage_policy = OveragePolicy_billed \<rparr>"

definition sample_job :: agent_job where
  "sample_job = \<lparr> jb_id = 40, jb_target_type = ''service'', jb_target_id = Some 30,
     jb_feed_sync_run_id = None, jb_version = 1, jb_job_type = JobType_service_update,
     jb_trigger = Trigger_service, jb_status = JobStatus_queued, jb_error = None, jb_attempts = 0,
     jb_dispatched_at = None, jb_created_at = 0, jb_started_at = None, jb_finished_at = None \<rparr>"

definition sample_db :: db where
  "sample_db = empty_db\<lparr>tenants := [sample_tenant], users := [sample_admin, sample_user],
     allocated_cidrs := [sample_allocation], protected_services := [sample_service],
     service_plans := [sample_plan], agent_jobs := [sample_job]\<rparr>"

text \<open>The same deployment after its first apply failed, and while it is under way.\<close>

definition sample_at :: "ApplyStatus \<Rightarrow> JobStatus \<Rightarrow> db" where
  "sample_at service_status job_status =
     sample_db\<lparr>protected_services := [sample_service\<lparr>sv_apply_status := service_status\<rparr>],
       agent_jobs := [sample_job\<lparr>jb_status := job_status\<rparr>]\<rparr>"

lemmas sample_defs = sample_at_def sample_db_def empty_db_def sample_tenant_def sample_admin_def sample_user_def
  sample_allocation_def sample_service_def sample_plan_def sample_job_def

lemma sample_lookups [simp]:
  "get_service_row sample_db 30 = Some sample_service" "get_job sample_db 40 = Some sample_job"
  "get_tenant sample_db 2 = Some sample_tenant" "get_plan sample_db 30 = Some sample_plan"
  "get_allocation sample_db 20 = Some sample_allocation" "get_user sample_db 10 = Some sample_admin"
  by (simp_all add: get_service_row_def get_job_def get_tenant_def get_plan_def get_allocation_def
      get_user_def sample_defs table_simps)

end
