(* ===== verification/ErrorScrub.thy ===== *)
theory ErrorScrub
  imports Models
begin

text \<open>
  The redaction of error messages, \<open>_scrub_error\<close> in \<open>app/worker/feed_jobs.py\<close>:
  three substitutions with regular expressions, then a cut at 2000
  characters.  The expressions repeat only single character classes, so the
  matcher is structurally recursive: \<open>ends\<close> lists the ways a pattern can match
  a prefix, in the order in which the backtracking engine of \<open>re\<close> tries them.
\<close>

section \<open>Character classes\<close>

definition code :: "char \<Rightarrow> nat" where
  "code c = of_char c"

definition re_space :: "char \<Rightarrow> bool" where
  "re_space c \<longleftrightarrow> 9 \<le> code c \<and> code c \<le> 13 \<or> 28 \<le> code c \<and> code c \<le> 32 \<or> code c = 133 \<or> code c = 160"

definition re_word :: "char \<Rightarrow> bool" where
  "re_word c \<longleftrightarrow> 48 \<le> code c \<and> code c \<le> 57 \<or> 65 \<le> code c \<and> code c \<le> 90 \<or> code c = 95 \<or>
     97 \<le> code c \<and> code c \<le> 122 \<or> code c \<in> {170, 178, 179, 181, 185, 186, 188, 189, 190} \<or>
     192 \<le> code c \<and> code c \<noteq> 215 \<and> code c \<noteq> 247"

section \<open>Patterns\<close>

datatype regex =
    Eps
  | Cls "char \<Rightarrow> bool"
  | StarCls "char \<Rightarrow> bool"
  | Bound
  | Seq regex regex
  | Alt regex regex

text \<open>Literal text under \<open>(?i)\<close>, and \<open>[class]+\<close>.\<close>

fun lit :: "string \<Rightarrow> regex" where
  "lit [] = Eps"
| "lit (c # cs) = Seq (Cls (\<lambda>d. lower_char d = lower_char c)) (lit cs)"

definition plus_cls :: "(char \<Rightarrow> bool) \<Rightarrow> regex" where
  "plus_cls p = Seq (Cls p) (StarCls p)"

definition word_at :: "char option \<Rightarrow> bool" where
  "word_at c = (case c of None \<Rightarrow> False | Some d \<Rightarrow> re_word d)"

definition next_char :: "string \<Rightarrow> char option" where
  "next_char s = (case s of [] \<Rightarrow> None | c # _ \<Rightarrow> Some c)"

text \<open>The character before the rest, once \<open>u\<close> has been consumed.\<close>

definition prev_after :: "char option \<Rightarrow> string \<Rightarrow> char option" where
  "prev_after prev u = (if u = [] then prev else Some (last u))"

fun ends :: "regex \<Rightarrow> char option \<Rightarrow> string \<Rightarrow> (string \<times> string) list" where
  "ends Eps prev s = [([], s)]"
| "ends (Cls p) prev s = (case s of [] \<Rightarrow> [] | c # cs \<Rightarrow> if p c then [([c], cs)] else [])"
| "ends (StarCls p) prev s =
     (let n = length (takeWhile p s) in map (\<lambda>i. (take (n - i) s, drop (n - i) s)) [0 ..< n + 1])"
| "ends Bound prev s = (if word_at prev \<noteq> word_at (next_char s) then [([], s)] else [])"
| "ends (Seq a b) prev s =
     concat (map (\<lambda>(u, rest). map (\<lambda>(v, rest'). (u @ v, rest')) (ends b (prev_after prev u) rest))
       (ends a prev s))"
| "ends (Alt a b) prev s = ends a prev s @ ends b prev s"

text \<open>
  \<open>sub\<close> with a pattern made of a kept group and a redacted tail: at each
  position the first match is replaced by the text of the group and a fixed
  text, and the scan goes on after the match.
\<close>

definition match_group :: "regex \<Rightarrow> regex \<Rightarrow> char option \<Rightarrow> string \<Rightarrow> (string \<times> string \<times> string) list" where
  "match_group g t prev s =
     concat (map (\<lambda>(u, rest). map (\<lambda>(v, rest'). (u, v, rest')) (ends t (prev_after prev u) rest))
       (ends g prev s))"

fun sub_fuel :: "nat \<Rightarrow> regex \<Rightarrow> regex \<Rightarrow> string \<Rightarrow> char option \<Rightarrow> string \<Rightarrow> string" where
  "sub_fuel 0 g t r prev s = s"
| "sub_fuel (Suc n) g t r prev s =
     (case match_group g t prev s of
        (u, v, rest) # _ \<Rightarrow> u @ r @ sub_fuel n g t r (prev_after prev (u @ v)) rest
      | [] \<Rightarrow> (case s of [] \<Rightarrow> [] | c # cs \<Rightarrow> c # sub_fuel n g t r (Some c) cs))"

text \<open>Every match consumes a character, so a step per character and one more suffice.\<close>

definition re_sub :: "regex \<Rightarrow> regex \<Rightarrow> string \<Rightarrow> string \<Rightarrow> string" where
  "re_sub g t r s = sub_fuel (length s + 1) g t r None s"

section \<open>The patterns of feed\_jobs.py\<close>

definition url_userinfo_group :: regex where
  "url_userinfo_group = Seq (lit ''http'') (Seq (Alt (lit ''s'') Eps) (lit ''://''))"

definition url_userinfo_tail :: regex where
  "url_userinfo_tail =
     Seq (plus_cls (\<lambda>c. c \<noteq> CHR ''/'' \<and> \<not> re_space c \<and> c \<noteq> CHR '':'' \<and> c \<noteq> CHR ''@''))
       (Seq (lit '':'')
         (Seq (plus_cls (\<lambda>c. c \<noteq> CHR ''@'' \<and> \<not> re_space c \<and> c \<noteq> CHR ''/'')) (lit ''@'')))"

definition value_cls :: "char \<Rightarrow> bool" where
  "value_cls c \<longleftrightarrow> \<not> re_space c \<and> c \<noteq> CHR '','' \<and> c \<noteq> CHR '';''"

definition bearer_tail :: regex where
  "bearer_tail = Seq Bound (Seq (lit ''bearer'') (Seq (plus_cls re_space) (plus_cls value_cls)))"

definition word_or_dash :: "char \<Rightarrow> bool" where
  "word_or_dash c \<longleftrightarrow> re_word c \<or> c = CHR ''-''"

definition secret_group :: regex where
  "secret_group =
     Seq Bound (Seq (StarCls word_or_dash)
       (Seq (Alt (lit ''password'') (Alt (lit ''token'') (Alt (lit ''secret'')
              (Alt (lit ''credential'') (lit ''authorization'')))))
         (Seq (StarCls word_or_dash) (Seq Bound (Seq (StarCls re_space)
           (Seq (Alt (lit ''='') (lit '':'')) (StarCls re_space)))))))"

definition secret_tail :: regex where
  "secret_tail = plus_cls value_cls"

definition scrub_error :: "string \<Rightarrow> string" where
  "scrub_error error =
     (let s1 = re_sub url_userinfo_group url_userinfo_tail ''[redacted]@'' error;
          s2 = re_sub Eps bearer_tail ''Bearer [redacted]'' s1;
          s3 = re_sub secret_group secret_tail ''[redacted]'' s2
      in take 2000 s3)"

section \<open>Lemmas\<close>

lemma ends_sound: "(u, rest) \<in> set (ends r prev s) \<Longrightarrow> s = u @ rest"
proof (induction r arbitrary: prev s u rest)
  case (Seq a b)
  then show ?case by fastforce
next
  case (Alt a b)
  then show ?case by auto
qed (auto simp: Let_def split: list.splits if_splits)

lemma match_group_sound:
  assumes "(u, v, rest) \<in> set (match_group g t prev s)"
  shows "s = u @ v @ rest"
proof -
  from assms obtain rest0 where "(u, rest0) \<in> set (ends g prev s)"
    "(v, rest) \<in> set (ends t (prev_after prev u) rest0)"
    by (auto simp: match_group_def)
  then show ?thesis using ends_sound by fastforce
qed

text \<open>Text in which the pattern matches nowhere is left alone.\<close>

lemma re_sub_no_match:
  assumes "\<And>pre suf prev. s = pre @ suf \<Longrightarrow> match_group g t prev suf = []"
  shows "re_sub g t r s = s"
proof -
  have "sub_fuel n g t r prev suf = suf"
    if "length suf < n" "\<exists>pre. s = pre @ suf" for n prev suf
    using that
  proof (induction n arbitrary: prev suf)
    case (Suc n)
    then obtain pre where pre: "s = pre @ suf" by blast
    then have none: "match_group g t prev suf = []" using assms by blast
    show ?case
    proof (cases suf)
      case (Cons c cs)
      then have "s = (pre @ [c]) @ cs" using pre by simp
      then have "sub_fuel n g t r (Some c) cs = cs" using Suc Cons by (metis Suc_less_eq length_Cons)
      then show ?thesis using none Cons by simp
    qed (use none in simp)
  qed simp
  from this [of s "length s + 1" None] show ?thesis unfolding re_sub_def by simp
qed

lemma length_scrub_error: "length (scrub_error e) \<le> 2000"
  by (simp add: scrub_error_def Let_def)

end
