(* ===== verification/ApplyJobs.thy ===== *)
theory ApplyJobs
  imports AuditLog Deployment
begin

text \<open>
  The apply pipeline of a protected service: the legal transitions
  (\<open>app/core/applystate.py\<close>) and the job ledger behind them
  (\<open>app/services/apply.py\<close>).  A configuration change raises the version of a
  service and enqueues one job per version; the worker claims the job, applies
  it and marks the service active or failed.  \<open>apply_inv\<close> couples the status
  of a service with the status of the job of its current version.
\<close>

section \<open>app/core/applystate.py\<close>

definition LEGAL_APPLY :: "ApplyStatus \<Rightarrow> ApplyStatus list" where
  "LEGAL_APPLY current =
     (case current of
        ApplyStatus_pending \<Rightarrow> [ApplyStatus_pending, ApplyStatus_queued]
      | ApplyStatus_queued \<Rightarrow> [ApplyStatus_pending, ApplyStatus_applying]
      | ApplyStatus_applying \<Rightarrow> [ApplyStatus_pending, ApplyStatus_active, ApplyStatus_failed]
      | ApplyStatus_active \<Rightarrow> [ApplyStatus_pending]
      | ApplyStatus_failed \<Rightarrow> [ApplyStatus_pending, ApplyStatus_queued])"

definition assert_transition :: "ApplyStatus \<Rightarrow> ApplyStatus \<Rightarrow> ('s, exc, unit) prog" where
  "assert_transition current target =
     ensure (target \<in> set (LEGAL_APPLY current)) (IllegalTransition current target)"

definition assert_active_version_advances :: "int option \<Rightarrow> int \<Rightarrow> ('s, exc, unit) prog" where
  "assert_active_version_advances active_version new =
     (let previous = (case active_version of Some v \<Rightarrow> v | None \<Rightarrow> -1)
      in ensure (\<not> new \<le> previous) NonMonotonicVersion)"

definition is_terminal :: "JobStatus \<Rightarrow> bool" where
  "is_terminal s \<longleftrightarrow> s \<in> {JobStatus_succeeded, JobStatus_failed, JobStatus_superseded}"

section \<open>app/services/apply.py\<close>

definition APPLY_ERROR_LIMIT :: nat where
  "APPLY_ERROR_LIMIT = 2000"

definition SERVICE_TARGET_TYPE :: string where
  "SERVICE_TARGET_TYPE = ''service''"

definition load_job_for_update :: "uuid \<Rightarrow> agent_job dbprog" where
  "load_job_for_update job_id =
     fetch (\<lambda>db. get_job db job_id) (HTTPException 404 (JStr ''Apply job not found''))"

text \<open>A job row of another type has no target; a comparison with \<open>NULL\<close> finds no service.\<close>

definition load_service_for_update :: "uuid option \<Rightarrow> protected_service dbprog" where
  "load_service_for_update service_id =
     fetch (\<lambda>db. Option.bind service_id (get_service_row db))
       (HTTPException 404 (JStr ''Service not found''))"

definition superseded :: "protected_service \<Rightarrow> agent_job \<Rightarrow> bool" where
  "superseded service job \<longleftrightarrow> sv_version service \<noteq> jb_version job"

definition mark_superseded :: "timestamp \<Rightarrow> uuid \<Rightarrow> unit dbprog" where
  "mark_superseded now job_id =
     modify (set_job job_id (\<lambda>j. j\<lparr>jb_status := JobStatus_superseded, jb_finished_at := Some now\<rparr>))"

definition register_dispatch :: "uuid \<Rightarrow> unit dbprog" where
  "register_dispatch job_id =
     modify (\<lambda>db. if job_id \<in> set (post_commit db) then db
                  else db\<lparr>post_commit := post_commit db @ [job_id]\<rparr>)"

definition jobs_for_target_version :: "db \<Rightarrow> uuid \<Rightarrow> int \<Rightarrow> agent_job list" where
  "jobs_for_target_version db service_id version =
     filter (\<lambda>j. jb_target_type j = SERVICE_TARGET_TYPE \<and> jb_target_id j = Some service_id \<and>
                 jb_version j = version) (agent_jobs db)"

definition job_for_target_version :: "uuid \<Rightarrow> int \<Rightarrow> agent_job option dbprog" where
  "job_for_target_version service_id version =
     andThen (gets (\<lambda>db. jobs_for_target_version db service_id version)) one_or_none"

definition current_version_job_for_update :: "protected_service \<Rightarrow> agent_job option dbprog" where
  "current_version_job_for_update service =
     andThen (gets (\<lambda>db. jobs_for_target_version db (sv_id service) (sv_version service))) one_or_none"

text \<open>
  The partial unique index \<open>uq_agent_job_service_target_version\<close> and the primary
  key, as an insert meets them.
\<close>

definition service_job_exists :: "db \<Rightarrow> uuid \<Rightarrow> int \<Rightarrow> bool" where
  "service_job_exists db service_id version =
     list_ex (\<lambda>j. jb_job_type j = JobType_service_update \<and> jb_target_id j = Some service_id \<and>
                  jb_version j = version) (agent_jobs db)"

definition new_service_job :: "uuid \<Rightarrow> timestamp \<Rightarrow> uuid \<Rightarrow> int \<Rightarrow> ChangeTrigger \<Rightarrow> agent_job" where
  "new_service_job job_id now service_id version trigger =
     \<lparr> jb_id = job_id, jb_target_type = SERVICE_TARGET_TYPE, jb_target_id = Some service_id,
       jb_feed_sync_run_id = None, jb_version = version, jb_job_type = JobType_service_update,
       jb_trigger = trigger, jb_status = JobStatus_queued, jb_error = None, jb_attempts = 0,
       jb_dispatched_at = None, jb_created_at = now, jb_started_at = None, jb_finished_at = None \<rparr>"

definition insert_job :: "agent_job \<Rightarrow> unit dbprog" where
  "insert_job job =
     andThen (gets (\<lambda>db. get_job db (jb_id job) = None)) (\<lambda>fresh.
     andThen (ensure fresh (IntegrityError ''agent_job_pkey'')) (\<lambda>_.
     modify (\<lambda>db. db\<lparr>agent_jobs := agent_jobs db @ [job]\<rparr>)))"

definition insert_or_get_job ::
  "uuid \<Rightarrow> timestamp \<Rightarrow> protected_service \<Rightarrow> ChangeTrigger \<Rightarrow> agent_job dbprog" where
  "insert_or_get_job job_id now service trigger =
     andThen (gets (\<lambda>db. service_job_exists db (sv_id service) (sv_version service))) (\<lambda>conflict.
     if \<not> conflict then
       andThen (insert_job (new_service_job job_id now (sv_id service) (sv_version service) trigger))
         (\<lambda>_. fetch (\<lambda>db. get_job db job_id)
           (HTTPException 500 (JStr ''Apply job not found after insert'')))
     else
       andThen (job_for_target_version (sv_id service) (sv_version service)) (\<lambda>existing.
       case existing of
         None \<Rightarrow> raise (HTTPException 500 (JStr ''Apply job not found after conflict''))
       | Some job \<Rightarrow> ret job))"

text \<open>The service is a row the session has loaded; its attributes are the current ones.\<close>

definition loaded_service :: "uuid \<Rightarrow> protected_service dbprog" where
  "loaded_service service_id = fetch (\<lambda>db. get_service_row db service_id) StaleDataError"

definition enqueue_service_update ::
  "uuid \<Rightarrow> timestamp \<Rightarrow> uuid \<Rightarrow> ChangeTrigger \<Rightarrow> agent_job dbprog" where
  "enqueue_service_update job_id now service_id trigger =
     andThen (loaded_service service_id) (\<lambda>service.
     andThen (whenever (sv_apply_status service \<noteq> ApplyStatus_queued)
                (assert_transition (sv_apply_status service) ApplyStatus_queued)) (\<lambda>_.
     andThen (insert_or_get_job job_id now service trigger) (\<lambda>job.
     andThen (modify (set_service service_id
       (\<lambda>s. s\<lparr>sv_apply_status := ApplyStatus_queued, sv_updated_at := now\<rparr>))) (\<lambda>_.
     andThen (register_dispatch (jb_id job)) (\<lambda>_.
     ret job)))))"

text \<open>
  \<open>ApplyDispatcher.dispatch\<close> after a commit: push on the Redis list, then note
  the time.  Redis may refuse the push and the database the update; neither
  reaches the caller.
\<close>

record gateway =
  gw_db :: db
  gw_queue :: "uuid list"

definition mark_dispatched :: "timestamp \<Rightarrow> uuid \<Rightarrow> db \<Rightarrow> db" where
  "mark_dispatched now job_id = set_job job_id (\<lambda>j. j\<lparr>jb_dispatched_at := Some now\<rparr>)"

definition dispatch :: "bool \<Rightarrow> bool \<Rightarrow> timestamp \<Rightarrow> uuid \<Rightarrow> gateway \<Rightarrow> gateway" where
  "dispatch redis_ok db_ok now job_id g =
     (if \<not> redis_ok then g
      else let g' = g\<lparr>gw_queue := job_id # gw_queue g\<rparr>
           in if db_ok then g'\<lparr>gw_db := mark_dispatched now job_id (gw_db g')\<rparr> else g')"

definition mark_applying :: "timestamp \<Rightarrow> uuid \<Rightarrow> unit dbprog" where
  "mark_applying now job_id =
     andThen (load_job_for_update job_id) (\<lambda>job.
     if is_terminal (jb_status job) then ret ()
     else andThen (load_service_for_update (jb_target_id job)) (\<lambda>service.
     if superseded service job then mark_superseded now job_id
     else
       andThen (assert_transition (sv_apply_status service) ApplyStatus_applying) (\<lambda>_.
       andThen (modify (set_service (sv_id service)
         (\<lambda>s. s\<lparr>sv_apply_status := ApplyStatus_applying, sv_updated_at := now\<rparr>))) (\<lambda>_.
       modify (set_job job_id (\<lambda>j. j\<lparr>jb_status := JobStatus_applying,
         jb_started_at := Some now, jb_attempts := jb_attempts j + 1\<rparr>))))))"

definition mark_active :: "timestamp \<Rightarrow> uuid \<Rightarrow> unit dbprog" where
  "mark_active now job_id =
     andThen (load_job_for_update job_id) (\<lambda>job.
     if is_terminal (jb_status job) then ret ()
     else andThen (load_service_for_update (jb_target_id job)) (\<lambda>service.
     if superseded service job then mark_superseded now job_id
     else
       andThen (assert_transition (sv_apply_status service) ApplyStatus_active) (\<lambda>_.
       andThen (assert_active_version_advances (sv_active_version service) (jb_version job)) (\<lambda>_.
       andThen (modify (set_service (sv_id service)
         (\<lambda>s. s\<lparr>sv_apply_status := ApplyStatus_active,
                sv_active_version := Some (jb_version job), sv_updated_at := now\<rparr>))) (\<lambda>_.
       modify (set_job job_id (\<lambda>j. j\<lparr>jb_status := JobStatus_succeeded,
         jb_finished_at := Some now\<rparr>)))))))"

definition mark_failed :: "timestamp \<Rightarrow> uuid \<Rightarrow> string \<Rightarrow> unit dbprog" where
  "mark_failed now job_id error =
     andThen (load_job_for_update job_id) (\<lambda>job.
     if is_terminal (jb_status job) then ret ()
     else andThen (load_service_for_update (jb_target_id job)) (\<lambda>service.
     if superseded service job then mark_superseded now job_id
     else
       andThen (assert_transition (sv_apply_status service) ApplyStatus_failed) (\<lambda>_.
       andThen (modify (set_service (sv_id service)
         (\<lambda>s. s\<lparr>sv_apply_status := ApplyStatus_failed, sv_updated_at := now\<rparr>))) (\<lambda>_.
       modify (set_job job_id (\<lambda>j. j\<lparr>jb_status := JobStatus_failed,
         jb_error := Some (take APPLY_ERROR_LIMIT error), jb_finished_at := Some now\<rparr>))))))"

definition requeue_job :: "agent_job \<Rightarrow> agent_job" where
  "requeue_job j = j\<lparr>jb_status := JobStatus_queued, jb_error := None, jb_started_at := None,
     jb_finished_at := None, jb_dispatched_at := None\<rparr>"

definition retry :: "uuid \<Rightarrow> timestamp \<Rightarrow> uuid \<Rightarrow> user option \<Rightarrow> uuid dbprog" where
  "retry new_job_id now service_id actor =
     andThen (load_service_for_update (Some service_id)) (\<lambda>locked.
     andThen (ensure (sv_apply_status locked = ApplyStatus_failed) NotFailedError) (\<lambda>_.
     andThen (assert_transition (sv_apply_status locked) ApplyStatus_queued) (\<lambda>_.
     andThen (current_version_job_for_update locked) (\<lambda>found.
     andThen (case found of
         None \<Rightarrow>
           andThen (insert_job (new_service_job new_job_id now (sv_id locked) (sv_version locked)
             Trigger_service)) (\<lambda>_. ret new_job_id)
       | Some job \<Rightarrow>
           andThen (modify (set_job (jb_id job) requeue_job)) (\<lambda>_. ret (jb_id job))) (\<lambda>job_id.
     andThen (modify (set_service service_id
       (\<lambda>s. s\<lparr>sv_apply_status := ApplyStatus_queued, sv_updated_at := now\<rparr>))) (\<lambda>_.
     andThen (record_event now actor ''apply.retry'' (Some ''protected_service'') (JUuid service_id)
       ''success'' None (Some [(''version'', JInt (sv_version locked))])) (\<lambda>_.
     andThen (register_dispatch job_id) (\<lambda>_.
     ret job_id))))))))"

text \<open>The reads: the status of a service and the list of jobs.\<close>

record apply_status_record =
  as_service_id :: uuid
  as_tenant_id :: uuid
  as_tenant_name :: "string option"
  as_apply_status :: ApplyStatus
  as_version :: int
  as_active_version :: "int option"
  as_last_error :: "string option"
  as_last_applied_at :: "timestamp option"
  as_latest_job :: "agent_job option"

definition first_row :: "'r list \<Rightarrow> 'r option" where
  "first_row rs = (case rs of [] \<Rightarrow> None | r # _ \<Rightarrow> Some r)"

definition service_jobs :: "db \<Rightarrow> uuid \<Rightarrow> agent_job list" where
  "service_jobs db service_id =
     filter (\<lambda>j. jb_target_type j = SERVICE_TARGET_TYPE \<and> jb_target_id j = Some service_id)
       (agent_jobs db)"

definition latest_job :: "db \<Rightarrow> uuid \<Rightarrow> agent_job option" where
  "latest_job db service_id =
     first_row (sort_key (\<lambda>j. (- jb_version j, - jb_created_at j)) (service_jobs db service_id))"

text \<open>A descending order puts \<open>NULL\<close> first.\<close>

definition latest_success :: "db \<Rightarrow> uuid \<Rightarrow> agent_job option" where
  "latest_success db service_id =
     first_row (sort_key (\<lambda>j. (- jb_version j,
         (case jb_finished_at j of None \<Rightarrow> (0 :: int, 0 :: int) | Some t \<Rightarrow> (1, - t))))
       (filter (\<lambda>j. jb_status j = JobStatus_succeeded) (service_jobs db service_id)))"

definition get_apply_status :: "db \<Rightarrow> protected_service \<Rightarrow> apply_status_record" where
  "get_apply_status db service =
     (let latest = latest_job db (sv_id service); success = latest_success db (sv_id service) in
      \<lparr> as_service_id = sv_id service, as_tenant_id = sv_tenant_id service,
        as_tenant_name = map_option tn_name (get_tenant db (sv_tenant_id service)),
        as_apply_status = sv_apply_status service, as_version = sv_version service,
        as_active_version = sv_active_version service,
        as_last_error = (case latest of None \<Rightarrow> None
          | Some j \<Rightarrow> if jb_status j = JobStatus_failed then jb_error j else None),
        as_last_applied_at = (case success of None \<Rightarrow> None | Some j \<Rightarrow> jb_finished_at j),
        as_latest_job = latest \<rparr>)"

definition list_jobs :: "db \<Rightarrow> JobStatus option \<Rightarrow> agent_job list" where
  "list_jobs db status =
     sort_key (\<lambda>j. (- jb_created_at j, - jb_version j))
       (filter (\<lambda>j. case status of None \<Rightarrow> True | Some s \<Rightarrow> jb_status j = s) (agent_jobs db))"

section \<open>The invariant\<close>

text \<open>The shape of a job row, \<open>ck_agent_job_target_shape\<close>.\<close>

definition job_shape :: "agent_job \<Rightarrow> bool" where
  "job_shape j \<longleftrightarrow>
     (jb_job_type j = JobType_service_update \<and> jb_target_type j = SERVICE_TARGET_TYPE \<and>
      jb_target_id j \<noteq> None \<and> jb_feed_sync_run_id j = None) \<or>
     (jb_job_type j = JobType_feed_sync \<and> jb_target_type j = ''feed_sync_run'' \<and>
      jb_target_id j = None \<and> jb_feed_sync_run_id j \<noteq> None) \<or>
     (jb_job_type j = JobType_global_deny_apply \<and> jb_target_type j = ''global_deny'' \<and>
      jb_target_id j = None \<and> jb_feed_sync_run_id j = None)"

definition version_jobs :: "agent_job list \<Rightarrow> uuid \<Rightarrow> int \<Rightarrow> agent_job list" where
  "version_jobs jobs service_id version =
     filter (\<lambda>j. jb_target_type j = SERVICE_TARGET_TYPE \<and> jb_target_id j = Some service_id \<and>
                 jb_version j = version) jobs"

text \<open>What the ledger holds for the current version of a service in each status.\<close>

definition expected_jobs :: "ApplyStatus \<Rightarrow> JobStatus list" where
  "expected_jobs status =
     (case status of
        ApplyStatus_pending \<Rightarrow> []
      | ApplyStatus_queued \<Rightarrow> [JobStatus_queued]
      | ApplyStatus_applying \<Rightarrow> [JobStatus_applying]
      | ApplyStatus_active \<Rightarrow> [JobStatus_succeeded]
      | ApplyStatus_failed \<Rightarrow> [JobStatus_failed])"

definition version_ok :: "protected_service \<Rightarrow> bool" where
  "version_ok s \<longleftrightarrow> 1 \<le> sv_version s \<and>
     (case sv_active_version s of
        None \<Rightarrow> sv_apply_status s \<noteq> ApplyStatus_active
      | Some a \<Rightarrow> 1 \<le> a \<and> a \<le> sv_version s \<and>
          (a = sv_version s \<longleftrightarrow> sv_apply_status s = ApplyStatus_active))"

definition apply_ok :: "protected_service list \<Rightarrow> agent_job list \<Rightarrow> bool" where
  "apply_ok svcs jobs \<longleftrightarrow>
     distinct (map sv_id svcs) \<and> distinct (map jb_id jobs) \<and> list_all job_shape jobs \<and>
     (\<forall>i v. length (version_jobs jobs i v) \<le> 1) \<and>
     (\<forall>j\<in>set jobs. \<forall>i. jb_target_id j = Some i \<longrightarrow>
        (\<exists>s\<in>set svcs. sv_id s = i \<and> jb_version j \<le> sv_version s)) \<and>
     (\<forall>s\<in>set svcs. version_ok s \<and>
        map jb_status (version_jobs jobs (sv_id s) (sv_version s)) = expected_jobs (sv_apply_status s))"

definition apply_inv :: "db \<Rightarrow> bool" where
  "apply_inv db \<longleftrightarrow> apply_ok (protected_services db) (agent_jobs db)"

section \<open>Lemmas on the ledger\<close>

lemma jobs_for_version_jobs: "jobs_for_target_version db i v = version_jobs (agent_jobs db) i v"
  by (simp add: jobs_for_target_version_def version_jobs_def)

lemma version_jobs_update:
  assumes "distinct (map jb_id jobs)" "j \<in> set jobs" "jb_id j = k"
    "\<And>j. jb_id (f j) = jb_id j" "\<And>j. jb_target_type (f j) = jb_target_type j"
    "\<And>j. jb_target_id (f j) = jb_target_id j" "\<And>j. jb_version (f j) = jb_version j"
  shows "version_jobs (update_row jb_id k f jobs) i v =
    (if jb_target_type j = SERVICE_TARGET_TYPE \<and> jb_target_id j = Some i \<and> jb_version j = v
     then update_row jb_id k f (version_jobs jobs i v) else version_jobs jobs i v)"
  using assms(1,2,3)
proof (induction jobs)
  case (Cons a jobs)
  show ?case
  proof (cases "a = j")
    case True
    then have "k \<notin> jb_id ` set jobs" using Cons.prems by auto
    then have "update_row jb_id k f jobs = jobs"
      and "update_row jb_id k f (version_jobs jobs i v) = version_jobs jobs i v"
      by (auto simp: version_jobs_def intro!: update_row_absent)
    then show ?thesis
      using True Cons.prems(3) assms(4-7) by (simp add: update_row_def version_jobs_def)
  next
    case False
    then have "jb_id a \<noteq> k" using Cons.prems by auto
    then show ?thesis
      using False Cons assms(4-7) by (simp add: update_row_def version_jobs_def)
  qed
qed simp

lemma version_jobs_single:
  assumes "length (version_jobs jobs i v) \<le> 1" "j \<in> set jobs"
    "jb_target_type j = SERVICE_TARGET_TYPE" "jb_target_id j = Some i" "jb_version j = v"
  shows "version_jobs jobs i v = [j]"
proof -
  have "j \<in> set (version_jobs jobs i v)" using assms by (simp add: version_jobs_def)
  then show ?thesis
    using assms(1) by (cases "version_jobs jobs i v") auto
qed

lemma apply_okD:
  assumes "apply_ok svcs jobs"
  shows "distinct (map sv_id svcs)" "distinct (map jb_id jobs)"
    "j \<in> set jobs \<Longrightarrow> job_shape j" "length (version_jobs jobs i v) \<le> 1"
    "j \<in> set jobs \<Longrightarrow> jb_target_id j = Some i
       \<Longrightarrow> \<exists>s\<in>set svcs. sv_id s = i \<and> jb_version j \<le> sv_version s"
    "s \<in> set svcs \<Longrightarrow> version_ok s"
    "s \<in> set svcs \<Longrightarrow>
       map jb_status (version_jobs jobs (sv_id s) (sv_version s)) = expected_jobs (sv_apply_status s)"
  using assms by (auto simp: apply_ok_def list_all_iff)

lemma shape_targetD: "job_shape j \<Longrightarrow> jb_target_id j = Some i \<Longrightarrow> jb_target_type j = SERVICE_TARGET_TYPE"
  by (auto simp: job_shape_def)

text \<open>
  The common step of the ledger: a job changes its status, and the service of
  its target follows when the job is of the current version.
\<close>

definition same_job :: "(agent_job \<Rightarrow> agent_job) \<Rightarrow> bool" where
  "same_job g \<longleftrightarrow> (\<forall>j. jb_id (g j) = jb_id j \<and> jb_target_type (g j) = jb_target_type j \<and>
     jb_target_id (g j) = jb_target_id j \<and> jb_version (g j) = jb_version j \<and>
     jb_job_type (g j) = jb_job_type j \<and> jb_feed_sync_run_id (g j) = jb_feed_sync_run_id j)"

lemma same_jobD:
  assumes "same_job g"
  shows "jb_id (g j) = jb_id j" "jb_target_type (g j) = jb_target_type j"
    "jb_target_id (g j) = jb_target_id j" "jb_version (g j) = jb_version j"
    "job_shape (g j) = job_shape j"
  using assms by (auto simp: same_job_def job_shape_def)

lemma apply_ok_job:
  assumes ok: "apply_ok svcs jobs" and j: "j \<in> set jobs" "jb_id j = k" and g: "same_job g"
    and other: "\<And>s. s \<in> set svcs \<Longrightarrow> jb_target_id j = Some (sv_id s) \<Longrightarrow> jb_version j = sv_version s
      \<Longrightarrow> jb_status (g j) = jb_status j"
  shows "apply_ok svcs (update_row jb_id k g jobs)"
proof -
  note upd = version_jobs_update [OF apply_okD(2) [OF ok] j same_jobD(1-4) [OF g]]
  have "map jb_status (version_jobs (update_row jb_id k g jobs) (sv_id s) (sv_version s))
      = expected_jobs (sv_apply_status s)" if s: "s \<in> set svcs" for s
  proof (cases "jb_target_type j = SERVICE_TARGET_TYPE \<and> jb_target_id j = Some (sv_id s) \<and>
      jb_version j = sv_version s")
    case True
    then have "version_jobs jobs (sv_id s) (sv_version s) = [j]"
      using version_jobs_single [OF apply_okD(4) [OF ok] j(1)] by blast
    then show ?thesis
      using True other [OF s] apply_okD(7) [OF ok s] j(2) by (simp add: upd update_row_Cons)
  next
    case False
    then show ?thesis using apply_okD(7) [OF ok s] by (auto simp: upd)
  qed
  moreover have "length (version_jobs (update_row jb_id k g jobs) i v) \<le> 1" for i v
    using apply_okD(4) [OF ok, of i v] by (simp add: upd)
  ultimately show ?thesis
    using ok same_jobD [OF g]
    by (auto simp: apply_ok_def list_all_iff set_update_row map_update_row)
qed


lemma apply_ok_change:
  assumes ok: "apply_ok svcs jobs" and s: "s \<in> set svcs" "sv_id s = i"
    and f: "\<And>s. sv_id (f s) = sv_id s" "sv_version s \<le> sv_version (f s)" "version_ok (f s)"
    and jobs': "distinct (map jb_id jobs')" "list_all job_shape jobs'"
      "\<And>k v. length (version_jobs jobs' k v) \<le> 1"
      "\<And>j k. j \<in> set jobs' \<Longrightarrow> jb_target_id j = Some k \<Longrightarrow>
        (\<exists>j0\<in>set jobs. jb_target_id j0 = Some k \<and> jb_version j0 = jb_version j) \<or>
        k = i \<and> jb_version j \<le> sv_version (f s)"
      "\<And>k v. k \<noteq> i \<Longrightarrow> map jb_status (version_jobs jobs' k v) = map jb_status (version_jobs jobs k v)"
      "map jb_status (version_jobs jobs' i (sv_version (f s))) = expected_jobs (sv_apply_status (f s))"
  shows "apply_ok (update_row sv_id i f svcs) jobs'"
proof -
  have uniq: "r = s" if "r \<in> set svcs" "sv_id r = i" for r
    using apply_okD(1) [OF ok] s that by (auto simp: distinct_map inj_on_def)
  have "\<exists>s\<in>set (update_row sv_id i f svcs). sv_id s = k \<and> jb_version j \<le> sv_version s"
    if j: "j \<in> set jobs'" "jb_target_id j = Some k" for j k
  proof -
    from jobs'(4) [OF j] show ?thesis
    proof
      assume "\<exists>j0\<in>set jobs. jb_target_id j0 = Some k \<and> jb_version j0 = jb_version j"
      then obtain r where r: "r \<in> set svcs" "sv_id r = k" "jb_version j \<le> sv_version r"
        using apply_okD(5) [OF ok] by metis
      show ?thesis
      proof (cases "k = i")
        case True
        then have "r = s" using uniq r by simp
        then show ?thesis
          using r f(1,2) s in_update_rowI(1) [of s svcs sv_id i f] True by (auto intro!: bexI [of _ "f s"])
      next
        case False
        then show ?thesis using r in_update_rowI(2) [of r svcs sv_id i f] by auto
      qed
    next
      assume "k = i \<and> jb_version j \<le> sv_version (f s)"
      then show ?thesis
        using s f(1) in_update_rowI(1) [of s svcs sv_id i f] by (auto intro!: bexI [of _ "f s"])
    qed
  qed
  moreover have "version_ok r \<and> map jb_status (version_jobs jobs' (sv_id r) (sv_version r))
      = expected_jobs (sv_apply_status r)" if "r \<in> set (update_row sv_id i f svcs)" for r
    using that
  proof (cases rule: in_update_rowE)
    case (1 r0)
    then show ?thesis using uniq [of r0] s(2) f(1,3) jobs'(6) by simp
  next
    case 2
    then show ?thesis using apply_okD(6,7) [OF ok 2(1)] jobs'(5) by simp
  qed
  ultimately show ?thesis
    using apply_okD(1) [OF ok] f(1) jobs'(1-3)
    by (auto simp: apply_ok_def map_update_row)
qed

lemma apply_ok_step:
  assumes ok: "apply_ok svcs jobs" and s: "s \<in> set svcs" "sv_id s = i"
    and j: "j \<in> set jobs" "jb_id j = k" "jb_target_id j = Some i" "jb_version j = sv_version s"
    and f: "\<And>s. sv_id (f s) = sv_id s" "sv_version (f s) = sv_version s" "version_ok (f s)"
    and g: "same_job g" "expected_jobs (sv_apply_status (f s)) = [jb_status (g j)]"
  shows "apply_ok (update_row sv_id i f svcs) (update_row jb_id k g jobs)"
proof -
  note upd = version_jobs_update [OF apply_okD(2) [OF ok] j(1,2) same_jobD(1-4) [OF g(1)]]
  have tt: "jb_target_type j = SERVICE_TARGET_TYPE"
    using shape_targetD [OF apply_okD(3) [OF ok j(1)] j(3)] .
  have single: "version_jobs jobs i (sv_version s) = [j]"
    using version_jobs_single [OF apply_okD(4) [OF ok] j(1) tt j(3,4)] .
  have 1: "distinct (map jb_id (update_row jb_id k g jobs))"
    using apply_okD(2) [OF ok] same_jobD [OF g(1)] by (simp add: map_update_row)
  have 2: "list_all job_shape (update_row jb_id k g jobs)"
    using apply_okD(3) [OF ok] same_jobD [OF g(1)] by (auto simp: list_all_iff set_update_row)
  have 3: "length (version_jobs (update_row jb_id k g jobs) m v) \<le> 1" for m v
    using apply_okD(4) [OF ok, of m v] by (simp add: upd)
  have 4: "\<exists>j0\<in>set jobs. jb_target_id j0 = Some m \<and> jb_version j0 = jb_version r"
    if "r \<in> set (update_row jb_id k g jobs)" "jb_target_id r = Some m" for r m
    using that same_jobD [OF g(1)] by (auto elim!: in_update_rowE)
  have 5: "map jb_status (version_jobs (update_row jb_id k g jobs) m v)
      = map jb_status (version_jobs jobs m v)" if "m \<noteq> i" for m v
    using that j(3) by (simp add: upd)
  have 6: "map jb_status (version_jobs (update_row jb_id k g jobs) i (sv_version (f s)))
      = expected_jobs (sv_apply_status (f s))"
    using tt j f(2) g(2) by (simp add: upd single update_row_Cons)
  show ?thesis
    by (rule apply_ok_change [OF ok s f(1) _ f(3) 1 2 3 _ 5 6]) (use f(2) 4 in simp_all)
qed

lemma version_jobs_append:
  "version_jobs (jobs @ js) i v = version_jobs jobs i v @ version_jobs js i v"
  by (simp add: version_jobs_def)

lemma apply_ok_insert:
  assumes ok: "apply_ok svcs jobs" and s: "s \<in> set svcs" "sv_id s = i"
    and j: "jb_id j \<notin> jb_id ` set jobs" "job_shape j" "jb_target_id j = Some i"
      "jb_version j = sv_version s" "version_jobs jobs i (sv_version s) = []"
    and f: "\<And>s. sv_id (f s) = sv_id s" "sv_version (f s) = sv_version s" "version_ok (f s)"
      "expected_jobs (sv_apply_status (f s)) = [jb_status j]"
  shows "apply_ok (update_row sv_id i f svcs) (jobs @ [j])"
proof -
  have tt: "jb_target_type j = SERVICE_TARGET_TYPE" using shape_targetD [OF j(2,3)] .
  have 3: "length (version_jobs (jobs @ [j]) m v) \<le> 1" for m v
    using apply_okD(4) [OF ok, of m v] j by (auto simp: version_jobs_append) (auto simp: version_jobs_def)
  have 5: "map jb_status (version_jobs (jobs @ [j]) m v) = map jb_status (version_jobs jobs m v)"
    if "m \<noteq> i" for m v
    using that j(3) by (simp add: version_jobs_append) (simp add: version_jobs_def)
  have 6: "map jb_status (version_jobs (jobs @ [j]) i (sv_version (f s)))
      = expected_jobs (sv_apply_status (f s))"
    using j tt f by (simp add: version_jobs_append) (simp add: version_jobs_def)
  have 1: "distinct (map jb_id (jobs @ [j]))" using apply_okD(2) [OF ok] j(1) by simp
  have 2: "list_all job_shape (jobs @ [j])"
    using apply_okD(3) [OF ok] j(2) by (auto simp: list_all_iff)
  show ?thesis
    by (rule apply_ok_change [OF ok s f(1) _ f(3) 1 2 3 _ 5 6]) (use f(2) j(3,4) in auto)
qed

text \<open>A new version of a service has no job yet.\<close>

lemma no_jobs_beyond_version:
  assumes "apply_ok svcs jobs" "s \<in> set svcs" "sv_version s < v"
  shows "version_jobs jobs (sv_id s) v = []"
proof -
  have "\<not> jb_version j = v" if "j \<in> set jobs" "jb_target_id j = Some (sv_id s)" for j
  proof -
    from apply_okD(5) [OF assms(1) that] obtain r where
      "r \<in> set svcs" "sv_id r = sv_id s" "jb_version j \<le> sv_version r" by blast
    moreover have "r = s"
      using apply_okD(1) [OF assms(1)] assms(2) calculation by (auto simp: distinct_map inj_on_def)
    ultimately show ?thesis using assms(3) by auto
  qed
  then show ?thesis by (auto simp: version_jobs_def filter_empty_conv)
qed

lemma apply_ok_service:
  assumes ok: "apply_ok svcs jobs" and s: "s \<in> set svcs" "sv_id s = i"
    and f: "\<And>s. sv_id (f s) = sv_id s" "version_ok (f s)"
      "sv_version (f s) = sv_version s \<and> sv_apply_status (f s) = sv_apply_status s \<or>
       sv_version s < sv_version (f s) \<and> sv_apply_status (f s) = ApplyStatus_pending"
  shows "apply_ok (update_row sv_id i f svcs) jobs"
proof (rule apply_ok_change [OF ok s f(1)])
  show "map jb_status (version_jobs jobs i (sv_version (f s))) = expected_jobs (sv_apply_status (f s))"
    using f(3) apply_okD(7) [OF ok s(1)] no_jobs_beyond_version [OF ok s(1)] s(2)
    by (auto simp: expected_jobs_def)
qed (use ok f apply_okD [OF ok] in \<open>auto simp: list_all_iff\<close>)


section \<open>The operations keep the invariant\<close>

lemmas load_defs = load_job_for_update_def load_service_for_update_def loaded_service_def
  assert_transition_def assert_active_version_advances_def mark_superseded_def

lemma target_serviceD:
  assumes "Option.bind t (get_service_row db) = Some s"
  shows "t = Some (sv_id s)" "get_service_row db (sv_id s) = Some s" "s \<in> set (protected_services db)"
  using assms by (auto simp: bind_eq_Some_conv get_service_row_def dest: row_SomeD)

lemma get_jobD: "get_job db k = Some j \<Longrightarrow> j \<in> set (agent_jobs db)" "get_job db k = Some j \<Longrightarrow> jb_id j = k"
  by (auto simp: get_job_def dest: row_SomeD)

lemma get_serviceD:
  "get_service_row db i = Some s \<Longrightarrow> s \<in> set (protected_services db)"
  "get_service_row db i = Some s \<Longrightarrow> sv_id s = i"
  by (auto simp: get_service_row_def dest: row_SomeD)

lemma apply_inv_step:
  assumes "apply_inv db" "get_job db k = Some j" "Option.bind (jb_target_id j) (get_service_row db) = Some s"
    "\<not> superseded s j" "\<And>s. sv_id (f s) = sv_id s" "sv_version (f s) = sv_version s" "version_ok (f s)"
    "same_job g" "expected_jobs (sv_apply_status (f s)) = [jb_status (g j)]"
  shows "apply_inv (set_job k g (set_service (sv_id s) f db))"
proof -
  have "apply_ok (update_row sv_id (sv_id s) f (protected_services db))
      (update_row jb_id k g (agent_jobs db))"
    using assms target_serviceD [OF assms(3)] get_jobD [OF assms(2)]
    by (intro apply_ok_step [where s = s and j = j]) (auto simp: apply_inv_def superseded_def)
  then show ?thesis by (simp add: apply_inv_def set_job_def set_service_def)
qed

lemma apply_inv_superseded:
  assumes "apply_inv db" "get_job db k = Some j" "Option.bind (jb_target_id j) (get_service_row db) = Some s"
    "superseded s j" "same_job g"
  shows "apply_inv (set_job k g db)"
proof -
  have "r = s" if "r \<in> set (protected_services db)" "sv_id r = sv_id s" for r
    using assms(1) target_serviceD(3) [OF assms(3)] that
    by (auto simp: apply_inv_def distinct_map inj_on_def dest!: apply_okD(1))
  then have "apply_ok (protected_services db) (update_row jb_id k g (agent_jobs db))"
    using assms target_serviceD [OF assms(3)] get_jobD [OF assms(2)]
    by (intro apply_ok_job [where j = j]) (auto simp: apply_inv_def superseded_def)
  then show ?thesis by (simp add: apply_inv_def set_job_def)
qed

lemma apply_inv_frame [simp]:
  "apply_inv (db\<lparr>post_commit := xs\<rparr>) = apply_inv db"
  "apply_inv (db\<lparr>audit_events := es\<rparr>) = apply_inv db"
  by (simp_all add: apply_inv_def)

lemma version_ok_status [simp]:
  "version_ok s \<Longrightarrow> sv_apply_status s \<noteq> ApplyStatus_active \<Longrightarrow> st \<noteq> ApplyStatus_active
   \<Longrightarrow> version_ok (s\<lparr>sv_apply_status := st, sv_updated_at := now\<rparr>)"
  by (auto simp: version_ok_def split: option.splits)

lemma version_ok_activate [simp]:
  "version_ok s \<Longrightarrow> version_ok (s\<lparr>sv_apply_status := ApplyStatus_active,
     sv_active_version := Some (sv_version s), sv_updated_at := now\<rparr>)"
  by (auto simp: version_ok_def split: option.splits)

lemma apply_inv_version_ok: "apply_inv db \<Longrightarrow> s \<in> set (protected_services db) \<Longrightarrow> version_ok s"
  by (auto simp: apply_inv_def dest: apply_okD(6))

lemma legal_to [simp]:
  "ApplyStatus_applying \<in> set (LEGAL_APPLY c) \<longleftrightarrow> c = ApplyStatus_queued"
  "ApplyStatus_active \<in> set (LEGAL_APPLY c) \<longleftrightarrow> c = ApplyStatus_applying"
  "ApplyStatus_failed \<in> set (LEGAL_APPLY c) \<longleftrightarrow> c = ApplyStatus_applying"
  "ApplyStatus_queued \<in> set (LEGAL_APPLY c) \<longleftrightarrow> c = ApplyStatus_pending \<or> c = ApplyStatus_failed"
  "ApplyStatus_pending \<in> set (LEGAL_APPLY c)"
  by (cases c; simp add: LEGAL_APPLY_def)+

lemma apply_inv_status:
  assumes "apply_inv db" "get_job db k = Some j" "Option.bind (jb_target_id j) (get_service_row db) = Some s"
    "\<not> superseded s j" "sv_apply_status s \<noteq> ApplyStatus_active" "st \<noteq> ApplyStatus_active"
    "same_job g" "expected_jobs st = [jb_status (g j)]"
  shows "apply_inv (set_job k g (set_service (sv_id s)
    (\<lambda>s. s\<lparr>sv_apply_status := st, sv_updated_at := now\<rparr>) db))"
  using assms apply_inv_version_ok [OF assms(1) target_serviceD(3) [OF assms(3)]]
  by (intro apply_inv_step) auto

lemma keeps_mark_applying [inv_intros]: "keeps apply_inv (mark_applying now k)"
  by (rule keepsI)
    (auto simp: mark_applying_def load_defs wp_simps same_job_def expected_jobs_def
      intro: apply_inv_status apply_inv_superseded)

lemma keeps_mark_failed [inv_intros]: "keeps apply_inv (mark_failed now k e)"
  by (rule keepsI)
    (auto simp: mark_failed_def load_defs wp_simps same_job_def expected_jobs_def
      intro: apply_inv_status apply_inv_superseded)

lemma keeps_mark_active [inv_intros]: "keeps apply_inv (mark_active now k)"
proof (rule keepsI)
  fix db assume inv: "apply_inv db"
  have "apply_inv (set_job k (\<lambda>j. j\<lparr>jb_status := JobStatus_succeeded, jb_finished_at := Some now\<rparr>)
      (set_service (sv_id s) (\<lambda>s. s\<lparr>sv_apply_status := ApplyStatus_active,
         sv_active_version := Some (jb_version j), sv_updated_at := now\<rparr>) db))"
    if "get_job db k = Some j" "Option.bind (jb_target_id j) (get_service_row db) = Some s"
      "\<not> superseded s j" for j s
    using inv that apply_inv_version_ok [OF inv target_serviceD(3) [OF that(2)]]
      version_ok_activate [of s now]
    by (intro apply_inv_step) (auto simp: same_job_def expected_jobs_def superseded_def)
  then show "wp (mark_active now k) (\<lambda>_. apply_inv) (\<lambda>_. apply_inv) db"
    using inv by (auto simp: mark_active_def load_defs wp_simps same_job_def
      intro!: apply_inv_superseded)
qed

lemma keeps_register_dispatch [inv_intros]:
  "(\<And>db xs. I (db\<lparr>post_commit := xs\<rparr>) = I db) \<Longrightarrow> keeps I (register_dispatch k)"
  unfolding register_dispatch_def by (rule keeps_modify) simp


lemma service_job_exists_iff:
  assumes "list_all job_shape (agent_jobs db)"
  shows "service_job_exists db i v \<longleftrightarrow> version_jobs (agent_jobs db) i v \<noteq> []"
  using assms
  by (fastforce simp: service_job_exists_def version_jobs_def filter_empty_conv list_ex_iff
      list_all_iff job_shape_def SERVICE_TARGET_TYPE_def)

lemma apply_inv_shapes: "apply_inv db \<Longrightarrow> list_all job_shape (agent_jobs db)"
  by (simp add: apply_inv_def apply_ok_def)

lemma new_service_job_simps [simp]:
  "jb_id (new_service_job k now i v tr) = k" "jb_target_id (new_service_job k now i v tr) = Some i"
  "jb_version (new_service_job k now i v tr) = v"
  "jb_status (new_service_job k now i v tr) = JobStatus_queued"
  "jb_attempts (new_service_job k now i v tr) = 0" "job_shape (new_service_job k now i v tr)"
  by (simp_all add: new_service_job_def job_shape_def)

text \<open>A service without a job for its version is pending, and takes a new job.\<close>

lemma apply_inv_insert:
  assumes "apply_inv db" "get_service_row db i = Some s" "get_job db k = None"
    "version_jobs (agent_jobs db) i (sv_version s) = []"
  shows "apply_inv (set_service i (\<lambda>s. s\<lparr>sv_apply_status := ApplyStatus_queued, sv_updated_at := now'\<rparr>)
    (db\<lparr>agent_jobs := agent_jobs db @ [new_service_job k now i (sv_version s) tr]\<rparr>))"
proof -
  have ok: "apply_ok (protected_services db) (agent_jobs db)" using assms(1) by (simp add: apply_inv_def)
  have s: "s \<in> set (protected_services db)" "sv_id s = i" using get_serviceD [OF assms(2)] .
  have "sv_apply_status s \<noteq> ApplyStatus_active"
    using apply_okD(7) [OF ok s(1)] assms(4) s(2)
    by (cases "sv_apply_status s") (auto simp: expected_jobs_def)
  then have "version_ok (s\<lparr>sv_apply_status := ApplyStatus_queued, sv_updated_at := now'\<rparr>)"
    using apply_okD(6) [OF ok s(1)] by simp
  then have "apply_ok (update_row sv_id i
      (\<lambda>s. s\<lparr>sv_apply_status := ApplyStatus_queued, sv_updated_at := now'\<rparr>) (protected_services db))
      (agent_jobs db @ [new_service_job k now i (sv_version s) tr])"
    using assms(3,4)
    by (intro apply_ok_insert [OF ok s]) (auto simp: get_job_def row_None_iff expected_jobs_def)
  then show ?thesis by (simp add: apply_inv_def set_service_def)
qed

lemma apply_inv_touch:
  assumes "apply_inv db" "get_service_row db i = Some s" "sv_apply_status s = ApplyStatus_queued"
  shows "apply_inv (set_service i
    (\<lambda>s. s\<lparr>sv_apply_status := ApplyStatus_queued, sv_updated_at := now\<rparr>) db)"
proof -
  have ok: "apply_ok (protected_services db) (agent_jobs db)" using assms(1) by (simp add: apply_inv_def)
  have s: "s \<in> set (protected_services db)" "sv_id s = i" using get_serviceD [OF assms(2)] .
  have "apply_ok (update_row sv_id i
      (\<lambda>s. s\<lparr>sv_apply_status := ApplyStatus_queued, sv_updated_at := now\<rparr>) (protected_services db))
      (agent_jobs db)"
    using assms(3) apply_okD(6) [OF ok s(1)] by (intro apply_ok_service [OF ok s]) auto
  then show ?thesis by (simp add: apply_inv_def set_service_def)
qed

lemma version_jobs_status:
  assumes "apply_inv db" "get_service_row db i = Some s"
  shows "map jb_status (version_jobs (agent_jobs db) i (sv_version s)) = expected_jobs (sv_apply_status s)"
  using assms get_serviceD [OF assms(2)] by (auto simp: apply_inv_def dest: apply_okD(7))

lemma wp_insert_job [wp_simps]:
  "wp (insert_job job) Q E db =
     ((get_job db (jb_id job) = None \<longrightarrow> Q () (db\<lparr>agent_jobs := agent_jobs db @ [job]\<rparr>)) \<and>
      (get_job db (jb_id job) \<noteq> None \<longrightarrow> E (IntegrityError ''agent_job_pkey'') db))"
  by (simp add: insert_job_def wp_simps)

lemma wp_register_dispatch [wp_simps]:
  "wp (register_dispatch k) Q E db = Q () (snd (register_dispatch k db))"
  by (simp add: register_dispatch_def wp_simps run_simps)

lemma apply_inv_register_dispatch [simp]:
  "apply_inv (snd (register_dispatch k db)) = apply_inv db"
  by (simp add: register_dispatch_def run_simps)

lemma get_job_append [simp]:
  "get_job db k = None \<Longrightarrow> jb_id j = k \<Longrightarrow> get_job (db\<lparr>agent_jobs := agent_jobs db @ [j]\<rparr>) k = Some j"
  by (simp add: get_job_def table_simps)

lemma wp_one_or_none_single [wp_simps]:
  "wp (one_or_none []) Q E s = Q None s"
  "wp (one_or_none [r]) Q E s = Q (Some r) s"
  by (simp_all add: one_or_none_def wp_simps)

text \<open>
  Enqueueing keeps the invariant unless the service has failed: a failed
  service keeps its failed job, which only \<open>retry\<close> and a new version replace.
\<close>

lemma enqueue_apply_inv:
  assumes inv: "apply_inv db"
    and st: "\<And>s. get_service_row db i = Some s \<Longrightarrow> sv_apply_status s \<noteq> ApplyStatus_failed"
  shows "wp (enqueue_service_update k now i tr) (\<lambda>_. apply_inv) (\<lambda>_. apply_inv) db"
proof (cases "get_service_row db i")
  case None
  then show ?thesis using inv by (simp add: enqueue_service_update_def load_defs wp_simps)
next
  case (Some s)
  have id: "sv_id s = i" using get_serviceD(2) [OF Some] .
  show ?thesis
  proof (cases "version_jobs (agent_jobs db) i (sv_version s)")
    case Nil
    then have "\<not> service_job_exists db i (sv_version s)"
      using service_job_exists_iff [OF apply_inv_shapes [OF inv]] by simp
    then show ?thesis
      using inv Some Nil id
      by (auto simp: enqueue_service_update_def insert_or_get_job_def load_defs wp_simps
          intro!: apply_inv_insert)
  next
    case (Cons j js)
    then have ex: "service_job_exists db i (sv_version s)"
      using service_job_exists_iff [OF apply_inv_shapes [OF inv]] by simp
    have "js = []" and "sv_apply_status s \<noteq> ApplyStatus_pending"
      using version_jobs_status [OF inv Some] Cons
      by (cases "sv_apply_status s"; simp add: expected_jobs_def)+
    then show ?thesis
      using inv Some id st [OF Some] ex Cons apply_inv_touch [OF inv Some]
      by (auto simp: enqueue_service_update_def insert_or_get_job_def job_for_target_version_def
          jobs_for_version_jobs load_defs wp_simps)
  qed
qed

lemma keeps_retry [inv_intros]: "keeps apply_inv (retry k now i actor)"
proof (rule keepsI)
  fix db assume inv: "apply_inv db"
  show "wp (retry k now i actor) (\<lambda>_. apply_inv) (\<lambda>_. apply_inv) db"
  proof (cases "get_service_row db i")
    case None
    then show ?thesis using inv by (simp add: retry_def load_defs wp_simps)
  next
    case (Some s)
    have id: "sv_id s = i" using get_serviceD(2) [OF Some] .
    show ?thesis
    proof (cases "sv_apply_status s = ApplyStatus_failed")
      case False
      then show ?thesis using inv Some by (simp add: retry_def load_defs wp_simps)
    next
      case True
      obtain j where vj: "version_jobs (agent_jobs db) i (sv_version s) = [j]"
        using version_jobs_status [OF inv Some] True by (auto simp: expected_jobs_def)
      then have j: "j \<in> set (agent_jobs db)" "jb_target_id j = Some i" "jb_version j = sv_version s"
        by (auto simp: version_jobs_def dest!: arg_cong [where f = set])
      have "get_job db (jb_id j) = Some j"
        using inv j(1) row_distinct [of jb_id "agent_jobs db" j]
        by (simp add: apply_inv_def get_job_def apply_okD(2))
      then have "apply_inv (set_job (jb_id j) requeue_job (set_service (sv_id s)
          (\<lambda>s. s\<lparr>sv_apply_status := ApplyStatus_queued, sv_updated_at := now\<rparr>) db))"
        using inv Some True j id
        by (intro apply_inv_status)
          (auto simp: superseded_def same_job_def requeue_job_def expected_jobs_def)
      then have "apply_inv (set_service i
          (\<lambda>s. s\<lparr>sv_apply_status := ApplyStatus_queued, sv_updated_at := now\<rparr>)
          (set_job (jb_id j) requeue_job db))"
        by (simp add: apply_inv_def set_job_def set_service_def id)
      then show ?thesis
        using inv Some True vj id
        by (simp add: retry_def current_version_job_for_update_def jobs_for_version_jobs load_defs
            wp_simps) (simp add: apply_inv_def)
    qed
  qed
qed


section \<open>What a service promises: the abstract machine\<close>

text \<open>
  The contract of the pipeline for one service: its version, the version that
  is live, and the phase of the current version.  Only the current version
  ever goes live, from \<open>applying\<close>.
\<close>

type_synonym service_view = "int \<times> int option \<times> ApplyStatus"

inductive spec_step :: "service_view \<Rightarrow> service_view \<Rightarrow> bool" where
  change: "spec_step (v, a, p) (v + 1, a, ApplyStatus_pending)"
| enqueue: "p \<in> {ApplyStatus_pending, ApplyStatus_failed} \<Longrightarrow> spec_step (v, a, p) (v, a, ApplyStatus_queued)"
| claim: "spec_step (v, a, ApplyStatus_queued) (v, a, ApplyStatus_applying)"
| activate: "(\<forall>x. a = Some x \<longrightarrow> x < v) \<Longrightarrow>
    spec_step (v, a, ApplyStatus_applying) (v, Some v, ApplyStatus_active)"
| fail: "spec_step (v, a, ApplyStatus_applying) (v, a, ApplyStatus_failed)"

inductive_cases spec_stepE: "spec_step x y"

definition view_of :: "protected_service \<Rightarrow> service_view" where
  "view_of s = (sv_version s, sv_active_version s, sv_apply_status s)"

definition service_view :: "db \<Rightarrow> uuid \<Rightarrow> service_view option" where
  "service_view db i = map_option view_of (get_service_row db i)"

text \<open>Every service that was there is still there and took spec steps.\<close>

definition simulates :: "db \<Rightarrow> db \<Rightarrow> bool" where
  "simulates db db' \<longleftrightarrow>
     (\<forall>i v. service_view db i = Some v \<longrightarrow> (\<exists>v'. service_view db' i = Some v' \<and> spec_step\<^sup>*\<^sup>* v v'))"

definition refines :: "'a dbprog \<Rightarrow> bool" where
  "refines m \<longleftrightarrow> (\<forall>db. wp m (\<lambda>_. simulates db) (\<lambda>_. simulates db) db)"

lemma spec_steps_bounds:
  assumes "spec_step\<^sup>*\<^sup>* (v, a, p) (v', a', p')"
  shows "v \<le> v' \<and> (a' = a \<or> (\<exists>x. a' = Some x \<and> v \<le> x \<and> x \<le> v' \<and> (\<forall>y. a = Some y \<longrightarrow> y < x)))"
  using assms
proof (induction "(v', a', p')" arbitrary: v' a' p' rule: rtranclp_induct)
  case (step y)
  obtain v1 a1 p1 where y: "y = (v1, a1, p1)" by (cases y)
  from step(3) [OF y] step(2)[unfolded y] show ?case
    by (auto elim!: spec_stepE)
qed simp

lemma simulates_refl [simp]: "simulates db db"
  by (simp add: simulates_def)

lemma simulates_trans: "simulates a b \<Longrightarrow> simulates b c \<Longrightarrow> simulates a c"
  by (fastforce simp: simulates_def intro: rtranclp_trans)

lemma simulates_frame:
  "protected_services db' = protected_services db'' \<Longrightarrow> simulates db db' \<Longrightarrow> simulates db db''"
  by (simp add: simulates_def service_view_def get_service_row_def)

lemma simulates_same: "protected_services db' = protected_services db \<Longrightarrow> simulates db db'"
  using simulates_frame [of db db' db] simulates_refl [of db] by (metis simulates_frame)

lemma simulates_set_service:
  assumes "\<And>s. get_service_row db i = Some s \<Longrightarrow> spec_step\<^sup>*\<^sup>* (view_of s) (view_of (f s))"
    "\<And>s. sv_id (f s) = sv_id s"
  shows "simulates db (set_service i f db)"
  using assms
  by (auto simp: simulates_def service_view_def table_simps simp del: split_paired_All split_paired_Ex)

lemma refinesI: "(\<And>db. wp m (\<lambda>_. simulates db) (\<lambda>_. simulates db) db) \<Longrightarrow> refines m"
  by (simp add: refines_def)

lemma refines_andThen [inv_intros]:
  assumes "refines m" "\<And>x. refines (f x)"
  shows "refines (andThen m f)"
proof (rule refinesI)
  fix db
  have "wp (f x) (\<lambda>_. simulates db) (\<lambda>_. simulates db) db'" if "simulates db db'" for x db'
    using assms(2) [of x] that unfolding refines_def
    by (blast intro: wp_mono simulates_trans)
  then show "wp (andThen m f) (\<lambda>_. simulates db) (\<lambda>_. simulates db) db"
    using assms(1) unfolding refines_def wp_andThen by (blast intro: wp_mono)
qed

lemma refines_basic [inv_intros]:
  "refines (ret x)" "refines (raise e)" "refines (gets h)" "refines (ensure b e)" "refines (fetch l e)"
  by (auto simp: refines_def wp_simps)

lemma refines_modify_other [inv_intros]:
  "(\<And>db. protected_services (h db) = protected_services db) \<Longrightarrow> refines (modify h)"
  by (auto simp: refines_def wp_simps simulates_same)

lemma set_job_services [simp]: "protected_services (set_job k g db) = protected_services db"
  by (simp add: set_job_def)

lemma refines_record_event [inv_intros]: "refines (record_event now actor ac tt ti out ip md)"
  by (auto simp: refines_def wp_simps simulates_same)

lemma refines_register_dispatch [inv_intros]: "refines (register_dispatch k)"
  by (auto simp: refines_def wp_simps register_dispatch_def run_simps simulates_same)

lemma refines_mark_applying [inv_intros]: "refines (mark_applying now k)"
  by (rule refinesI)
    (auto simp: mark_applying_def load_defs wp_simps simulates_same view_of_def
      dest!: target_serviceD(2)
      intro!: simulates_frame [OF _ simulates_set_service] r_into_rtranclp spec_step.intros)

lemma refines_mark_failed [inv_intros]: "refines (mark_failed now k e)"
  by (rule refinesI)
    (auto simp: mark_failed_def load_defs wp_simps simulates_same view_of_def
      dest!: target_serviceD(2)
      intro!: simulates_frame [OF _ simulates_set_service] r_into_rtranclp spec_step.intros)

lemma refines_mark_active [inv_intros]: "refines (mark_active now k)"
  by (rule refinesI)
    (auto simp: mark_active_def load_defs wp_simps simulates_same view_of_def superseded_def
      dest!: target_serviceD(2)
      intro!: simulates_frame [OF _ simulates_set_service] r_into_rtranclp spec_step.intros)

lemma simulates_frame_simps [simp]:
  "simulates db (snd (register_dispatch k db')) = simulates db db'"
  "simulates db (snd (record_event now actor ac tt ti out ip md db')) = simulates db db'"
  by (auto intro: simulates_frame [rotated] simp: register_dispatch_def run_simps)

lemma simulates_queued:
  assumes "protected_services db' = protected_services db"
    "\<And>s. get_service_row db i = Some s \<Longrightarrow> sv_apply_status s \<in>
      {ApplyStatus_pending, ApplyStatus_failed, ApplyStatus_queued}"
  shows "simulates db (set_service i
    (\<lambda>s. s\<lparr>sv_apply_status := ApplyStatus_queued, sv_updated_at := now\<rparr>) db')"
proof (rule simulates_trans)
  show "simulates db db'" using assms(1) by (rule simulates_same)
  show "simulates db' (set_service i
      (\<lambda>s. s\<lparr>sv_apply_status := ApplyStatus_queued, sv_updated_at := now\<rparr>) db')"
    using assms
    by (intro simulates_set_service)
      (force simp: view_of_def get_service_row_def intro: r_into_rtranclp spec_step.intros)+
qed

lemma refines_enqueue [inv_intros]: "refines (enqueue_service_update k now i tr)"
  by (rule refinesI)
    (auto simp: enqueue_service_update_def insert_or_get_job_def job_for_target_version_def
      one_or_none_def load_defs wp_simps simulates_same
      intro!: simulates_queued split: list.splits)

lemma refines_retry [inv_intros]: "refines (retry k now i actor)"
  by (rule refinesI)
    (auto simp: retry_def current_version_job_for_update_def one_or_none_def load_defs wp_simps
      simulates_same intro!: simulates_queued split: list.splits)

section \<open>What the worker's marks do\<close>

text \<open>A claimed job of the current version can always be completed.\<close>

lemma job_service:
  assumes "apply_inv db" "get_job db k = Some j" "jb_target_id j \<noteq> None"
  obtains s where "Option.bind (jb_target_id j) (get_service_row db) = Some s" "jb_version j \<le> sv_version s"
proof -
  obtain i where i: "jb_target_id j = Some i" using assms(3) by blast
  obtain s where s: "s \<in> set (protected_services db)" "sv_id s = i" "jb_version j \<le> sv_version s"
    using assms(1) apply_okD(5) [OF _ get_jobD(1) [OF assms(2)] i] by (auto simp: apply_inv_def)
  have "get_service_row db i = Some s"
    using row_distinct [of sv_id "protected_services db" s] assms(1) s
    by (simp add: apply_inv_def get_service_row_def apply_okD(1))
  then show thesis using that i s(3) by simp
qed

lemma current_job_status:
  assumes "apply_inv db" "get_job db k = Some j" "Option.bind (jb_target_id j) (get_service_row db) = Some s"
    "\<not> superseded s j"
  shows "expected_jobs (sv_apply_status s) = [jb_status j]"
proof -
  have ok: "apply_ok (protected_services db) (agent_jobs db)" using assms(1) by (simp add: apply_inv_def)
  have "jb_target_type j = SERVICE_TARGET_TYPE"
    using shape_targetD [OF apply_okD(3) [OF ok get_jobD(1) [OF assms(2)]]] target_serviceD(1) [OF assms(3)] .
  then have "version_jobs (agent_jobs db) (sv_id s) (sv_version s) = [j]"
    using version_jobs_single [OF apply_okD(4) [OF ok] get_jobD(1) [OF assms(2)]]
      target_serviceD(1) [OF assms(3)] assms(4) by (simp add: superseded_def)
  then show ?thesis
    using apply_okD(7) [OF ok target_serviceD(3) [OF assms(3)]] by simp
qed

lemma expected_jobs_single [simp]:
  "expected_jobs st = [JobStatus_applying] \<longleftrightarrow> st = ApplyStatus_applying"
  "expected_jobs st = [JobStatus_queued] \<longleftrightarrow> st = ApplyStatus_queued"
  "expected_jobs st = [JobStatus_failed] \<longleftrightarrow> st = ApplyStatus_failed"
  "expected_jobs st = [JobStatus_succeeded] \<longleftrightarrow> st = ApplyStatus_active"
  "expected_jobs st \<noteq> [JobStatus_superseded]"
  by (cases st; simp add: expected_jobs_def)+

lemma version_ok_advances:
  "version_ok s \<Longrightarrow> sv_apply_status s \<noteq> ApplyStatus_active \<Longrightarrow>
   (case sv_active_version s of None \<Rightarrow> -1 | Some v \<Rightarrow> v) < sv_version s"
  by (auto simp: version_ok_def split: option.splits)

lemma mark_active_completes:
  assumes inv: "apply_inv db" and j: "get_job db k = Some j" "jb_target_id j = Some i"
    "jb_status j = JobStatus_applying" and s: "get_service_row db i = Some s"
    and cur: "jb_version j = sv_version s"
  shows "wp (mark_active now k)
    (\<lambda>_ db'. service_view db' i = Some (sv_version s, Some (sv_version s), ApplyStatus_active) \<and>
       map_option jb_status (get_job db' k) = Some JobStatus_succeeded) (\<lambda>_ _. False) db"
proof -
  have b: "Option.bind (jb_target_id j) (get_service_row db) = Some s" using j(2) s by simp
  have st: "sv_apply_status s = ApplyStatus_applying"
    using current_job_status [OF inv j(1) b] j(3) cur by (simp add: superseded_def)
  have "version_ok s" using inv get_serviceD(1) [OF s] by (rule apply_inv_version_ok)
  then show ?thesis
    using j s st cur get_serviceD(2) [OF s] version_ok_advances [of s]
    by (auto simp: mark_active_def load_defs wp_simps is_terminal_def superseded_def
        service_view_def view_of_def table_simps)
qed

lemma mark_failed_completes:
  assumes inv: "apply_inv db" and j: "get_job db k = Some j" "jb_target_id j = Some i"
    "jb_status j = JobStatus_applying" and s: "get_service_row db i = Some s"
    and cur: "jb_version j = sv_version s"
  shows "wp (mark_failed now k e)
    (\<lambda>_ db'. service_view db' i = Some (sv_version s, sv_active_version s, ApplyStatus_failed) \<and>
       map_option jb_status (get_job db' k) = Some JobStatus_failed) (\<lambda>_ _. False) db"
proof -
  have b: "Option.bind (jb_target_id j) (get_service_row db) = Some s" using j(2) s by simp
  have st: "sv_apply_status s = ApplyStatus_applying"
    using current_job_status [OF inv j(1) b] j(3) cur by (simp add: superseded_def)
  then show ?thesis
    using j s cur get_serviceD(2) [OF s]
    by (auto simp: mark_failed_def load_defs wp_simps is_terminal_def superseded_def
        service_view_def view_of_def table_simps)
qed

text \<open>A job of an older version is retired and touches no service.\<close>

lemma mark_stale_supersedes:
  assumes "get_job db k = Some j" "jb_target_id j = Some i" "\<not> is_terminal (jb_status j)"
    "get_service_row db i = Some s" "jb_version j \<noteq> sv_version s"
  shows "mark_applying now k db = (Inr (), snd (mark_superseded now k db))"
    "mark_active now k db = (Inr (), snd (mark_superseded now k db))"
    "mark_failed now k e db = (Inr (), snd (mark_superseded now k db))"
  using assms
  by (simp_all add: mark_applying_def mark_active_def mark_failed_def load_defs superseded_def run_simps)

section \<open>Properties\<close>

lemma sample_apply:
  "apply_inv sample_db" "apply_inv (sample_at ApplyStatus_failed JobStatus_failed)"
  "apply_inv (sample_at ApplyStatus_applying JobStatus_applying)"
  by (auto simp: apply_inv_def apply_ok_def sample_defs job_shape_def SERVICE_TARGET_TYPE_def
      version_jobs_def version_ok_def expected_jobs_def)

lemma sample_at_rows:
  "get_service_row (sample_at st js) 30 = Some (sample_service\<lparr>sv_apply_status := st\<rparr>)"
  "get_job (sample_at st js) 40 = Some (sample_job\<lparr>jb_status := js\<rparr>)"
  by (simp_all add: sample_defs get_service_row_def get_job_def table_simps)

text \<open>
  C6 Every operation on the apply state of a service is a sequence of steps of
  the abstract machine \<open>spec_step\<close> (change, enqueue, claim, activate, fail) on
  each service that is there, whether the operation returns or raises.
\<close>

theorem apply_operations_refine:
  "refines (enqueue_service_update k now i tr) \<and> refines (mark_applying now k) \<and>
   refines (mark_active now k) \<and> refines (mark_failed now k e) \<and> refines (retry k now i actor)"
  by (intro conjI refines_enqueue refines_mark_applying refines_mark_active refines_mark_failed refines_retry)

lemma get_service_frames [simp]:
  "get_service_row (snd (register_dispatch k db)) = get_service_row db"
  "get_service_row (snd (record_event now actor ac tt ti out ip md db)) = get_service_row db"
  "get_service_row (db\<lparr>agent_jobs := js\<rparr>) = get_service_row db"
  "get_service_row (set_job k g db) = get_service_row db"
  by (rule ext, simp add: get_service_row_def register_dispatch_def run_simps set_job_def)+

lemma failed_version_job:
  assumes "apply_inv db" "get_service_row db i = Some s" "sv_apply_status s = ApplyStatus_failed"
  obtains j where "jobs_for_target_version db i (sv_version s) = [j]"
proof -
  have "map jb_status (version_jobs (agent_jobs db) i (sv_version s)) = [JobStatus_failed]"
    using assms get_serviceD [OF assms(2)] apply_okD(7) [of "protected_services db" "agent_jobs db" s]
    by (simp add: apply_inv_def expected_jobs_def)
  then show thesis using that by (auto simp: jobs_for_version_jobs)
qed

lemma retry_failed:
  assumes "apply_inv db" "get_service_row db i = Some s" "sv_apply_status s = ApplyStatus_failed"
  shows "wp (retry k now i actor)
     (\<lambda>_ db'. service_view db' i = Some (sv_version s, sv_active_version s, ApplyStatus_queued))
     (\<lambda>_ _. False) db"
proof -
  obtain j where "jobs_for_target_version db i (sv_version s) = [j]" by (rule failed_version_job [OF assms])
  then show ?thesis
    using assms(2,3) get_serviceD(2) [OF assms(2)]
    by (auto simp: retry_def current_version_job_for_update_def one_or_none_def load_defs wp_simps
        service_view_def view_of_def table_simps)
qed

text \<open>
  C29 Retry is for failed services only.  On any other service it raises
  \<open>NotFailedError\<close> and changes nothing.  On a failed one it returns a job, the
  service is queued at the version it had, and the ledger holds exactly one job
  for that version, queued.
\<close>

theorem retry_requeues_failed:
  assumes "apply_inv db" "get_service_row db i = Some s"
  shows "(sv_apply_status s \<noteq> ApplyStatus_failed \<longrightarrow> retry k now i actor db = (Inl NotFailedError, db)) \<and>
    (sv_apply_status s = ApplyStatus_failed \<longrightarrow>
      (\<exists>j db'. retry k now i actor db = (Inr j, db') \<and>
        service_view db' i = Some (sv_version s, sv_active_version s, ApplyStatus_queued) \<and>
        map jb_status (version_jobs (agent_jobs db') i (sv_version s)) = [JobStatus_queued]))"
proof (intro conjI impI)
  assume "sv_apply_status s \<noteq> ApplyStatus_failed"
  then show "retry k now i actor db = (Inl NotFailedError, db)"
    using assms(2) by (simp add: retry_def load_defs run_simps)
next
  assume failed: "sv_apply_status s = ApplyStatus_failed"
  obtain r db' where run: "retry k now i actor db = (r, db')" by fastforce
  obtain j where r: "r = Inr j"
    using retry_failed [OF assms failed, of k now actor] run by (cases r) (auto simp: wp_def)
  note ret = run [unfolded r]
  have inv: "apply_inv db'"
    by (rule wp_okD [OF keepsD [OF keeps_retry assms(1)] ret])
  have view: "service_view db' i = Some (sv_version s, sv_active_version s, ApplyStatus_queued)"
    by (rule wp_okD [OF retry_failed [OF assms failed] ret])
  then obtain s' where s': "get_service_row db' i = Some s'" "view_of s' = (sv_version s, sv_active_version s, ApplyStatus_queued)"
    by (auto simp: service_view_def)
  have "map jb_status (version_jobs (agent_jobs db') i (sv_version s)) = [JobStatus_queued]"
    using apply_okD(7) [of "protected_services db'" "agent_jobs db'" s'] get_serviceD [OF s'(1)] s'(2)
      inv by (simp add: apply_inv_def view_of_def expected_jobs_def)
  then show "\<exists>j db'. retry k now i actor db = (Inr j, db') \<and>
        service_view db' i = Some (sv_version s, sv_active_version s, ApplyStatus_queued) \<and>
        map jb_status (version_jobs (agent_jobs db') i (sv_version s)) = [JobStatus_queued]"
    using ret view by (intro exI conjI)
qed

theorem retry_requeues_failed_witness:
  "\<exists>j db'. retry 99 5 30 None (sample_at ApplyStatus_failed JobStatus_failed) = (Inr j, db') \<and>
     service_view db' 30 = Some (1, None, ApplyStatus_queued) \<and>
     map jb_status (version_jobs (agent_jobs db') 30 1) = [JobStatus_queued]"
  using retry_requeues_failed [OF sample_apply(2) sample_at_rows(1), of 99 5 None]
  by (simp add: sample_service_def)

end
