(* ===== verification/JobLifecycle.thy ===== *)
theory JobLifecycle
  imports ApplyJobs ErrorScrub PyFloat
begin

text \<open>
  The three lifecycles behind the worker's job ledger,
  \<open>app/worker/feed_jobs.py\<close>: service updates, feed syncs and global-deny
  applies.  Each has the operations of the protocol \<open>JobLifecycle\<close>: claim,
  succeed, fail and recover.  \<open>job_lifecycle\<close> is that protocol as a contract;
  it is interpreted on all three.  A claim is one step on the stored rows: the
  copy of the job that the session loaded before it took the row lock is taken to
  be current.
\<close>

definition ORPHAN_ERROR :: string where
  "ORPHAN_ERROR = ''worker restarted mid-apply''"

definition MAX_RECOVERY_ATTEMPTS :: int where
  "MAX_RECOVERY_ATTEMPTS = 3"

section \<open>Service updates\<close>

definition service_claim :: "timestamp \<Rightarrow> agent_job \<Rightarrow> bool dbprog" where
  "service_claim now job =
     andThen (mark_applying now (jb_id job)) (\<lambda>_.
     gets (\<lambda>db. case get_job db (jb_id job) of
       None \<Rightarrow> False | Some claimed \<Rightarrow> jb_status claimed = JobStatus_applying))"

definition service_succeed :: "timestamp \<Rightarrow> agent_job \<Rightarrow> FeedSyncStatus option \<Rightarrow> unit dbprog" where
  "service_succeed now job outcome = mark_active now (jb_id job)"

definition service_fail :: "timestamp \<Rightarrow> agent_job \<Rightarrow> string \<Rightarrow> unit dbprog" where
  "service_fail now job error = mark_failed now (jb_id job) error"

definition service_recover :: "uuid \<Rightarrow> timestamp \<Rightarrow> agent_job \<Rightarrow> unit dbprog" where
  "service_recover new_job_id now job =
     andThen (mark_failed now (jb_id job) ORPHAN_ERROR) (\<lambda>_.
     andThen (gets (\<lambda>db. Option.bind (jb_target_id job) (get_service_row db))) (\<lambda>service.
     case service of
       None \<Rightarrow> ret ()
     | Some s \<Rightarrow> andThen (retry new_job_id now (sv_id s) None) (\<lambda>_. ret ())))"

section \<open>Feed syncs\<close>

text \<open>\<open>int((finished_at - started_at).total_seconds() * 1000)\<close> in floats.\<close>

definition duration_ms :: "timestamp option \<Rightarrow> timestamp \<Rightarrow> int option" where
  "duration_ms started_at finished_at =
     (case started_at of
        None \<Rightarrow> None
      | Some t \<Rightarrow> Some (max 0 (py_int (fl (fl (of_int (finished_at - t) / 1000000) * 1000)))))"

definition locked_run :: "db \<Rightarrow> uuid option \<Rightarrow> feed_sync_run option" where
  "locked_run db run_id = Option.bind run_id (get_run db)"

definition finish_noop :: "timestamp \<Rightarrow> agent_job \<Rightarrow> feed_sync_run option \<Rightarrow> unit dbprog" where
  "finish_noop now job run =
     andThen (modify (set_job (jb_id job) (\<lambda>j. j\<lparr>jb_status := JobStatus_succeeded,
       jb_error := None, jb_finished_at := Some now\<rparr>))) (\<lambda>_.
     case run of
       None \<Rightarrow> ret ()
     | Some r \<Rightarrow> modify (set_run (fr_id r) (\<lambda>x. x\<lparr>fr_status := FeedSync_success, fr_error := None,
         fr_finished_at := Some now, fr_duration_ms := duration_ms (fr_started_at x) now\<rparr>)))"

definition source_gone :: "threat_feed_source option \<Rightarrow> bool" where
  "source_gone source = (case source of None \<Rightarrow> True | Some s \<Rightarrow> fs_deleted_at s \<noteq> None)"

definition feed_claim :: "timestamp \<Rightarrow> agent_job \<Rightarrow> bool dbprog" where
  "feed_claim now job =
     andThen (gets (\<lambda>db. get_job db (jb_id job))) (\<lambda>found.
     case found of None \<Rightarrow> ret False | Some locked_job \<Rightarrow>
     if is_terminal (jb_status locked_job) then ret False
     else if jb_status locked_job \<noteq> JobStatus_queued then ret False
     else
       andThen (gets (\<lambda>db. locked_run db (jb_feed_sync_run_id locked_job))) (\<lambda>run.
       case run of
         None \<Rightarrow> andThen (finish_noop now locked_job None) (\<lambda>_. ret False)
       | Some r \<Rightarrow>
           andThen (gets (\<lambda>db. get_source db (fr_feed_source_id r))) (\<lambda>source.
           if source_gone source
           then andThen (finish_noop now locked_job (Some r)) (\<lambda>_. ret False)
           else if fr_status r \<noteq> FeedSync_queued then ret False
           else
             andThen (modify (set_job (jb_id locked_job) (\<lambda>j. j\<lparr>jb_status := JobStatus_applying,
               jb_error := None, jb_started_at := Some now, jb_attempts := jb_attempts j + 1\<rparr>))) (\<lambda>_.
             andThen (modify (set_run (fr_id r) (\<lambda>x. x\<lparr>fr_status := FeedSync_running,
               fr_error := None, fr_started_at := Some now, fr_finished_at := None,
               fr_duration_ms := None\<rparr>))) (\<lambda>_.
             ret True)))))"

definition finish_source ::
  "timestamp \<Rightarrow> FeedSyncStatus \<Rightarrow> string option \<Rightarrow> threat_feed_source \<Rightarrow> threat_feed_source" where
  "finish_source now status error s = s\<lparr>fs_last_status := Some status, fs_last_error := error,
     fs_last_sync_at := Some now, fs_next_sync_at := Some (now + seconds (fs_sync_interval_seconds s))\<rparr>"

definition finish_run ::
  "timestamp \<Rightarrow> FeedSyncStatus \<Rightarrow> string option \<Rightarrow> feed_sync_run \<Rightarrow> feed_sync_run" where
  "finish_run now status error r = r\<lparr>fr_status := status, fr_error := error,
     fr_finished_at := Some now, fr_duration_ms := duration_ms (fr_started_at r) now\<rparr>"

definition feed_succeed :: "timestamp \<Rightarrow> agent_job \<Rightarrow> FeedSyncStatus option \<Rightarrow> unit dbprog" where
  "feed_succeed now job outcome =
     andThen (gets (\<lambda>db. get_job db (jb_id job))) (\<lambda>found.
     case found of None \<Rightarrow> ret () | Some locked_job \<Rightarrow>
     if is_terminal (jb_status locked_job) then ret ()
     else if jb_status locked_job \<noteq> JobStatus_applying then ret ()
     else
       andThen (gets (\<lambda>db. locked_run db (jb_feed_sync_run_id locked_job))) (\<lambda>run.
       case run of
         None \<Rightarrow> finish_noop now locked_job None
       | Some r \<Rightarrow>
           andThen (gets (\<lambda>db. get_source db (fr_feed_source_id r))) (\<lambda>source.
           if source_gone source then finish_noop now locked_job (Some r)
           else if fr_status r \<noteq> FeedSync_running then ret ()
           else
             let final_status = (case outcome of None \<Rightarrow> FeedSync_success | Some st \<Rightarrow> st) in
             andThen (ensure (final_status \<in> {FeedSync_success, FeedSync_partial})
               (ValueError ''Feed success outcome must be success or partial'')) (\<lambda>_.
             andThen (modify (set_job (jb_id locked_job) (\<lambda>j. j\<lparr>jb_status := JobStatus_succeeded,
               jb_error := None, jb_finished_at := Some now\<rparr>))) (\<lambda>_.
             andThen (modify (set_run (fr_id r) (finish_run now final_status None))) (\<lambda>_.
             modify (set_source (fr_feed_source_id r) (finish_source now final_status None))))))))"

definition feed_fail :: "timestamp \<Rightarrow> agent_job \<Rightarrow> string \<Rightarrow> unit dbprog" where
  "feed_fail now job error =
     andThen (gets (\<lambda>db. get_job db (jb_id job))) (\<lambda>found.
     case found of None \<Rightarrow> ret () | Some locked_job \<Rightarrow>
     if is_terminal (jb_status locked_job) then ret ()
     else if jb_status locked_job \<noteq> JobStatus_applying then ret ()
     else
       andThen (gets (\<lambda>db. locked_run db (jb_feed_sync_run_id locked_job))) (\<lambda>run.
       case run of
         None \<Rightarrow> finish_noop now locked_job None
       | Some r \<Rightarrow>
           andThen (gets (\<lambda>db. get_source db (fr_feed_source_id r))) (\<lambda>source.
           if source_gone source then finish_noop now locked_job (Some r)
           else if fr_status r \<noteq> FeedSync_running then ret ()
           else
             let safe_error = scrub_error error in
             andThen (modify (set_job (jb_id locked_job) (\<lambda>j. j\<lparr>jb_status := JobStatus_failed,
               jb_error := Some safe_error, jb_finished_at := Some now\<rparr>))) (\<lambda>_.
             andThen (modify (set_run (fr_id r) (finish_run now FeedSync_failed (Some safe_error)))) (\<lambda>_.
             modify (set_source (fr_feed_source_id r)
               (finish_source now FeedSync_failed (Some safe_error))))))))"

definition feed_recover :: "timestamp \<Rightarrow> agent_job \<Rightarrow> unit dbprog" where
  "feed_recover now job =
     andThen (feed_fail now job ORPHAN_ERROR) (\<lambda>_.
     andThen (gets (\<lambda>db. get_job db (jb_id job))) (\<lambda>found.
     case found of None \<Rightarrow> ret () | Some locked_job \<Rightarrow>
     if jb_status locked_job \<noteq> JobStatus_failed \<or> MAX_RECOVERY_ATTEMPTS \<le> jb_attempts locked_job
     then ret ()
     else
       andThen (gets (\<lambda>db. locked_run db (jb_feed_sync_run_id locked_job))) (\<lambda>run.
       case run of None \<Rightarrow> ret () | Some r \<Rightarrow>
         andThen (gets (\<lambda>db. get_source db (fr_feed_source_id r))) (\<lambda>source.
         if source_gone source then ret ()
         else
           andThen (modify (set_job (jb_id locked_job) requeue_job)) (\<lambda>_.
           modify (set_run (fr_id r) (\<lambda>x. x\<lparr>fr_status := FeedSync_queued, fr_error := None,
             fr_started_at := None, fr_finished_at := None, fr_duration_ms := None\<rparr>)))))))"

section \<open>Global-deny applies\<close>

definition deny_claim :: "timestamp \<Rightarrow> agent_job \<Rightarrow> bool dbprog" where
  "deny_claim now job =
     andThen (gets (\<lambda>db. get_job db (jb_id job))) (\<lambda>found.
     case found of None \<Rightarrow> ret False | Some locked_job \<Rightarrow>
     if is_terminal (jb_status locked_job) \<or> jb_status locked_job \<noteq> JobStatus_queued then ret False
     else
       andThen (modify (set_job (jb_id locked_job) (\<lambda>j. j\<lparr>jb_status := JobStatus_applying,
         jb_error := None, jb_started_at := Some now, jb_attempts := jb_attempts j + 1\<rparr>))) (\<lambda>_.
       ret True))"

definition deny_succeed :: "timestamp \<Rightarrow> agent_job \<Rightarrow> FeedSyncStatus option \<Rightarrow> unit dbprog" where
  "deny_succeed now job outcome =
     andThen (gets (\<lambda>db. get_job db (jb_id job))) (\<lambda>found.
     case found of None \<Rightarrow> ret () | Some locked_job \<Rightarrow>
     if is_terminal (jb_status locked_job) then ret ()
     else if jb_status locked_job \<noteq> JobStatus_applying then ret ()
     else modify (set_job (jb_id locked_job) (\<lambda>j. j\<lparr>jb_status := JobStatus_succeeded,
       jb_error := None, jb_finished_at := Some now\<rparr>)))"

definition deny_fail :: "timestamp \<Rightarrow> agent_job \<Rightarrow> string \<Rightarrow> unit dbprog" where
  "deny_fail now job error =
     andThen (gets (\<lambda>db. get_job db (jb_id job))) (\<lambda>found.
     case found of None \<Rightarrow> ret () | Some locked_job \<Rightarrow>
     if is_terminal (jb_status locked_job) then ret ()
     else if jb_status locked_job \<noteq> JobStatus_applying then ret ()
     else modify (set_job (jb_id locked_job) (\<lambda>j. j\<lparr>jb_status := JobStatus_failed,
       jb_error := Some (scrub_error error), jb_finished_at := Some now\<rparr>)))"

definition deny_recover :: "timestamp \<Rightarrow> agent_job \<Rightarrow> unit dbprog" where
  "deny_recover now job =
     andThen (deny_fail now job ORPHAN_ERROR) (\<lambda>_.
     andThen (gets (\<lambda>db. get_job db (jb_id job))) (\<lambda>found.
     case found of None \<Rightarrow> ret () | Some locked_job \<Rightarrow>
     if jb_status locked_job \<noteq> JobStatus_failed \<or> MAX_RECOVERY_ATTEMPTS \<le> jb_attempts locked_job
     then ret ()
     else modify (set_job (jb_id locked_job) requeue_job)))"

section \<open>JOB\_LIFECYCLES\<close>

definition lifecycle_claim :: "timestamp \<Rightarrow> agent_job \<Rightarrow> bool dbprog" where
  "lifecycle_claim now job =
     (case jb_job_type job of
        JobType_service_update \<Rightarrow> service_claim now job
      | JobType_feed_sync \<Rightarrow> feed_claim now job
      | JobType_global_deny_apply \<Rightarrow> deny_claim now job)"

definition lifecycle_succeed :: "timestamp \<Rightarrow> agent_job \<Rightarrow> FeedSyncStatus option \<Rightarrow> unit dbprog" where
  "lifecycle_succeed now job outcome =
     (case jb_job_type job of
        JobType_service_update \<Rightarrow> service_succeed now job outcome
      | JobType_feed_sync \<Rightarrow> feed_succeed now job outcome
      | JobType_global_deny_apply \<Rightarrow> deny_succeed now job outcome)"

definition lifecycle_fail :: "timestamp \<Rightarrow> agent_job \<Rightarrow> string \<Rightarrow> unit dbprog" where
  "lifecycle_fail now job error =
     (case jb_job_type job of
        JobType_service_update \<Rightarrow> service_fail now job error
      | JobType_feed_sync \<Rightarrow> feed_fail now job error
      | JobType_global_deny_apply \<Rightarrow> deny_fail now job error)"

definition lifecycle_recover :: "uuid \<Rightarrow> timestamp \<Rightarrow> agent_job \<Rightarrow> unit dbprog" where
  "lifecycle_recover new_job_id now job =
     (case jb_job_type job of
        JobType_service_update \<Rightarrow> service_recover new_job_id now job
      | JobType_feed_sync \<Rightarrow> feed_recover now job
      | JobType_global_deny_apply \<Rightarrow> deny_recover now job)"

section \<open>The invariant of the ledger\<close>

text \<open>A feed-sync job and its run move together, and a run has one job.\<close>

definition feed_coupled :: "JobStatus \<Rightarrow> FeedSyncStatus \<Rightarrow> bool" where
  "feed_coupled job run =
     (case job of
        JobStatus_queued \<Rightarrow> run = FeedSync_queued
      | JobStatus_applying \<Rightarrow> run = FeedSync_running
      | JobStatus_succeeded \<Rightarrow> run = FeedSync_success \<or> run = FeedSync_partial
      | JobStatus_failed \<Rightarrow> run = FeedSync_failed
      | JobStatus_superseded \<Rightarrow> False)"

definition feed_inv :: "db \<Rightarrow> bool" where
  "feed_inv db \<longleftrightarrow>
     distinct (map fr_id (feed_sync_runs db)) \<and>
     (\<forall>j\<in>set (agent_jobs db). \<forall>r\<in>set (feed_sync_runs db).
        jb_feed_sync_run_id j = Some (fr_id r) \<longrightarrow> feed_coupled (jb_status j) (fr_status r)) \<and>
     (\<forall>j\<in>set (agent_jobs db). \<forall>j'\<in>set (agent_jobs db).
        jb_feed_sync_run_id j = jb_feed_sync_run_id j' \<longrightarrow> jb_feed_sync_run_id j \<noteq> None \<longrightarrow>
        jb_id j = jb_id j')"

definition worker_inv :: "db \<Rightarrow> bool" where
  "worker_inv db \<longleftrightarrow> apply_inv db \<and> feed_inv db"

text \<open>The row of the job a lifecycle is called with has the type it was loaded with.\<close>

definition typed :: "JobType \<Rightarrow> db \<Rightarrow> agent_job \<Rightarrow> bool" where
  "typed t db job \<longleftrightarrow> (\<forall>j. get_job db (jb_id job) = Some j \<longrightarrow> jb_job_type j = t)"

section \<open>Lemmas on the invariant\<close>

lemma worker_invD: "worker_inv db \<Longrightarrow> apply_inv db" "worker_inv db \<Longrightarrow> feed_inv db"
  by (simp_all add: worker_inv_def)

lemma set_tables:
  "agent_jobs (set_job k g db) = update_row jb_id k g (agent_jobs db)"
  "feed_sync_runs (set_job k g db) = feed_sync_runs db"
  "agent_jobs (set_run i f db) = agent_jobs db"
  "feed_sync_runs (set_run i f db) = update_row fr_id i f (feed_sync_runs db)"
  by (simp_all add: set_job_def set_run_def)

lemma feed_invD:
  assumes "feed_inv db"
  shows "distinct (map fr_id (feed_sync_runs db))"
    "j \<in> set (agent_jobs db) \<Longrightarrow> r \<in> set (feed_sync_runs db) \<Longrightarrow>
       jb_feed_sync_run_id j = Some (fr_id r) \<Longrightarrow> feed_coupled (jb_status j) (fr_status r)"
    "j \<in> set (agent_jobs db) \<Longrightarrow> j' \<in> set (agent_jobs db) \<Longrightarrow> jb_feed_sync_run_id j = Some i \<Longrightarrow>
       jb_feed_sync_run_id j' = Some i \<Longrightarrow> jb_id j = jb_id j'"
  using assms unfolding feed_inv_def by (blast, blast, metis option.distinct(1))

lemma feed_invI:
  assumes "distinct (map fr_id (feed_sync_runs db))"
    "\<And>j r. j \<in> set (agent_jobs db) \<Longrightarrow> r \<in> set (feed_sync_runs db) \<Longrightarrow>
       jb_feed_sync_run_id j = Some (fr_id r) \<Longrightarrow> feed_coupled (jb_status j) (fr_status r)"
    "\<And>j j' i. j \<in> set (agent_jobs db) \<Longrightarrow> j' \<in> set (agent_jobs db) \<Longrightarrow> jb_feed_sync_run_id j = Some i \<Longrightarrow>
       jb_feed_sync_run_id j' = Some i \<Longrightarrow> jb_id j = jb_id j'"
  shows "feed_inv db"
  using assms unfolding feed_inv_def by (metis not_None_eq)

lemma feed_run_unique:
  "feed_inv db \<Longrightarrow> x \<in> set (feed_sync_runs db) \<Longrightarrow> y \<in> set (feed_sync_runs db) \<Longrightarrow> fr_id x = fr_id y \<Longrightarrow> x = y"
  using feed_invD(1) by (auto simp: distinct_map inj_on_def)

text \<open>Updating one job leaves the pairing of jobs and runs.\<close>

lemma run_job_unique_update:
  assumes "feed_inv db" "same_job g" "a \<in> set (update_row jb_id k g (agent_jobs db))"
    "b \<in> set (update_row jb_id k g (agent_jobs db))" "jb_feed_sync_run_id a = Some i"
    "jb_feed_sync_run_id b = Some i"
  shows "jb_id a = jb_id b"
proof -
  have "\<exists>a0\<in>set (agent_jobs db). jb_id a0 = jb_id x \<and> jb_feed_sync_run_id a0 = jb_feed_sync_run_id x"
    if "x \<in> set (update_row jb_id k g (agent_jobs db))" for x
    using that assms(2) by (auto simp: same_job_def elim!: in_update_rowE)
  then show ?thesis using assms(3-6) feed_invD(3) [OF assms(1)] by metis
qed

lemma apply_inv_job_unique:
  assumes "apply_inv db" "j \<in> set (agent_jobs db)" "j' \<in> set (agent_jobs db)" "jb_id j = jb_id j'"
  shows "j = j'"
  using assms by (auto simp: apply_inv_def distinct_map inj_on_def dest!: apply_okD(2))

lemma apply_inv_set_other_job:
  assumes "apply_inv db" "get_job db k = Some j" "jb_target_id j = None" "same_job g"
  shows "apply_inv (set_job k g db)"
proof -
  have "apply_ok (protected_services db) (update_row jb_id k g (agent_jobs db))"
    using assms get_jobD [OF assms(2)] by (intro apply_ok_job [where j = j]) (auto simp: apply_inv_def)
  then show ?thesis by (simp add: apply_inv_def set_job_def)
qed

lemma apply_inv_set_run [simp]: "apply_inv (set_run i f db) = apply_inv db"
  by (simp add: apply_inv_def set_run_def)

lemma apply_inv_set_source [simp]: "apply_inv (set_source i f db) = apply_inv db"
  by (simp add: apply_inv_def set_source_def)

lemma feed_inv_set_source [simp]: "feed_inv (set_source i f db) = feed_inv db"
  by (simp add: feed_inv_def set_source_def)

lemma feed_inv_set_service [simp]: "feed_inv (set_service i f db) = feed_inv db"
  by (simp add: feed_inv_def set_service_def)

lemma feed_inv_frame [simp]:
  "feed_inv (db\<lparr>post_commit := xs\<rparr>) = feed_inv db" "feed_inv (db\<lparr>audit_events := es\<rparr>) = feed_inv db"
  "feed_inv (snd (register_dispatch k db)) = feed_inv db"
  by (simp_all add: feed_inv_def register_dispatch_def run_simps)

lemma shape_target_no_run: "job_shape j \<Longrightarrow> jb_target_id j \<noteq> None \<Longrightarrow> jb_feed_sync_run_id j = None"
  by (auto simp: job_shape_def)

lemma shape_run_no_target:
  "job_shape j \<Longrightarrow> jb_job_type j \<noteq> JobType_service_update \<Longrightarrow> jb_target_id j = None"
  by (auto simp: job_shape_def)

lemma apply_inv_shape: "apply_inv db \<Longrightarrow> get_job db k = Some j \<Longrightarrow> job_shape j"
  using get_jobD(1) by (auto simp: apply_inv_def dest: apply_okD(3))

text \<open>A job without a live run moves freely.\<close>

lemma feed_inv_set_job:
  assumes inv: "apply_inv db" "feed_inv db" and j: "get_job db k = Some j" and g: "same_job g"
    and none: "locked_run db (jb_feed_sync_run_id j) = None"
  shows "feed_inv (set_job k g db)"
proof -
  have other: "jb_id r \<noteq> k" if "r \<in> set (agent_jobs db)" "jb_feed_sync_run_id r = Some (fr_id x)"
    "x \<in> set (feed_sync_runs db)" for r x
  proof
    assume "jb_id r = k"
    then have "r = j" using apply_inv_job_unique [OF inv(1) that(1) get_jobD(1) [OF j]] get_jobD(2) [OF j] by simp
    then have "row fr_id (fr_id x) (feed_sync_runs db) = None"
      using none that(2) by (simp add: locked_run_def get_run_def)
    then show False using row_NoneD that(3) by fastforce
  qed
  show ?thesis
  proof (rule feed_invI)
    fix a x assume "a \<in> set (agent_jobs (set_job k g db))" "x \<in> set (feed_sync_runs (set_job k g db))"
      "jb_feed_sync_run_id a = Some (fr_id x)"
    then show "feed_coupled (jb_status a) (fr_status x)"
      using g by (auto simp: set_job_def same_job_def elim!: in_update_rowE
          dest: other intro: feed_invD(2) [OF inv(2)])
  next
    show "distinct (map fr_id (feed_sync_runs (set_job k g db)))"
      using feed_invD(1) [OF inv(2)] by (simp add: set_tables)
  qed (unfold set_tables, rule run_job_unique_update [OF inv(2) g])
qed

text \<open>A job and its run move together.\<close>

lemma feed_inv_step:
  assumes inv: "apply_inv db" "feed_inv db" and j: "get_job db k = Some j" and g: "same_job g"
    and r: "locked_run db (jb_feed_sync_run_id j) = Some r" and f: "\<And>x. fr_id (f x) = fr_id x"
    and c: "feed_coupled (jb_status (g j)) (fr_status (f r))"
  shows "feed_inv (set_run (fr_id r) f (set_job k g db))"
proof -
  have rid: "jb_feed_sync_run_id j = Some (fr_id r)" and rin: "r \<in> set (feed_sync_runs db)"
    using r by (auto simp: locked_run_def get_run_def bind_eq_Some_conv dest!: row_SomeD)
  note runq = feed_run_unique [OF inv(2) _ rin]
  have jobq: "a = j" if "a \<in> set (agent_jobs db)" "jb_id a = k \<or> jb_feed_sync_run_id a = Some (fr_id r)" for a
  proof -
    have "jb_id a = jb_id j"
      using that feed_invD(3) [OF inv(2) that(1) get_jobD(1) [OF j] _ rid] get_jobD(2) [OF j] by auto
    then show ?thesis using apply_inv_job_unique [OF inv(1) that(1) get_jobD(1) [OF j]] by simp
  qed
  have c': "feed_coupled (jb_status a) (fr_status x)"
    if a: "a \<in> set (update_row jb_id k g (agent_jobs db))" "jb_feed_sync_run_id a = Some (fr_id x)"
      and x: "x \<in> set (update_row fr_id (fr_id r) f (feed_sync_runs db))" for a x
    using a(1)
  proof (cases rule: in_update_rowE)
    case (1 a0)
    then have "a0 = j" using jobq by blast
    then have "fr_id x = fr_id r" using 1 a(2) rid g by (simp add: same_job_def)
    then have "x = f r" using x runq f by (auto elim!: in_update_rowE)
    then show ?thesis using c 1 \<open>a0 = j\<close> by simp
  next
    case 2
    then have "fr_id x \<noteq> fr_id r" using jobq [of a] a(2) get_jobD(2) [OF j] by auto
    then have "x \<in> set (feed_sync_runs db)" using x f by (auto elim!: in_update_rowE)
    then show ?thesis using feed_invD(2) [OF inv(2) 2(1) _ a(2)] by simp
  qed
  show ?thesis
  proof (rule feed_invI, unfold set_tables)
    show "distinct (map fr_id (update_row fr_id (fr_id r) f (feed_sync_runs db)))"
      using feed_invD(1) [OF inv(2)] f by (simp add: map_update_row)
  qed (rule c', assumption+, rule run_job_unique_update [OF inv(2) g], assumption+)
qed

section \<open>The lifecycles keep the invariant\<close>

lemma keeps_worker:
  assumes "keeps apply_inv m" "\<And>db. apply_inv db \<Longrightarrow> feed_inv db \<Longrightarrow> wp m (\<lambda>_. feed_inv) (\<lambda>_. feed_inv) db"
  shows "keeps worker_inv m"
proof (rule keepsI)
  fix db assume "worker_inv db"
  then have "apply_inv db" "feed_inv db" by (simp_all add: worker_inv_def)
  then show "wp m (\<lambda>_. worker_inv) (\<lambda>_. worker_inv) db"
    using wp_mono [OF wp_conj [OF keepsD [OF assms(1)] assms(2)]] by (simp add: worker_inv_def)
qed

lemma feed_inv_service_job:
  assumes "apply_inv db" "feed_inv db" "get_job db k = Some j"
    "Option.bind (jb_target_id j) (get_service_row db) = Some s" "same_job g"
  shows "feed_inv (set_job k g db)"
proof (rule feed_inv_set_job [OF assms(1-3,5)])
  have "jb_feed_sync_run_id j = None"
    using shape_target_no_run [OF apply_inv_shape [OF assms(1,3)]] target_serviceD(1) [OF assms(4)] by simp
  then show "locked_run db (jb_feed_sync_run_id j) = None" by (simp add: locked_run_def)
qed

lemma feed_inv_set_job_service [simp]:
  "feed_inv (set_job k g (set_service i f db)) = feed_inv (set_job k g db)"
  by (simp add: feed_inv_def set_job_def set_service_def)

lemma feed_inv_insert_service:
  assumes "feed_inv db" "jb_feed_sync_run_id j = None"
  shows "feed_inv (db\<lparr>agent_jobs := agent_jobs db @ [j]\<rparr>)"
proof (rule feed_invI)
  show "distinct (map fr_id (feed_sync_runs (db\<lparr>agent_jobs := agent_jobs db @ [j]\<rparr>)))"
    using feed_invD(1) [OF assms(1)] by simp
qed (use assms in \<open>auto dest: feed_invD(2) feed_invD(3)\<close>)

lemma worker_mark_applying [inv_intros]: "keeps worker_inv (mark_applying now k)"
  by (rule keeps_worker [OF keeps_mark_applying])
    (auto simp: mark_applying_def load_defs wp_simps same_job_def intro: feed_inv_service_job)

lemma worker_mark_active [inv_intros]: "keeps worker_inv (mark_active now k)"
  by (rule keeps_worker [OF keeps_mark_active])
    (auto simp: mark_active_def load_defs wp_simps same_job_def intro: feed_inv_service_job)

lemma worker_mark_failed [inv_intros]: "keeps worker_inv (mark_failed now k e)"
  by (rule keeps_worker [OF keeps_mark_failed])
    (auto simp: mark_failed_def load_defs wp_simps same_job_def intro: feed_inv_service_job)

lemma feed_inv_record_event [simp]:
  "feed_inv (snd (record_event now actor ac tt ti out ip md db)) = feed_inv db"
  by (simp add: feed_inv_def)

lemma feed_inv_version_job:
  assumes "apply_inv db" "feed_inv db" "version_jobs (agent_jobs db) i v = [j]" "same_job g"
  shows "feed_inv (set_job (jb_id j) g db)"
proof (rule feed_inv_set_job [OF assms(1,2) _ assms(4)])
  have j: "j \<in> set (agent_jobs db)" "jb_target_id j = Some i"
    using assms(3) by (auto simp: version_jobs_def dest!: arg_cong [where f = set])
  show job: "get_job db (jb_id j) = Some j"
    using assms(1) j(1) row_distinct [of jb_id "agent_jobs db" j]
    by (simp add: apply_inv_def get_job_def apply_okD(2))
  show "locked_run db (jb_feed_sync_run_id j) = None"
    using shape_target_no_run [OF apply_inv_shape [OF assms(1) job]] j(2) by (simp add: locked_run_def)
qed

lemma worker_retry [inv_intros]: "keeps worker_inv (retry k now i actor)"
  by (rule keeps_worker [OF keeps_retry])
    (auto simp: retry_def current_version_job_for_update_def one_or_none_def jobs_for_version_jobs
      new_service_job_def load_defs wp_simps same_job_def requeue_job_def
      intro!: feed_inv_insert_service intro: feed_inv_version_job split: list.splits)

text \<open>\<open>ledger_ok\<close>: the invariant, and the job of a lifecycle still has its type.\<close>

definition ledger_ok :: "JobType \<Rightarrow> agent_job \<Rightarrow> db \<Rightarrow> bool" where
  "ledger_ok t job db \<longleftrightarrow> worker_inv db \<and> typed t db job"

lemma typed_simps [simp]:
  "same_job g \<Longrightarrow> typed t (set_job k g db) job = typed t db job"
  "typed t (set_run i f db) job = typed t db job" "typed t (set_source i h db) job = typed t db job"
  "typed t (set_service i h' db) job = typed t db job"
proof -
  assume g: "same_job g"
  then have "get_job (set_job k g db) i = (if i = k then map_option g (get_job db i) else get_job db i)" for i
    by (intro get_job_set_job) (simp add: same_job_def)
  then show "typed t (set_job k g db) job = typed t db job"
    using g by (auto simp: typed_def same_job_def)
qed (simp_all add: typed_def get_job_def set_run_def set_source_def)

lemma ledger_set_job:
  assumes "ledger_ok t job db" "t \<noteq> JobType_service_update" "get_job db (jb_id job) = Some j" "same_job g"
    "locked_run db (jb_feed_sync_run_id j) = None"
  shows "ledger_ok t job (set_job (jb_id j) g db)"
proof -
  have id: "jb_id j = jb_id job" using get_jobD(2) [OF assms(3)] .
  have inv: "apply_inv db" "feed_inv db" and ty: "jb_job_type j = t"
    using assms(1,3) by (auto simp: ledger_ok_def worker_inv_def typed_def)
  have "jb_target_id j = None"
    using shape_run_no_target [OF apply_inv_shape [OF inv(1) assms(3)]] ty assms(2) by simp
  then show ?thesis
    using assms inv apply_inv_set_other_job [OF inv(1) assms(3)] feed_inv_set_job [OF inv assms(3-5)]
    by (simp add: ledger_ok_def worker_inv_def id)
qed

lemma ledger_set_run:
  assumes "ledger_ok t job db" "t \<noteq> JobType_service_update" "get_job db (jb_id job) = Some j" "same_job g"
    "locked_run db (jb_feed_sync_run_id j) = Some r" "\<And>x. fr_id (f x) = fr_id x"
    "feed_coupled (jb_status (g j)) (fr_status (f r))"
  shows "ledger_ok t job (set_run (fr_id r) f (set_job (jb_id j) g db))"
proof -
  have id: "jb_id j = jb_id job" using get_jobD(2) [OF assms(3)] .
  have inv: "apply_inv db" "feed_inv db" and ty: "jb_job_type j = t"
    using assms(1,3) by (auto simp: ledger_ok_def worker_inv_def typed_def)
  have "jb_target_id j = None"
    using shape_run_no_target [OF apply_inv_shape [OF inv(1) assms(3)]] ty assms(2) by simp
  then show ?thesis
    using assms apply_inv_set_other_job [OF inv(1) assms(3)] feed_inv_step [OF inv assms(3-7)]
    by (simp add: ledger_ok_def worker_inv_def id)
qed

lemma ledger_set_source [simp]: "ledger_ok t job (set_source i f db) = ledger_ok t job db"
  by (simp add: ledger_ok_def worker_inv_def)

lemma same_job_updates [simp]:
  "same_job (\<lambda>j. j\<lparr>jb_status := st, jb_error := er, jb_finished_at := fi\<rparr>)"
  "same_job (\<lambda>j. j\<lparr>jb_status := st, jb_error := er, jb_started_at := sa, jb_attempts := jb_attempts j + 1\<rparr>)"
  "same_job requeue_job"
  by (simp_all add: same_job_def requeue_job_def)

lemma get_run_set_job [simp]: "get_run (set_job k g db) = get_run db"
  by (rule ext) (simp add: get_run_def set_job_def)

lemma locked_run_set_job [simp]: "locked_run (set_job k g db) = locked_run db"
  by (rule ext) (simp add: locked_run_def)

lemmas feed_simps = finish_run_def finish_source_def feed_coupled_def

lemma wp_finish_noop:
  assumes "ledger_ok t job db" "t \<noteq> JobType_service_update" "get_job db (jb_id job) = Some j"
    "locked_run db (jb_feed_sync_run_id j) = r"
  shows "wp (finish_noop now j r) (\<lambda>_. ledger_ok t job) E db"
  using assms
  by (auto simp: finish_noop_def wp_simps feed_coupled_def
      intro!: ledger_set_job [OF assms(1-3)] ledger_set_run [OF assms(1-3)])


lemma ledger_feed_claim: "keeps (ledger_ok JobType_feed_sync job) (feed_claim now job)"
  by (rule keepsI)
    (auto simp: feed_claim_def wp_simps feed_coupled_def dest: get_jobD(2)
      intro!: ledger_set_run wp_finish_noop)

lemma ledger_feed_succeed: "keeps (ledger_ok JobType_feed_sync job) (feed_succeed now job outcome)"
  by (rule keepsI)
    (auto simp: feed_succeed_def wp_simps feed_simps Let_def dest: get_jobD(2)
      intro!: ledger_set_run wp_finish_noop)

lemma ledger_feed_fail: "keeps (ledger_ok JobType_feed_sync job) (feed_fail now job e)"
  by (rule keepsI)
    (auto simp: feed_fail_def wp_simps feed_simps Let_def dest: get_jobD(2)
      intro!: ledger_set_run wp_finish_noop)

lemma ledger_feed_recover: "keeps (ledger_ok JobType_feed_sync job) (feed_recover now job)"
  unfolding feed_recover_def
  by (rule keeps_andThen [OF ledger_feed_fail], rule keepsI)
    (auto simp: wp_simps feed_coupled_def requeue_job_def [of j for j] intro!: ledger_set_run)

text \<open>A global-deny job has no run.\<close>

lemma deny_no_run:
  assumes "ledger_ok JobType_global_deny_apply job db" "get_job db (jb_id job) = Some j"
  shows "locked_run db (jb_feed_sync_run_id j) = None"
proof -
  have "job_shape j" "jb_job_type j = JobType_global_deny_apply"
    using assms apply_inv_shape by (auto simp: ledger_ok_def worker_inv_def typed_def)
  then show ?thesis by (auto simp: job_shape_def locked_run_def)
qed

lemma ledger_deny_set_job:
  assumes "ledger_ok JobType_global_deny_apply job db" "get_job db (jb_id job) = Some j" "same_job g"
  shows "ledger_ok JobType_global_deny_apply job (set_job (jb_id j) g db)"
  using ledger_set_job [OF assms(1) _ assms(2,3) deny_no_run [OF assms(1,2)]] by simp

lemma ledger_deny_claim: "keeps (ledger_ok JobType_global_deny_apply job) (deny_claim now job)"
  by (rule keepsI) (auto simp: deny_claim_def wp_simps intro: ledger_deny_set_job)

lemma ledger_deny_succeed: "keeps (ledger_ok JobType_global_deny_apply job) (deny_succeed now job outcome)"
  by (rule keepsI) (auto simp: deny_succeed_def wp_simps intro: ledger_deny_set_job)

lemma ledger_deny_fail: "keeps (ledger_ok JobType_global_deny_apply job) (deny_fail now job e)"
  by (rule keepsI) (auto simp: deny_fail_def wp_simps intro: ledger_deny_set_job)

lemma ledger_deny_recover: "keeps (ledger_ok JobType_global_deny_apply job) (deny_recover now job)"
  unfolding deny_recover_def
  by (rule keeps_andThen [OF ledger_deny_fail], rule keepsI)
    (auto simp: wp_simps intro: ledger_deny_set_job)

lemma typed_insert:
  "typed t db job \<Longrightarrow> jb_job_type j = t \<Longrightarrow> typed t (db\<lparr>agent_jobs := agent_jobs db @ [j]\<rparr>) job"
  by (auto simp: typed_def get_job_def table_simps split: option.splits)

lemma typed_frame [simp]:
  "typed t (snd (register_dispatch k db)) job = typed t db job"
  "typed t (snd (record_event now actor ac tt ti out ip md db)) job = typed t db job"
  "typed t (db\<lparr>post_commit := xs\<rparr>) job = typed t db job"
  by (simp_all add: typed_def get_job_def register_dispatch_def run_simps)

lemma typed_marks:
  "keeps (\<lambda>db. typed t db job) (mark_applying now k)" "keeps (\<lambda>db. typed t db job) (mark_active now k)"
  "keeps (\<lambda>db. typed t db job) (mark_failed now k e)"
  by (rule keepsI, auto simp: mark_applying_def mark_active_def mark_failed_def load_defs wp_simps
      same_job_def)+

lemma typed_retry: "keeps (\<lambda>db. typed JobType_service_update db job) (retry k now i actor)"
  by (rule keepsI)
    (auto simp: retry_def current_version_job_for_update_def one_or_none_def new_service_job_def
      load_defs wp_simps split: list.splits intro: typed_insert)

lemma keeps_conj: "keeps I m \<Longrightarrow> keeps J m \<Longrightarrow> keeps (\<lambda>s. I s \<and> J s) m"
  by (simp add: keeps_iff)

lemma ledger_keepsI:
  "keeps worker_inv m \<Longrightarrow> keeps (\<lambda>db. typed t db job) m \<Longrightarrow> keeps (ledger_ok t job) m"
  using keeps_conj [of worker_inv m "\<lambda>db. typed t db job"] by (simp add: ledger_ok_def [abs_def])

lemma ledger_service_claim: "keeps (ledger_ok JobType_service_update job) (service_claim now job)"
  unfolding service_claim_def
  by (intro keeps_andThen keeps_gets ledger_keepsI worker_mark_applying typed_marks)

lemma ledger_service_succeed:
  "keeps (ledger_ok JobType_service_update job) (service_succeed now job outcome)"
  unfolding service_succeed_def by (intro ledger_keepsI worker_mark_active typed_marks)

lemma ledger_service_fail: "keeps (ledger_ok JobType_service_update job) (service_fail now job e)"
  unfolding service_fail_def by (intro ledger_keepsI worker_mark_failed typed_marks)

lemma ledger_service_recover:
  "keeps (ledger_ok JobType_service_update job) (service_recover new now job)"
  unfolding service_recover_def
  by (intro keeps_andThen keeps_gets keeps_case_option keeps_ret ledger_keepsI
      worker_mark_failed typed_marks worker_retry typed_retry)

section \<open>The protocol of a lifecycle\<close>

text \<open>The effect of a successful claim on the row of its job.\<close>

definition claimed :: "agent_job \<Rightarrow> db \<Rightarrow> db \<Rightarrow> bool" where
  "claimed job db db' \<longleftrightarrow>
     (\<exists>j j'. get_job db (jb_id job) = Some j \<and> jb_status j = JobStatus_queued \<and>
        get_job db' (jb_id job) = Some j' \<and> jb_status j' = JobStatus_applying \<and>
        jb_attempts j' = jb_attempts j + 1)"

definition finished :: "agent_job \<Rightarrow> db \<Rightarrow> bool" where
  "finished job db \<longleftrightarrow> (\<exists>j. get_job db (jb_id job) = Some j \<and> is_terminal (jb_status j))"

locale job_lifecycle =
  fixes kind :: JobType
    and claim :: "timestamp \<Rightarrow> agent_job \<Rightarrow> bool dbprog"
    and succeed :: "timestamp \<Rightarrow> agent_job \<Rightarrow> FeedSyncStatus option \<Rightarrow> unit dbprog"
    and fail :: "timestamp \<Rightarrow> agent_job \<Rightarrow> string \<Rightarrow> unit dbprog"
    and recover :: "uuid \<Rightarrow> timestamp \<Rightarrow> agent_job \<Rightarrow> unit dbprog"
  assumes claim_keeps: "keeps (ledger_ok kind job) (claim now job)"
    and succeed_keeps: "keeps (ledger_ok kind job) (succeed now job outcome)"
    and fail_keeps: "keeps (ledger_ok kind job) (fail now job e)"
    and recover_keeps: "keeps (ledger_ok kind job) (recover new now job)"
    and claim_true: "ledger_ok kind job db \<Longrightarrow>
      wp (claim now job) (\<lambda>b db'. b \<longrightarrow> claimed job db db') (\<lambda>_ _. True) db"
    and finished_claim: "finished job db \<Longrightarrow> claim now job db = (Inr False, db)"
    and finished_succeed: "finished job db \<Longrightarrow> succeed now job outcome db = (Inr (), db)"
    and finished_fail: "finished job db \<Longrightarrow> fail now job e db = (Inr (), db)"
begin

text \<open>A job is claimed at most once: a second claim does not proceed.\<close>

lemma claim_once:
  assumes "ledger_ok kind job db" "claim now job db = (Inr True, db1)" "claim now' job db1 = (Inr b, db2)"
  shows "\<not> b"
proof
  assume b
  have ok1: "ledger_ok kind job db1"
    using wp_okD [OF keepsD [OF claim_keeps assms(1)] assms(2)] .
  have "claimed job db db1" using wp_okD [OF claim_true [OF assms(1)] assms(2)] by simp
  moreover have "claimed job db1 db2" using wp_okD [OF claim_true [OF ok1]] assms(3) \<open>b\<close> by blast
  ultimately show False by (auto simp: claimed_def)
qed

text \<open>Completion after completion changes nothing.\<close>

lemma completion_idempotent:
  assumes "finished job db"
  shows "snd (succeed now job outcome db) = db" "snd (fail now job e db) = db" "snd (claim now job db) = db"
  using finished_succeed [OF assms] finished_fail [OF assms] finished_claim [OF assms] by simp_all

end

lemma get_job_set_same:
  "same_job g \<Longrightarrow> get_job (set_job k g db) k = map_option g (get_job db k)"
  by (subst get_job_set_job) (simp_all add: same_job_def)

lemma get_job_set_run [simp]: "get_job (set_run i f db) = get_job db"
  by (rule ext) (simp add: get_job_def set_run_def)

lemma finished_service:
  assumes "finished job db"
  shows "service_claim now job db = (Inr False, db)" "service_succeed now job outcome db = (Inr (), db)"
    "service_fail now job e db = (Inr (), db)"
  using assms
  by (auto simp: finished_def service_claim_def service_succeed_def service_fail_def mark_applying_def
      mark_active_def mark_failed_def load_defs run_simps is_terminal_def)

lemma finished_feed:
  assumes "finished job db"
  shows "feed_claim now job db = (Inr False, db)" "feed_succeed now job outcome db = (Inr (), db)"
    "feed_fail now job e db = (Inr (), db)"
  using assms
  by (auto simp: finished_def feed_claim_def feed_succeed_def feed_fail_def run_simps)

lemma finished_deny:
  assumes "finished job db"
  shows "deny_claim now job db = (Inr False, db)" "deny_succeed now job outcome db = (Inr (), db)"
    "deny_fail now job e db = (Inr (), db)"
  using assms
  by (auto simp: finished_def deny_claim_def deny_succeed_def deny_fail_def run_simps)

interpretation service_lc: job_lifecycle JobType_service_update service_claim service_succeed
  service_fail service_recover
proof
  fix job :: agent_job and db now
  assume "ledger_ok JobType_service_update job db"
  show "wp (service_claim now job) (\<lambda>b db'. b \<longrightarrow> claimed job db db') (\<lambda>_ _. True) db"
  proof (cases "get_job db (jb_id job)")
    case (Some j)
    then show ?thesis
    proof (cases "Option.bind (jb_target_id j) (get_service_row db)")
      case None
      then show ?thesis using Some
        by (auto simp: service_claim_def mark_applying_def load_defs wp_simps is_terminal_def)
    next
      case s: (Some s)
      have inv: "apply_inv db"
        using \<open>ledger_ok JobType_service_update job db\<close> by (simp add: ledger_ok_def worker_inv_def)
      show ?thesis using Some s current_job_status [OF inv Some s]
        by (auto simp: service_claim_def mark_applying_def load_defs wp_simps is_terminal_def
            claimed_def get_job_set_same same_job_def expected_jobs_def)
    qed
  qed (simp add: service_claim_def mark_applying_def load_defs wp_simps)
qed (blast intro: ledger_service_claim ledger_service_succeed ledger_service_fail ledger_service_recover
    finished_service)+

interpretation feed_lc: job_lifecycle JobType_feed_sync feed_claim feed_succeed feed_fail
  "\<lambda>new. feed_recover"
proof
  fix job :: agent_job and db now
  show "wp (feed_claim now job) (\<lambda>b db'. b \<longrightarrow> claimed job db db') (\<lambda>_ _. True) db"
    by (cases "get_job db (jb_id job)")
      (auto simp: feed_claim_def finish_noop_def wp_simps claimed_def get_job_set_same get_jobD(2))
qed (blast intro: ledger_feed_claim ledger_feed_succeed ledger_feed_fail ledger_feed_recover
    finished_feed)+

interpretation deny_lc: job_lifecycle JobType_global_deny_apply deny_claim deny_succeed deny_fail
  "\<lambda>new. deny_recover"
proof
  fix job :: agent_job and db now
  show "wp (deny_claim now job) (\<lambda>b db'. b \<longrightarrow> claimed job db db') (\<lambda>_ _. True) db"
    by (cases "get_job db (jb_id job)")
      (auto simp: deny_claim_def wp_simps claimed_def get_job_set_same get_jobD(2))
qed (blast intro: ledger_deny_claim ledger_deny_succeed ledger_deny_fail ledger_deny_recover
    finished_deny)+

section \<open>Refinement\<close>

text \<open>The lifecycles take the services through steps of the abstract machine only.\<close>

lemma other_rows_services [simp]:
  "protected_services (set_run i f db) = protected_services db"
  "protected_services (set_source i h db) = protected_services db"
  by (simp_all add: set_run_def set_source_def)

lemma refines_if: "refines m \<Longrightarrow> refines n \<Longrightarrow> refines (if b then m else n)"
  by simp

lemma refines_case_option:
  "refines m \<Longrightarrow> (\<And>x. refines (f x)) \<Longrightarrow> refines (case z of None \<Rightarrow> m | Some x \<Rightarrow> f x)"
  by (cases z) simp_all

lemma wp_finish_noop_same:
  "wp (finish_noop now j r) (\<lambda>_. simulates db) (\<lambda>_. simulates db) db"
  by (auto simp: finish_noop_def wp_simps simulates_same split: option.splits)

lemma refines_feed:
  "refines (feed_claim now job)" "refines (feed_succeed now job outcome)" "refines (feed_fail now job e)"
  by (rule refinesI, auto simp: feed_claim_def feed_succeed_def feed_fail_def Let_def wp_simps simulates_same
      intro: wp_finish_noop_same split: option.splits)+

lemma refines_feed_recover: "refines (feed_recover now job)"
  unfolding feed_recover_def
  by (rule refines_andThen [OF refines_feed(3)], rule refinesI)
    (auto simp: wp_simps simulates_same split: option.splits)

lemma refines_deny:
  "refines (deny_claim now job)" "refines (deny_succeed now job outcome)" "refines (deny_fail now job e)"
  by (rule refinesI, auto simp: deny_claim_def deny_succeed_def deny_fail_def Let_def wp_simps simulates_same
      split: option.splits)+

lemma refines_deny_recover: "refines (deny_recover now job)"
  unfolding deny_recover_def
  by (rule refines_andThen [OF refines_deny(3)], rule refinesI)
    (auto simp: wp_simps simulates_same split: option.splits)

lemma refines_service:
  "refines (service_claim now job)" "refines (service_succeed now job outcome)"
  "refines (service_fail now job e)" "refines (service_recover new now job)"
  unfolding service_claim_def service_succeed_def service_fail_def service_recover_def
  by (intro refines_andThen refines_case_option refines_basic refines_mark_applying refines_mark_active
      refines_mark_failed refines_retry)+

lemma refines_lifecycle [inv_intros]:
  "refines (lifecycle_claim now job)" "refines (lifecycle_succeed now job outcome)"
  "refines (lifecycle_fail now job e)" "refines (lifecycle_recover new now job)"
  by (cases "jb_job_type job";
      simp add: lifecycle_claim_def lifecycle_succeed_def lifecycle_fail_def lifecycle_recover_def
        refines_service refines_feed refines_feed_recover refines_deny refines_deny_recover)+

section \<open>Properties\<close>

lemma typed_self: "get_job db k = Some job \<Longrightarrow> typed (jb_job_type job) db job"
  using get_jobD(2) by (fastforce simp: typed_def)

lemma ledger_self: "worker_inv db \<Longrightarrow> get_job db k = Some job \<Longrightarrow> ledger_ok (jb_job_type job) job db"
  by (simp add: ledger_ok_def typed_self)

lemma sample_worker:
  "worker_inv sample_db" "worker_inv (sample_at ApplyStatus_applying JobStatus_applying)"
  using sample_apply by (simp_all add: worker_inv_def feed_inv_def sample_defs)

lemma sample_claim:
  "lifecycle_claim 5 sample_job sample_db = (Inr True,
     sample_db\<lparr>protected_services := [sample_service\<lparr>sv_apply_status := ApplyStatus_applying, sv_updated_at := 5\<rparr>],
       agent_jobs := [sample_job\<lparr>jb_status := JobStatus_applying, jb_started_at := Some 5, jb_attempts := 1\<rparr>]\<rparr>)"
  by (simp add: lifecycle_claim_def service_claim_def mark_applying_def load_defs run_simps is_terminal_def
      superseded_def sample_defs get_job_def get_service_row_def table_simps set_service_def set_job_def
      LEGAL_APPLY_def)

text \<open>
  A claim that directly follows a claim that proceeded does not proceed, for
  service updates, feed syncs and global-deny applies alike.
\<close>

theorem job_claimed_once:
  assumes "worker_inv db" "get_job db k = Some job" "lifecycle_claim now job db = (Inr True, db1)"
  shows "fst (lifecycle_claim now' job db1) \<noteq> Inr True"
proof
  assume "fst (lifecycle_claim now' job db1) = Inr True"
  then obtain db2 where "lifecycle_claim now' job db1 = (Inr True, db2)" by (metis prod.collapse)
  then show False
    using assms(3) ledger_self [OF assms(1,2)]
    by (cases "jb_job_type job")
      (auto simp: lifecycle_claim_def dest: service_lc.claim_once feed_lc.claim_once deny_lc.claim_once)
qed

theorem job_claimed_once_witness:
  "fst (lifecycle_claim 6 sample_job (snd (lifecycle_claim 5 sample_job sample_db))) \<noteq> Inr True"
  using job_claimed_once [OF sample_worker(1) sample_lookups(2) sample_claim] by (simp add: sample_claim)

text \<open>
  Completion is idempotent.  On a job that is terminal already (succeeded,
  failed or superseded), claiming it again, marking it succeeded and marking it
  failed all return and leave the database as it is.
\<close>

theorem terminal_jobs_stay:
  assumes "get_job db k = Some job" "is_terminal (jb_status job)"
  shows "lifecycle_claim now job db = (Inr False, db) \<and>
    lifecycle_succeed now job outcome db = (Inr (), db) \<and> lifecycle_fail now job e db = (Inr (), db)"
proof -
  have "finished job db" using assms get_jobD(2) [OF assms(1)] by (auto simp: finished_def)
  then show ?thesis
    by (cases "jb_job_type job")
      (auto simp: lifecycle_claim_def lifecycle_succeed_def lifecycle_fail_def
        finished_service finished_feed finished_deny)
qed

theorem terminal_jobs_stay_witness:
  "lifecycle_fail 7 (sample_job\<lparr>jb_status := JobStatus_succeeded\<rparr>) ''late''
     (sample_at ApplyStatus_active JobStatus_succeeded) =
   (Inr (), sample_at ApplyStatus_active JobStatus_succeeded)"
  using terminal_jobs_stay [OF sample_at_rows(2), of JobStatus_succeeded 7 ApplyStatus_active None "''late''"]
  by (simp add: is_terminal_def)

end
