(* ===== verification/NodeControl.thy ===== *)
theory NodeControl
  imports AuditLog Deployment
begin

text \<open>
  Node-wide switches: the bypass and maintenance flags
  (\<open>app/services/node_control.py\<close>), the blocked UDP ports
  (\<open>app/services/ddos_amplification.py\<close>), and the two worker lanes that push the
  stored value into the data plane (\<open>app/worker/node_control_reconciler.py\<close>,
  \<open>app/worker/blocked_port_reconciler.py\<close>).  Both lanes remember the last value
  a write confirmed; \<open>assert_lane\<close> is their common contract.  The live value is
  that of the map the tool writes, the ports the packet filter blocks without
  asking that map not counted, and what the tool does to it is a parameter.
\<close>

section \<open>app/services/node_control.py\<close>

definition default_node_control :: node_control where
  "default_node_control =
     \<lparr> nc_bypass_enabled = False, nc_maintenance_enabled = False, nc_bypass_reason = None,
       nc_bypass_activated_at = None, nc_maintenance_activated_at = None,
       nc_bypass_actor_user_id = None, nc_maintenance_actor_user_id = None \<rparr>"

definition ensure_node_control :: "unit dbprog" where
  "ensure_node_control =
     modify (\<lambda>db. case node_control_row db of
       None \<Rightarrow> db\<lparr>node_control_row := Some default_node_control\<rparr> | Some _ \<Rightarrow> db)"

definition locked_node_control :: "node_control dbprog" where
  "locked_node_control =
     andThen ensure_node_control (\<lambda>_. fetch node_control_row (RuntimeError ''NoResultFound''))"

definition get_node_control :: "node_control dbprog" where
  "get_node_control =
     andThen ensure_node_control (\<lambda>_. fetch node_control_row (RuntimeError ''NoResultFound''))"

definition maintenance_active :: "bool dbprog" where
  "maintenance_active = andThen get_node_control (\<lambda>c. ret (nc_maintenance_enabled c))"

definition set_bypass ::
  "timestamp \<Rightarrow> user option \<Rightarrow> bool \<Rightarrow> string option \<Rightarrow> string option \<Rightarrow> node_control dbprog" where
  "set_bypass now actor enabled reason ip =
     andThen locked_node_control (\<lambda>control.
     if nc_bypass_enabled control = enabled then ret control
     else
       let control' = control\<lparr>nc_bypass_enabled := enabled,
             nc_bypass_reason := (if enabled then reason else None),
             nc_bypass_activated_at := (if enabled then Some now else None),
             nc_bypass_actor_user_id := map_option us_id actor\<rparr> in
       andThen (modify (\<lambda>db. db\<lparr>node_control_row := Some control'\<rparr>)) (\<lambda>_.
       andThen (record_event now actor
         (if enabled then ''node.bypass.enabled'' else ''node.bypass.disabled'')
         (Some ''node_control'') (JInt 1) ''success'' ip
         (Some [(''reason'', case reason of None \<Rightarrow> JNull | Some r \<Rightarrow> JStr r)])) (\<lambda>_.
       ret control')))"

definition set_maintenance ::
  "timestamp \<Rightarrow> user option \<Rightarrow> bool \<Rightarrow> string option \<Rightarrow> node_control dbprog" where
  "set_maintenance now actor enabled ip =
     andThen locked_node_control (\<lambda>control.
     if nc_maintenance_enabled control = enabled then ret control
     else
       let control' = control\<lparr>nc_maintenance_enabled := enabled,
             nc_maintenance_activated_at := (if enabled then Some now else None),
             nc_maintenance_actor_user_id := map_option us_id actor\<rparr> in
       andThen (modify (\<lambda>db. db\<lparr>node_control_row := Some control'\<rparr>)) (\<lambda>_.
       andThen (record_event now actor
         (if enabled then ''node.maintenance.enabled'' else ''node.maintenance.disabled'')
         (Some ''node_control'') (JInt 1) ''success'' ip None) (\<lambda>_.
       ret control')))"

section \<open>app/services/ddos_amplification.py\<close>

definition HARDCODED_AMP_PORTS :: "int list" where
  "HARDCODED_AMP_PORTS = [17, 19, 53, 111, 123, 137, 161, 389, 520, 1900, 5353, 11211]"

definition list_blocked_ports :: "db \<Rightarrow> blocked_udp_port list" where
  "list_blocked_ports db = sort_key bp_port (blocked_udp_ports db)"

text \<open>The flush enforces the primary key and \<open>ck_blocked_udp_port_range\<close>.\<close>

definition add_blocked_port ::
  "timestamp \<Rightarrow> user option \<Rightarrow> int \<Rightarrow> string option \<Rightarrow> string option \<Rightarrow> blocked_udp_port dbprog" where
  "add_blocked_port now actor port note ip =
     andThen (gets (\<lambda>db. row bp_port port (blocked_udp_ports db))) (\<lambda>existing.
     andThen (ensure (existing = None) (HTTPException 409 (JStr ''port already blocked''))) (\<lambda>_.
     let entry = \<lparr> bp_port = port, bp_note = note, bp_created_by = map_option us_id actor,
                   bp_created_at = now \<rparr> in
     andThen (ensure (0 \<le> port \<and> port \<le> 65535) (IntegrityError ''ck_blocked_udp_port_range'')) (\<lambda>_.
     andThen (modify (\<lambda>db. db\<lparr>blocked_udp_ports := blocked_udp_ports db @ [entry]\<rparr>)) (\<lambda>_.
     andThen (record_event now actor ''ddos.amp_port.added'' (Some ''blocked_udp_port'') (JInt port)
       ''success'' ip (Some [(''note'', case note of None \<Rightarrow> JNull | Some n \<Rightarrow> JStr n)])) (\<lambda>_.
     ret entry)))))"

definition remove_blocked_port ::
  "timestamp \<Rightarrow> user option \<Rightarrow> int \<Rightarrow> string option \<Rightarrow> unit dbprog" where
  "remove_blocked_port now actor port ip =
     andThen (fetch (\<lambda>db. row bp_port port (blocked_udp_ports db))
       (HTTPException 404 (JStr ''blocked port not found''))) (\<lambda>_.
     andThen (modify (\<lambda>db. db\<lparr>blocked_udp_ports := delete_row bp_port port (blocked_udp_ports db)\<rparr>)) (\<lambda>_.
     record_event now actor ''ddos.amp_port.removed'' (Some ''blocked_udp_port'') (JInt port)
       ''success'' ip None))"

section \<open>The reconciling lanes\<close>

text \<open>
  A lane, the database it reads and the value the data plane holds.  A write
  is confirmed, or refused; a refused write (an error, or a timeout that
  killed the tool) may leave any value behind.
\<close>

datatype 'v write_result = Confirmed | Refused 'v

record bypass_lane =
  bw_db :: db
  bw_asserted_bypass :: "int option"
  bw_maintenance_active :: "bool option"
  bw_live_bypass :: int
  bw_cleared :: nat

definition desired_bypass :: "db \<Rightarrow> int" where
  "desired_bypass db =
     (case fst (get_node_control db) of Inr c \<Rightarrow> (if nc_bypass_enabled c then 1 else 0) | Inl _ \<Rightarrow> 0)"

definition desired_maintenance :: "db \<Rightarrow> bool" where
  "desired_maintenance db =
     (case fst (get_node_control db) of Inr c \<Rightarrow> nc_maintenance_enabled c | Inl _ \<Rightarrow> False)"

text \<open>The session of a lane is closed without a commit: its reads leave no row behind.\<close>

definition bypass_reconcile_once :: "int write_result \<Rightarrow> bypass_lane \<Rightarrow> bypass_lane" where
  "bypass_reconcile_once result w =
     (let desired = desired_bypass (bw_db w); maintenance = desired_maintenance (bw_db w);
          w1 = (if bw_asserted_bypass w \<noteq> Some desired then
                  (case result of
                     Confirmed \<Rightarrow> w\<lparr>bw_live_bypass := desired, bw_asserted_bypass := Some desired\<rparr>
                   | Refused v \<Rightarrow> w\<lparr>bw_live_bypass := v\<rparr>)
                else w);
          w2 = (if bw_maintenance_active w1 = Some True \<and> \<not> maintenance
                then w1\<lparr>bw_cleared := bw_cleared w1 + 1\<rparr> else w1)
      in w2\<lparr>bw_maintenance_active := Some maintenance\<rparr>)"

record port_lane =
  pw_db :: db
  pw_asserted_ports :: "int set option"
  pw_live_ports :: "int set"

definition desired_ports :: "db \<Rightarrow> int set" where
  "desired_ports db = set (map bp_port (list_blocked_ports db))"

definition ports_reconcile_once :: "int set write_result \<Rightarrow> port_lane \<Rightarrow> port_lane" where
  "ports_reconcile_once result w =
     (let desired = desired_ports (pw_db w) in
      if pw_asserted_ports w \<noteq> Some desired then
        (case result of
           Confirmed \<Rightarrow> w\<lparr>pw_live_ports := desired, pw_asserted_ports := Some desired\<rparr>
         | Refused v \<Rightarrow> w\<lparr>pw_live_ports := v\<rparr>)
      else w)"

section \<open>The contract of a lane\<close>

locale assert_lane =
  fixes desired :: "'w \<Rightarrow> 'v" and asserted :: "'w \<Rightarrow> 'v option" and live :: "'w \<Rightarrow> 'v"
    and tick :: "'v write_result \<Rightarrow> 'w \<Rightarrow> 'w"
  assumes tick_desired: "desired (tick r w) = desired w"
    and tick_hit: "asserted w = Some (desired w) \<Longrightarrow>
      asserted (tick r w) = asserted w \<and> live (tick r w) = live w"
    and tick_confirmed: "asserted w \<noteq> Some (desired w) \<Longrightarrow>
      asserted (tick Confirmed w) = Some (desired w) \<and> live (tick Confirmed w) = desired w"
    and tick_refused: "asserted w \<noteq> Some (desired w) \<Longrightarrow>
      asserted (tick (Refused v) w) = asserted w \<and> live (tick (Refused v) w) = v"
begin

text \<open>The lane is in step when what it believes written is what is live.\<close>

definition in_step :: "'w \<Rightarrow> bool" where
  "in_step w \<longleftrightarrow> (\<forall>v. asserted w = Some v \<longrightarrow> live w = v)"

lemma desired_ticks: "desired (fold tick rs w) = desired w"
  by (induction rs arbitrary: w) (simp_all add: tick_desired)

lemma in_step_tick:
  assumes "in_step w" "\<And>v. r = Refused v \<Longrightarrow> asserted w \<noteq> Some (desired w) \<Longrightarrow> v = live w"
  shows "in_step (tick r w)"
proof (cases "asserted w = Some (desired w)")
  case True
  then show ?thesis using assms(1) tick_hit [OF True, of r] by (simp add: in_step_def)
next
  case False
  then show ?thesis
    using assms tick_confirmed [OF False] tick_refused [OF False] by (cases r) (auto simp: in_step_def)
qed

lemma settled_tick:
  assumes "asserted w = Some (desired w)" "live w = desired w"
  shows "asserted (tick r w) = Some (desired (tick r w)) \<and> live (tick r w) = desired (tick r w)"
  using assms tick_hit [OF assms(1), of r] by (simp add: tick_desired)

lemma settled_ticks:
  assumes "asserted w = Some (desired w)" "live w = desired w"
  shows "asserted (fold tick rs w) = Some (desired w) \<and> live (fold tick rs w) = desired w"
  using assms
proof (induction rs arbitrary: w)
  case (Cons r rs)
  then show ?case using settled_tick [OF Cons.prems, of r] by (simp add: tick_desired)
qed simp

text \<open>A lane that counts the desired value as written writes no more.\<close>

lemma believed_ticks: "asserted w = Some (desired w) \<Longrightarrow> live (fold tick rs w) = live w"
proof (induction rs arbitrary: w)
  case (Cons r rs)
  then show ?case using tick_hit [OF Cons.prems, of r] by (simp add: tick_desired)
qed simp

text \<open>
  Once a write is confirmed the data plane holds the desired value, whatever
  the refused attempts before it left there, and keeps it.
\<close>

lemma converges:
  assumes "asserted w = Some (desired w) \<Longrightarrow> live w = desired w" "Confirmed \<in> set rs"
  shows "live (fold tick rs w) = desired w"
  using assms
proof (induction rs arbitrary: w)
  case (Cons r rs)
  show ?case
  proof (cases "asserted w = Some (desired w)")
    case True
    then show ?thesis using settled_ticks [of w "r # rs"] Cons.prems(1) by simp
  next
    case False
    show ?thesis
    proof (cases r)
      case Confirmed
      then show ?thesis
        using tick_confirmed [OF False] settled_ticks [of "tick r w" rs] by (simp add: tick_desired)
    next
      case (Refused v)
      then show ?thesis
        using tick_refused [OF False, of v] Cons.IH [of "tick r w"] Cons.prems(2) False
        by (simp add: tick_desired)
    qed
  qed
qed simp

end

interpretation bypass: assert_lane "\<lambda>w. desired_bypass (bw_db w)" bw_asserted_bypass bw_live_bypass
  bypass_reconcile_once
  by unfold_locales (auto simp: bypass_reconcile_once_def Let_def split: write_result.splits)

interpretation ports: assert_lane "\<lambda>w. desired_ports (pw_db w)" pw_asserted_ports pw_live_ports
  ports_reconcile_once
  by unfold_locales (auto simp: ports_reconcile_once_def Let_def split: write_result.splits)

section \<open>Lemmas on the switches\<close>

lemma run_get_node_control:
  "get_node_control db = (case node_control_row db of
     None \<Rightarrow> (Inr default_node_control, db\<lparr>node_control_row := Some default_node_control\<rparr>)
   | Some c \<Rightarrow> (Inr c, db))"
  by (simp add: get_node_control_def ensure_node_control_def run_simps split: option.splits)

lemma wp_locked_node_control [wp_simps]:
  "wp locked_node_control Q E db = (case node_control_row db of
     None \<Rightarrow> Q default_node_control (db\<lparr>node_control_row := Some default_node_control\<rparr>)
   | Some c \<Rightarrow> Q c db)"
  by (simp add: locked_node_control_def ensure_node_control_def wp_simps split: option.splits)

lemma wp_get_node_control [wp_simps]:
  "wp get_node_control Q E db = (case node_control_row db of
     None \<Rightarrow> Q default_node_control (db\<lparr>node_control_row := Some default_node_control\<rparr>)
   | Some c \<Rightarrow> Q c db)"
  by (simp add: get_node_control_def ensure_node_control_def wp_simps split: option.splits)

lemma keeps_maintenance_active [inv_intros]:
  "(\<And>db c. I (db\<lparr>node_control_row := c\<rparr>) = I db) \<Longrightarrow> keeps I maintenance_active"
  by (rule keepsI) (auto simp: maintenance_active_def wp_simps split: option.splits)

lemma desired_bypass_row:
  "desired_bypass db = (case node_control_row db of Some c \<Rightarrow> if nc_bypass_enabled c then 1 else 0
     | None \<Rightarrow> 0)"
  by (auto simp: desired_bypass_def run_get_node_control default_node_control_def split: option.splits)

lemma set_bypass_desired:
  "wp (set_bypass now actor enabled reason ip)
     (\<lambda>c db'. desired_bypass db' = (if enabled then 1 else 0) \<and> node_control_row db' = Some c \<and>
        desired_maintenance db' = desired_maintenance db) (\<lambda>_ _. False) db"
  by (auto simp: set_bypass_def wp_simps desired_bypass_row desired_maintenance_def
      run_get_node_control default_node_control_def Let_def split: option.splits)

section \<open>Properties\<close>

text \<open>
  The bypass lane converges while the database stays.  Once a write of the lane
  is confirmed, the map holds the bypass flag the database asks for, over all
  rounds up to the next change of the database, whatever refused writes before it
  left behind; it is enough that the lane was not already wrong about a value it
  counts as written.
\<close>

theorem bypass_lane_converges:
  assumes "bw_asserted_bypass w = Some (desired_bypass (bw_db w)) \<longrightarrow> bw_live_bypass w = desired_bypass (bw_db w)"
    "Confirmed \<in> set rs"
  shows "bw_live_bypass (fold bypass_reconcile_once rs w) = desired_bypass (bw_db w)"
  using bypass.converges [of w rs] assms by simp

theorem bypass_lane_converges_witness:
  "bw_live_bypass (fold bypass_reconcile_once [Refused 7, Confirmed, Refused 3]
     \<lparr> bw_db = sample_db\<lparr>node_control_row := Some (default_node_control\<lparr>nc_bypass_enabled := True\<rparr>)\<rparr>,
        bw_asserted_bypass = None, bw_maintenance_active = None, bw_live_bypass = 0, bw_cleared = 0 \<rparr>) = 1"
  using bypass_lane_converges [of "\<lparr> bw_db = sample_db\<lparr>node_control_row := Some (default_node_control\<lparr>nc_bypass_enabled := True\<rparr>)\<rparr>,
        bw_asserted_bypass = None, bw_maintenance_active = None, bw_live_bypass = 0, bw_cleared = 0 \<rparr>"
      "[Refused 7, Confirmed, Refused 3]"]
  by (simp add: desired_bypass_row del: fold_simps)

text \<open>
  The blocked-port lane converges in the same sense: after a confirmed write
  the map of configured ports holds those of the table until the table changes.
\<close>

theorem port_lane_converges:
  assumes "pw_asserted_ports w = Some (desired_ports (pw_db w)) \<longrightarrow> pw_live_ports w = desired_ports (pw_db w)"
    "Confirmed \<in> set rs"
  shows "pw_live_ports (fold ports_reconcile_once rs w) = bp_port ` set (blocked_udp_ports (pw_db w))"
  using ports.converges [of w rs] assms by (simp add: desired_ports_def list_blocked_ports_def)

theorem port_lane_converges_witness:
  "pw_live_ports (fold ports_reconcile_once [Refused {}, Confirmed]
     \<lparr> pw_db = sample_db\<lparr>blocked_udp_ports := [\<lparr> bp_port = 53, bp_note = None, bp_created_by = None, bp_created_at = 0 \<rparr>]\<rparr>,
        pw_asserted_ports = None, pw_live_ports = {19} \<rparr>) = {53}"
  using port_lane_converges [of "\<lparr> pw_db = sample_db\<lparr>blocked_udp_ports := [\<lparr> bp_port = 53, bp_note = None, bp_created_by = None, bp_created_at = 0 \<rparr>]\<rparr>,
        pw_asserted_ports = None, pw_live_ports = {19} \<rparr>" "[Refused {}, Confirmed]"]
  by (simp del: fold_simps)

text \<open>
  A refused write can leave the data plane wrong for good.  A lane in step
  with bypass off is asked to turn it on; the write times out after taking effect;
  the operator turns bypass off again.  From then on the lane believes the flag
  off and never writes again, while the data plane still bypasses, whatever the
  results of the following rounds.
\<close>

theorem refused_bypass_write_sticks:
  assumes "desired_bypass on = 1" "desired_bypass off = 0" "bw_asserted_bypass w = Some 0" "bw_live_bypass w = 0"
  shows "bw_live_bypass (fold bypass_reconcile_once rs
    ((bypass_reconcile_once (Refused 1) (w\<lparr>bw_db := on\<rparr>))\<lparr>bw_db := off\<rparr>)) = 1"
proof -
  let ?w = "(bypass_reconcile_once (Refused 1) (w\<lparr>bw_db := on\<rparr>))\<lparr>bw_db := off\<rparr>"
  have "bw_asserted_bypass ?w = Some (desired_bypass (bw_db ?w))" "bw_live_bypass ?w = 1"
    using assms by (simp_all add: bypass_reconcile_once_def Let_def)
  then show ?thesis using bypass.believed_ticks [of ?w rs] by simp
qed

theorem refused_bypass_write_sticks_witness:
  "bw_live_bypass (fold bypass_reconcile_once [Confirmed, Confirmed]
    ((bypass_reconcile_once (Refused 1)
      \<lparr> bw_db = sample_db\<lparr>node_control_row := Some (default_node_control\<lparr>nc_bypass_enabled := True\<rparr>)\<rparr>,
         bw_asserted_bypass = Some 0, bw_maintenance_active = None, bw_live_bypass = 0, bw_cleared = 0 \<rparr>)
     \<lparr>bw_db := sample_db\<rparr>)) = 1"
  using refused_bypass_write_sticks [of
      "sample_db\<lparr>node_control_row := Some (default_node_control\<lparr>nc_bypass_enabled := True\<rparr>)\<rparr>" sample_db
      "\<lparr> bw_db = sample_db, bw_asserted_bypass = Some 0, bw_maintenance_active = None, bw_live_bypass = 0, bw_cleared = 0 \<rparr>"
      "[Confirmed, Confirmed]"]
  by (simp add: desired_bypass_row sample_db_def empty_db_def default_node_control_def del: fold_simps)

end
