(* ===== verification/RuleMatch.thy ===== *)
theory RuleMatch
  imports Models
begin

text \<open>
  Overlap of allow rules, \<open>app/core/rulematch.py\<close>.  The lemmas relate
  \<open>rules_overlap\<close> to packets: two rules overlap exactly when some packet is
  matched by both.
\<close>

section \<open>Definitions\<close>

type_synonym PortRange = "int option \<times> int option"

record RuleView =
  rv_id :: string
  rv_protocol :: Protocol
  rv_src_port :: PortRange
  rv_dst_port :: PortRange

definition validate_port_range :: "int option \<Rightarrow> int option \<Rightarrow> exc + unit" where
  "validate_port_range lo hi =
     (case (lo, hi) of
        (None, None) \<Rightarrow> Inr ()
      | (Some l, Some h) \<Rightarrow>
          if l < 0 \<or> 65535 < h \<or> h < l
          then Inl (PortRangeError ''Port range must satisfy 0 <= lo <= hi <= 65535'')
          else Inr ()
      | _ \<Rightarrow> Inl (PortRangeError ''Port range must include both bounds or neither''))"

definition protocols_intersect :: "Protocol \<Rightarrow> Protocol \<Rightarrow> bool" where
  "protocols_intersect a b \<longleftrightarrow> a = b \<or> a = Protocol_any \<or> b = Protocol_any"

definition port_ranges_intersect :: "PortRange \<Rightarrow> PortRange \<Rightarrow> exc + bool" where
  "port_ranges_intersect a b =
     (case validate_port_range (fst a) (snd a) of
        Inl e \<Rightarrow> Inl e
      | Inr _ \<Rightarrow>
          (case validate_port_range (fst b) (snd b) of
             Inl e \<Rightarrow> Inl e
           | Inr _ \<Rightarrow>
               if a = (None, None) \<or> b = (None, None) then Inr True
               else (case (a, b) of
                       ((Some a_lo, Some a_hi), (Some b_lo, Some b_hi)) \<Rightarrow>
                         Inr (a_lo \<le> b_hi \<and> b_lo \<le> a_hi)
                     | _ \<Rightarrow> Inr False)))"

text \<open>The three conditions are joined by \<open>and\<close>: a false one ends the evaluation.\<close>

definition rules_overlap :: "RuleView \<Rightarrow> RuleView \<Rightarrow> exc + bool" where
  "rules_overlap a b =
     (if \<not> protocols_intersect (rv_protocol a) (rv_protocol b) then Inr False
      else case port_ranges_intersect (rv_src_port a) (rv_src_port b) of
        Inl e \<Rightarrow> Inl e
      | Inr False \<Rightarrow> Inr False
      | Inr True \<Rightarrow> port_ranges_intersect (rv_dst_port a) (rv_dst_port b))"

fun find_overlaps :: "RuleView list \<Rightarrow> RuleView \<Rightarrow> exc + RuleView list" where
  "find_overlaps [] candidate = Inr []"
| "find_overlaps (rule # existing) candidate =
     (case rules_overlap rule candidate of
        Inl e \<Rightarrow> Inl e
      | Inr b \<Rightarrow>
          (case find_overlaps existing candidate of
             Inl e \<Rightarrow> Inl e
           | Inr rest \<Rightarrow> Inr (if b then rule # rest else rest)))"

text \<open>Packets, and when a rule matches one.\<close>

record packet =
  pk_protocol :: Protocol
  pk_src_port :: int
  pk_dst_port :: int

definition wf_packet :: "packet \<Rightarrow> bool" where
  "wf_packet p \<longleftrightarrow> pk_protocol p \<noteq> Protocol_any \<and>
     0 \<le> pk_src_port p \<and> pk_src_port p \<le> 65535 \<and> 0 \<le> pk_dst_port p \<and> pk_dst_port p \<le> 65535"

definition in_port_range :: "int \<Rightarrow> PortRange \<Rightarrow> bool" where
  "in_port_range x r =
     (case r of (Some lo, Some hi) \<Rightarrow> lo \<le> x \<and> x \<le> hi | (None, None) \<Rightarrow> True | _ \<Rightarrow> False)"

definition rule_matches :: "RuleView \<Rightarrow> packet \<Rightarrow> bool" where
  "rule_matches r p \<longleftrightarrow>
     (rv_protocol r = Protocol_any \<or> rv_protocol r = pk_protocol p) \<and>
     in_port_range (pk_src_port p) (rv_src_port r) \<and> in_port_range (pk_dst_port p) (rv_dst_port r)"

definition valid_range :: "PortRange \<Rightarrow> bool" where
  "valid_range r \<longleftrightarrow> validate_port_range (fst r) (snd r) = Inr ()"

definition valid_rule :: "RuleView \<Rightarrow> bool" where
  "valid_rule r \<longleftrightarrow> valid_range (rv_src_port r) \<and> valid_range (rv_dst_port r)"

section \<open>Lemmas\<close>

lemma valid_range_cases:
  assumes "valid_range r"
  obtains "r = (None, None)" | lo hi where "r = (Some lo, Some hi)" "0 \<le> lo" "lo \<le> hi" "hi \<le> 65535"
  using assms
  by (cases r) (auto simp: valid_range_def validate_port_range_def split: option.splits if_splits)

lemma port_ranges_intersect_valid:
  assumes "valid_range a" "valid_range b"
  shows "port_ranges_intersect a b
    = Inr (\<exists>x. 0 \<le> x \<and> x \<le> 65535 \<and> in_port_range x a \<and> in_port_range x b)"
proof -
  have "\<exists>x::int. 0 \<le> x \<and> x \<le> 65535 \<and> lo \<le> x \<and> x \<le> hi" if "0 \<le> lo" "lo \<le> hi" "hi \<le> 65535" for lo hi
    using that by auto
  moreover have "(a_lo \<le> b_hi \<and> b_lo \<le> a_hi)
      = (\<exists>x::int. 0 \<le> x \<and> x \<le> 65535 \<and> (a_lo \<le> x \<and> x \<le> a_hi) \<and> b_lo \<le> x \<and> x \<le> b_hi)"
    if "0 \<le> a_lo" "a_lo \<le> a_hi" "a_hi \<le> 65535" "0 \<le> b_lo" "b_lo \<le> b_hi" "b_hi \<le> 65535"
    for a_lo a_hi b_lo b_hi
    using that by (auto intro: exI [of _ "max a_lo b_lo"])
  moreover have "\<exists>x::int. 0 \<le> x \<and> x \<le> 65535" by (rule exI [of _ 0]) simp
  ultimately show ?thesis
    using assms(1,2)
    by (elim valid_range_cases)
      (auto simp: port_ranges_intersect_def validate_port_range_def in_port_range_def)
qed

lemma protocols_intersect_iff:
  "protocols_intersect a b \<longleftrightarrow>
     (\<exists>p. p \<noteq> Protocol_any \<and> (a = Protocol_any \<or> a = p) \<and> (b = Protocol_any \<or> b = p))"
  by (cases a; cases b) (auto simp: protocols_intersect_def)

lemma rules_overlap_valid:
  assumes "valid_rule a" "valid_rule b"
  shows "rules_overlap a b = Inr (\<exists>p. wf_packet p \<and> rule_matches a p \<and> rule_matches b p)"
proof -
  have "(\<exists>p. wf_packet p \<and> rule_matches a p \<and> rule_matches b p) \<longleftrightarrow>
      protocols_intersect (rv_protocol a) (rv_protocol b) \<and>
      (\<exists>x. 0 \<le> x \<and> x \<le> 65535 \<and> in_port_range x (rv_src_port a) \<and> in_port_range x (rv_src_port b)) \<and>
      (\<exists>x. 0 \<le> x \<and> x \<le> 65535 \<and> in_port_range x (rv_dst_port a) \<and> in_port_range x (rv_dst_port b))"
    (is "?l \<longleftrightarrow> ?r")
  proof
    assume ?l
    then show ?r by (auto simp: wf_packet_def rule_matches_def protocols_intersect_iff)
  next
    assume ?r
    then obtain pr s d where
      "pr \<noteq> Protocol_any" "rv_protocol a = Protocol_any \<or> rv_protocol a = pr"
      "rv_protocol b = Protocol_any \<or> rv_protocol b = pr" "0 \<le> s" "s \<le> 65535"
      "in_port_range s (rv_src_port a)" "in_port_range s (rv_src_port b)" "0 \<le> d" "d \<le> 65535"
      "in_port_range d (rv_dst_port a)" "in_port_range d (rv_dst_port b)"
      by (auto simp: protocols_intersect_iff)
    then have "wf_packet \<lparr>pk_protocol = pr, pk_src_port = s, pk_dst_port = d\<rparr> \<and>
        rule_matches a \<lparr>pk_protocol = pr, pk_src_port = s, pk_dst_port = d\<rparr> \<and>
        rule_matches b \<lparr>pk_protocol = pr, pk_src_port = s, pk_dst_port = d\<rparr>"
      by (auto simp: wf_packet_def rule_matches_def)
    then show ?l by blast
  qed
  then show ?thesis
    using assms
    by (auto simp: rules_overlap_def valid_rule_def port_ranges_intersect_valid split: bool.splits)
qed

lemma find_overlaps_valid:
  assumes "valid_rule candidate" "\<forall>r\<in>set existing. valid_rule r"
  shows "find_overlaps existing candidate
    = Inr (filter (\<lambda>r. \<exists>p. wf_packet p \<and> rule_matches r p \<and> rule_matches candidate p) existing)"
  using assms(2)
  by (induction existing) (auto simp: rules_overlap_valid assms(1))

section \<open>Properties\<close>

text \<open>
  C4 The overlap test of allow rules is exact.  For two rules with valid port
  ranges it does not raise, and it answers yes precisely when some packet (a
  concrete protocol, ports between 0 and 65535) is matched by both rules.
\<close>

theorem rules_overlap_iff_common_packet:
  assumes "valid_rule a" "valid_rule b"
  shows "rules_overlap a b = Inr (\<exists>p. wf_packet p \<and> rule_matches a p \<and> rule_matches b p)"
  using assms by (rule rules_overlap_valid)

theorem rules_overlap_iff_common_packet_witness:
  "rules_overlap \<lparr> rv_id = ''1'', rv_protocol = Protocol_tcp, rv_src_port = (None, None), rv_dst_port = (Some 80, Some 90) \<rparr>
     \<lparr> rv_id = ''2'', rv_protocol = Protocol_any, rv_src_port = (None, None), rv_dst_port = (Some 90, Some 99) \<rparr>
   = Inr (\<exists>p. wf_packet p \<and>
       rule_matches \<lparr> rv_id = ''1'', rv_protocol = Protocol_tcp, rv_src_port = (None, None), rv_dst_port = (Some 80, Some 90) \<rparr> p \<and>
       rule_matches \<lparr> rv_id = ''2'', rv_protocol = Protocol_any, rv_src_port = (None, None), rv_dst_port = (Some 90, Some 99) \<rparr> p)"
  by (rule rules_overlap_iff_common_packet)
    (simp_all add: valid_rule_def valid_range_def validate_port_range_def)

end
