(* ===== verification/Allocations.thy ===== *)
theory Allocations
  imports AuditLog Deployment
begin

text \<open>
  Address allocation to tenants, \<open>app/services/allocations.py\<close> (and the query
  \<open>services_in_cidr\<close> of \<open>app/services/services.py\<close> it depends on).  Active
  allocations never overlap: the code looks for a conflict before it inserts,
  and the exclusion constraint of the table decides when another transaction
  commits in between.  \<open>allocate\<close> takes that commit as an argument.
\<close>

section \<open>Queries\<close>

definition first_of :: "'r list \<Rightarrow> 'r option" where
  "first_of rs = (case rs of [] \<Rightarrow> None | r # _ \<Rightarrow> Some r)"

definition active_overlapping :: "db \<Rightarrow> net \<Rightarrow> allocated_cidr list" where
  "active_overlapping db cidr =
     sort_key al_created_at
       (filter (\<lambda>a. al_status a = CIDRStatus_active \<and> net_overlaps (al_cidr a) cidr) (allocated_cidrs db))"

definition find_conflict :: "db \<Rightarrow> net \<Rightarrow> allocated_cidr option" where
  "find_conflict db cidr = first_of (active_overlapping db cidr)"

record overlap_check_result =
  oc_overlaps :: bool
  oc_conflicts :: "allocated_cidr list"

definition overlap_check :: "db \<Rightarrow> net \<Rightarrow> overlap_check_result" where
  "overlap_check db candidate =
     (let conflicts = active_overlapping db candidate
      in \<lparr> oc_overlaps = (conflicts \<noteq> []), oc_conflicts = conflicts \<rparr>)"

definition cidr_in_tenant_allocation :: "db \<Rightarrow> uuid \<Rightarrow> net \<Rightarrow> bool" where
  "cidr_in_tenant_allocation db tenant_id target =
     list_ex (\<lambda>a. al_tenant_id a = tenant_id \<and> al_status a = CIDRStatus_active \<and>
                  net_contains (al_cidr a) target) (allocated_cidrs db)"

definition services_in_cidr :: "db \<Rightarrow> net \<Rightarrow> protected_service list" where
  "services_in_cidr db cidr =
     sort_key sv_created_at (filter (\<lambda>s. net_contains cidr (sv_cidr_or_ip s)) (protected_services db))"

definition count_allocation_dependents :: "db \<Rightarrow> allocated_cidr \<Rightarrow> string list" where
  "count_allocation_dependents db allocation =
     map (\<lambda>s. ''protected_service:'' @ sv_name s) (services_in_cidr db (al_cidr allocation))"

record allocation_usage =
  au_allocation :: allocated_cidr
  au_dependent_count :: nat

definition list_for_tenant :: "db \<Rightarrow> uuid \<Rightarrow> allocation_usage list" where
  "list_for_tenant db tenant_id =
     map (\<lambda>a. \<lparr> au_allocation = a, au_dependent_count = length (count_allocation_dependents db a) \<rparr>)
       (sort_key al_created_at (filter (\<lambda>a. al_tenant_id a = tenant_id) (allocated_cidrs db)))"

section \<open>Operations\<close>

definition overlap_error :: "allocated_cidr \<Rightarrow> exc" where
  "overlap_error conflict =
     HTTPException 409 (JList [JStr ''CIDR overlaps active allocation '', JNet (al_cidr conflict)])"

text \<open>
  The flush of a new row: primary key, foreign keys, and the exclusion
  constraint \<open>allocated_cidr_active_no_overlap\<close>.
\<close>

definition insert_allocation :: "allocated_cidr \<Rightarrow> unit dbprog" where
  "insert_allocation a =
     andThen (gets (\<lambda>db. get_allocation db (al_id a) = None)) (\<lambda>fresh.
     andThen (ensure fresh (IntegrityError ''allocated_cidr_pkey'')) (\<lambda>_.
     andThen (gets (\<lambda>db. get_tenant db (al_tenant_id a) \<noteq> None)) (\<lambda>fk.
     andThen (ensure fk (IntegrityError ''allocated_cidr_tenant_id_fkey'')) (\<lambda>_.
     andThen (gets (\<lambda>db. active_overlapping db (al_cidr a) = [])) (\<lambda>free.
     andThen (ensure (free \<or> al_status a \<noteq> CIDRStatus_active)
       (IntegrityError ''allocated_cidr_active_no_overlap'')) (\<lambda>_.
     modify (\<lambda>db. db\<lparr>allocated_cidrs := allocated_cidrs db @ [a]\<rparr>)))))))"

text \<open>
  \<open>concurrent\<close> is what other transactions commit between the query for a
  conflict and the flush.  When the flush fails the transaction is rolled back,
  which leaves exactly those commits.
\<close>

definition allocate ::
  "(db \<Rightarrow> db) \<Rightarrow> uuid \<Rightarrow> timestamp \<Rightarrow> uuid \<Rightarrow> net \<Rightarrow> user option \<Rightarrow> string option
   \<Rightarrow> allocated_cidr dbprog" where
  "allocate concurrent new_id now tenant_id cidr actor ip =
     andThen (fetch (\<lambda>db. get_tenant db tenant_id) (HTTPException 404 (JStr ''Tenant not found''))) (\<lambda>tenant.
     andThen (ensure (tn_status tenant = TenantStatus_active)
       (HTTPException 409 (JStr ''Tenant is not active''))) (\<lambda>_.
     andThen (gets (\<lambda>db. find_conflict db cidr)) (\<lambda>conflict.
     case conflict of Some c \<Rightarrow> raise (overlap_error c) | None \<Rightarrow>
     let allocation = \<lparr> al_id = new_id, al_tenant_id = tn_id tenant, al_cidr = cidr,
           al_status = CIDRStatus_active, al_allocated_by = map_option us_id actor,
           al_created_at = now, al_updated_at = now \<rparr> in
     andThen (modify concurrent) (\<lambda>_.
     andThen (catch (transaction (insert_allocation allocation)) (\<lambda>e.
       if e \<noteq> IntegrityError ''allocated_cidr_active_no_overlap'' then raise e
       else
         andThen (gets (\<lambda>db. find_conflict db cidr)) (\<lambda>again.
         case again of
           Some c \<Rightarrow> raise (overlap_error c)
         | None \<Rightarrow> raise (HTTPException 409 (JStr ''CIDR overlaps an active allocation''))))) (\<lambda>_.
     andThen (record_event now actor ''allocation.allocate'' (Some ''allocated_cidr'') (JUuid new_id)
       ''success'' ip (Some [(''tenant_id'', JUuid (tn_id tenant)), (''cidr'', JNet cidr)])) (\<lambda>_.
     ret allocation))))))"

definition revoke ::
  "timestamp \<Rightarrow> uuid \<Rightarrow> user option \<Rightarrow> string option \<Rightarrow> allocated_cidr dbprog" where
  "revoke now allocation_id actor ip =
     andThen (fetch (\<lambda>db. get_allocation db allocation_id)
       (HTTPException 404 (JStr ''Allocation not found''))) (\<lambda>allocation.
     if al_status allocation = CIDRStatus_revoked then ret allocation
     else
       andThen (gets (\<lambda>db. count_allocation_dependents db allocation)) (\<lambda>blockers.
       if blockers \<noteq> [] then
         andThen (record_event now actor ''allocation.revoke'' (Some ''allocated_cidr'')
           (JUuid allocation_id) ''denied'' ip
           (Some [(''blockers'', JList (map JStr blockers))])) (\<lambda>_.
         raise (HTTPException 409 (JObj [(''message'', JStr ''Allocation is still in use''),
           (''blockers'', JList (map JStr blockers))])))
       else
         let revoked = allocation\<lparr>al_status := CIDRStatus_revoked, al_updated_at := now\<rparr> in
         andThen (modify (\<lambda>db. db\<lparr>allocated_cidrs :=
           update_row al_id allocation_id (\<lambda>_. revoked) (allocated_cidrs db)\<rparr>)) (\<lambda>_.
         andThen (record_event now actor ''allocation.revoke'' (Some ''allocated_cidr'')
           (JUuid allocation_id) ''success'' ip
           (Some [(''tenant_id'', JUuid (al_tenant_id allocation)), (''cidr'', JNet (al_cidr allocation))]))
         (\<lambda>_. ret revoked))))"

section \<open>The invariant\<close>

definition both_active_overlap :: "allocated_cidr \<Rightarrow> allocated_cidr \<Rightarrow> bool" where
  "both_active_overlap a b \<longleftrightarrow> al_status a = CIDRStatus_active \<and> al_status b = CIDRStatus_active \<and>
     net_overlaps (al_cidr a) (al_cidr b)"

definition alloc_ok :: "allocated_cidr list \<Rightarrow> bool" where
  "alloc_ok as \<longleftrightarrow> distinct (map al_id as) \<and> list_all (\<lambda>a. valid_net (al_cidr a)) as \<and>
     exclusive both_active_overlap as"

definition alloc_inv :: "db \<Rightarrow> bool" where
  "alloc_inv db \<longleftrightarrow> alloc_ok (allocated_cidrs db)"

section \<open>Lemmas\<close>

lemma first_of_None [simp]: "first_of rs = None \<longleftrightarrow> rs = []"
  by (simp add: first_of_def split: list.splits)

lemma first_of_SomeD: "first_of rs = Some r \<Longrightarrow> r \<in> set rs"
  by (auto simp: first_of_def split: list.splits)

lemma sort_key_Nil_iff [simp]: "sort_key f xs = [] \<longleftrightarrow> xs = []"
  by (metis length_0_conv length_sort)

lemma active_overlapping_Nil:
  "active_overlapping db cidr = [] \<longleftrightarrow>
     (\<forall>a\<in>set (allocated_cidrs db). al_status a = CIDRStatus_active \<longrightarrow> \<not> net_overlaps (al_cidr a) cidr)"
  by (auto simp: active_overlapping_def filter_empty_conv)

lemma both_active_overlap_sym: "symp both_active_overlap"
  by (rule sympI) (auto simp: both_active_overlap_def net_overlaps_sym)

lemma active_disjoint:
  assumes "alloc_inv db" "a \<in> set (allocated_cidrs db)" "b \<in> set (allocated_cidrs db)" "a \<noteq> b"
    "al_status a = CIDRStatus_active" "al_status b = CIDRStatus_active"
  shows "net_addrs (al_cidr a) \<inter> net_addrs (al_cidr b) = {}"
proof -
  have "\<not> both_active_overlap a b"
    using assms(1-4) exclusiveD [OF _ _ _ _ both_active_overlap_sym]
    by (auto simp: alloc_inv_def alloc_ok_def)
  then show ?thesis
    using assms net_overlaps_iff_intersect [of "al_cidr a" "al_cidr b"]
    by (auto simp: both_active_overlap_def alloc_inv_def alloc_ok_def list_all_iff)
qed

lemma alloc_ok_append:
  assumes "alloc_ok as" "al_id a \<notin> al_id ` set as" "valid_net (al_cidr a)"
    "\<And>b. b \<in> set as \<Longrightarrow> \<not> both_active_overlap b a"
  shows "alloc_ok (as @ [a])"
  using assms by (auto simp: alloc_ok_def exclusive_append)

lemma alloc_ok_revoke:
  assumes "alloc_ok as" "valid_net (al_cidr r)" "al_status r = CIDRStatus_revoked" "al_id r = i"
  shows "alloc_ok (update_row al_id i (\<lambda>_. r) as)"
proof -
  have "exclusive both_active_overlap (update_row al_id i (\<lambda>_. r) as)"
    using assms(1,3) unfolding update_row_def
    by (intro exclusive_map_anti) (auto simp: alloc_ok_def both_active_overlap_def split: if_splits)
  moreover have "map al_id (update_row al_id i (\<lambda>_. r) as) = map al_id as"
    using assms(4) by (auto simp: update_row_def)
  moreover have "list_all (\<lambda>a. valid_net (al_cidr a)) (update_row al_id i (\<lambda>_. r) as)"
    using assms(1,2) by (auto simp: alloc_ok_def list_all_iff elim!: in_update_rowE)
  ultimately show ?thesis using assms(1) by (simp add: alloc_ok_def)
qed

lemma alloc_inv_frame [simp]:
  "alloc_inv (db\<lparr>audit_events := es\<rparr>) = alloc_inv db" "alloc_inv (db\<lparr>post_commit := xs\<rparr>) = alloc_inv db"
  "alloc_inv (snd (record_event now actor ac tt ti out ip md db)) = alloc_inv db"
  by (simp_all add: alloc_inv_def)

lemma wp_insert_allocation:
  assumes "alloc_inv db" "valid_net (al_cidr a)"
  shows "wp (insert_allocation a)
    (\<lambda>_ db'. alloc_inv db' \<and> db' = db\<lparr>allocated_cidrs := allocated_cidrs db @ [a]\<rparr>) (\<lambda>_ db'. db' = db) db"
  using assms
  by (auto simp: insert_allocation_def wp_simps alloc_inv_def get_allocation_def row_None_iff
      active_overlapping_Nil both_active_overlap_def intro!: alloc_ok_append)

lemma keeps_allocate:
  assumes conc: "\<And>db. alloc_inv db \<Longrightarrow> alloc_inv (concurrent db)" and v: "valid_net cidr"
  shows "keeps alloc_inv (allocate concurrent new_id now tenant_id cidr actor ip)"
proof (rule keepsI)
  fix db assume inv: "alloc_inv db"
  have ins: "wp (insert_allocation a) (\<lambda>_. alloc_inv) (\<lambda>_ db'. db' = concurrent db) (concurrent db)"
    if "al_cidr a = cidr" for a
    using wp_insert_allocation [OF conc [OF inv], of a] v that by (auto elim: wp_mono)
  show "wp (allocate concurrent new_id now tenant_id cidr actor ip) (\<lambda>_. alloc_inv) (\<lambda>_. alloc_inv) db"
    using inv conc [OF inv]
    by (auto simp: allocate_def wp_simps Let_def intro!: wp_mono [OF ins])
qed

lemma keeps_revoke: "keeps alloc_inv (revoke now allocation_id actor ip)"
proof (rule keepsI)
  fix db assume inv: "alloc_inv db"
  have "alloc_ok (update_row al_id allocation_id
      (\<lambda>_. a\<lparr>al_status := CIDRStatus_revoked, al_updated_at := now\<rparr>) (allocated_cidrs db))"
    if "get_allocation db allocation_id = Some a" for a
    using inv that
    by (intro alloc_ok_revoke)
      (auto simp: alloc_inv_def alloc_ok_def list_all_iff get_allocation_def dest!: row_SomeD)
  then show "wp (revoke now allocation_id actor ip) (\<lambda>_. alloc_inv) (\<lambda>_. alloc_inv) db"
    using inv by (auto simp: revoke_def wp_simps Let_def) (auto simp: alloc_inv_def)
qed

section \<open>Properties\<close>

lemma sample_alloc: "alloc_inv sample_db"
  by (simp add: alloc_inv_def alloc_ok_def sample_defs valid_net_def net_size_def)

text \<open>
  C8 No address is ever allocated twice.  Whatever other transactions commit
  between the check for conflicts and the insert (as long as they respect the
  exclusion constraint themselves), after \<open>allocate\<close> returns or raises, any two
  different active allocations have no address in common, and so it is after
  \<open>revoke\<close>.
\<close>

theorem active_allocations_disjoint:
  assumes "\<And>db. alloc_inv db \<Longrightarrow> alloc_inv (concurrent db)" "valid_net cidr" "alloc_inv db"
    "db' = snd (allocate concurrent new_id now tenant_id cidr actor ip db) \<or> db' = snd (revoke now i actor ip db)"
    "a \<in> set (allocated_cidrs db')" "b \<in> set (allocated_cidrs db')" "a \<noteq> b"
    "al_status a = CIDRStatus_active" "al_status b = CIDRStatus_active"
  shows "net_addrs (al_cidr a) \<inter> net_addrs (al_cidr b) = {}"
proof -
  have "alloc_inv db'"
    using assms(4)
  proof
    assume "db' = snd (allocate concurrent new_id now tenant_id cidr actor ip db)"
    then show ?thesis using keeps_snd [OF keeps_allocate [of concurrent cidr] assms(3)] assms(1,2) by simp
  next
    assume "db' = snd (revoke now i actor ip db)"
    then show ?thesis using keeps_snd [OF keeps_revoke assms(3)] by simp
  qed
  then show ?thesis by (rule active_disjoint [OF _ assms(5-9)])
qed

lemma sample_allocate:
  "allocated_cidrs (snd (allocate (\<lambda>db. db) 21 7 2 (Net 184549376 8) None None sample_db)) =
     [sample_allocation, \<lparr> al_id = 21, al_tenant_id = 2, al_cidr = Net 184549376 8, al_status = CIDRStatus_active,
        al_allocated_by = None, al_created_at = 7, al_updated_at = 7 \<rparr>]"
  by (simp add: allocate_def insert_allocation_def find_conflict_def first_of_def active_overlapping_def run_simps
      record_event_def Let_def table_simps get_tenant_def get_allocation_def sample_defs
      net_overlaps_def)

theorem active_allocations_disjoint_witness:
  "\<exists>b\<in>set (allocated_cidrs (snd (allocate (\<lambda>db. db) 21 7 2 (Net 184549376 8) None None sample_db))).
     al_status b = CIDRStatus_active \<and> b \<noteq> sample_allocation \<and>
     net_addrs (al_cidr sample_allocation) \<inter> net_addrs (al_cidr b) = {}"
proof -
  let ?b = "\<lparr> al_id = 21, al_tenant_id = 2, al_cidr = Net 184549376 8, al_status = CIDRStatus_active,
        al_allocated_by = None, al_created_at = 7, al_updated_at = 7 \<rparr>"
  have ne: "sample_allocation \<noteq> ?b" "al_status sample_allocation = CIDRStatus_active"
    by (simp_all add: sample_allocation_def)
  have v: "valid_net (Net 184549376 8)" by (simp add: valid_net_def net_size_def)
  have "net_addrs (al_cidr sample_allocation) \<inter> net_addrs (al_cidr ?b) = {}"
    by (rule active_allocations_disjoint [where concurrent = "\<lambda>db. db" and db = sample_db and new_id = 21 and
        now = 7 and tenant_id = 2 and cidr = "Net 184549376 8" and actor = None and ip = None and i = 0 and
        db' = "snd (allocate (\<lambda>db. db) 21 7 2 (Net 184549376 8) None None sample_db)"])
      (simp_all add: sample_alloc v ne sample_allocate)
  then show ?thesis using ne by (intro bexI [of _ ?b]) (auto simp: sample_allocate)
qed

end
