(* ===== verification/Processor.thy ===== *)
theory Processor
  imports JobLifecycle NodeControl
begin

text \<open>
  The worker's processing of the job ledger, \<open>app/worker/processor.py\<close>: claim a
  job in one transaction, run its handler outside of any, mark the outcome in
  another; at startup also recover the jobs a dead worker left in \<open>applying\<close>.
  The handler is a parameter: it talks to the data plane, and while it runs
  the API may commit anything, so it maps the database to an outcome and the
  database found afterwards.
\<close>

section \<open>Definitions\<close>

definition TERMINAL_MARK_ATTEMPTS :: nat where
  "TERMINAL_MARK_ATTEMPTS = 3"

definition claim_job :: "timestamp \<Rightarrow> uuid \<Rightarrow> agent_job option dbprog" where
  "claim_job now job_id =
     andThen (gets (\<lambda>db. get_job db job_id)) (\<lambda>found.
     case found of None \<Rightarrow> ret None | Some job \<Rightarrow>
     andThen (if jb_job_type job = JobType_service_update then maintenance_active else ret False)
       (\<lambda>paused.
     if paused then ret None
     else
       andThen (lifecycle_claim now job) (\<lambda>proceed.
       ret (if proceed then Some job else None))))"

definition is_SQLAlchemyError :: "exc \<Rightarrow> bool" where
  "is_SQLAlchemyError e =
     (case e of IntegrityError _ \<Rightarrow> True | MultipleResultsFound \<Rightarrow> True | OperationalError \<Rightarrow> True
      | StaleDataError \<Rightarrow> True | DataError \<Rightarrow> True | _ \<Rightarrow> False)"

definition terminal_mark :: "timestamp \<Rightarrow> uuid \<Rightarrow> string option \<Rightarrow> unit dbprog" where
  "terminal_mark now job_id error =
     andThen (gets (\<lambda>db. get_job db job_id)) (\<lambda>found.
     case found of None \<Rightarrow> ret () | Some job \<Rightarrow>
     (case error of
        None \<Rightarrow> lifecycle_succeed now job None
      | Some e \<Rightarrow> lifecycle_fail now job e))"

text \<open>
  \<open>outages\<close> says of each attempt whether the database is unreachable then;
  the last attempt lets the error through.
\<close>

fun mark_terminal ::
  "nat \<Rightarrow> bool list \<Rightarrow> (uuid \<Rightarrow> db \<Rightarrow> db) \<Rightarrow> timestamp \<Rightarrow> uuid \<Rightarrow> string option \<Rightarrow> unit dbprog" where
  "mark_terminal 0 outages cb now job_id error db = (Inr (), db)"
| "mark_terminal (Suc n) outages cb now job_id error db =
     (case outages of
        True # rest \<Rightarrow>
          if n = 0 then (Inl OperationalError, db) else mark_terminal n rest cb now job_id error db
      | _ \<Rightarrow> session_scope cb (terminal_mark now job_id error) db)"

definition process_job ::
  "(uuid \<Rightarrow> db \<Rightarrow> db) \<Rightarrow> (exc \<Rightarrow> string) \<Rightarrow> (agent_job \<Rightarrow> unit dbprog) \<Rightarrow> bool list
   \<Rightarrow> timestamp \<Rightarrow> uuid \<Rightarrow> unit dbprog" where
  "process_job cb describe handler outages now job_id db =
     (case session_scope cb (claim_job now job_id) db of
        (Inl e, db1) \<Rightarrow> (Inl e, db1)
      | (Inr None, db1) \<Rightarrow> (Inr (), db1)
      | (Inr (Some _), db1) \<Rightarrow>
          (case get_job db1 job_id of
             None \<Rightarrow> (Inr (), db1)
           | Some job \<Rightarrow>
               (case handler job db1 of
                  (Inr _, db2) \<Rightarrow> mark_terminal TERMINAL_MARK_ATTEMPTS outages cb now job_id None db2
                | (Inl e, db2) \<Rightarrow>
                    if is_SQLAlchemyError e then (Inl e, db2)
                    else mark_terminal TERMINAL_MARK_ATTEMPTS outages cb now job_id
                      (Some (describe e)) db2)))"

definition recover_orphan :: "uuid \<Rightarrow> timestamp \<Rightarrow> agent_job \<Rightarrow> unit dbprog" where
  "recover_orphan new_job_id now job = lifecycle_recover new_job_id now job"

text \<open>One turn of the loop over the orphans: whether it recovered the job or went on to the next.\<close>

definition recover_applying :: "uuid \<Rightarrow> timestamp \<Rightarrow> uuid \<Rightarrow> bool dbprog" where
  "recover_applying new_job_id now job_id =
     andThen (gets (\<lambda>db. get_job db job_id)) (\<lambda>found.
     case found of None \<Rightarrow> ret False | Some job \<Rightarrow>
     if jb_status job \<noteq> JobStatus_applying then ret False
     else andThen (recover_orphan new_job_id now job) (\<lambda>_. ret True))"

fun count_each :: "'x list \<Rightarrow> ('x \<Rightarrow> bool dbprog) \<Rightarrow> nat dbprog" where
  "count_each [] f = ret 0"
| "count_each (x # xs) f = andThen (f x) (\<lambda>b. andThen (count_each xs f) (\<lambda>n. ret (of_bool b + n)))"

definition job_ids_by_age :: "(agent_job \<Rightarrow> bool) \<Rightarrow> db \<Rightarrow> uuid list" where
  "job_ids_by_age p db =
     map jb_id (sort_key (\<lambda>j. (jb_created_at j, jb_id j)) (filter p (agent_jobs db)))"

text \<open>
  \<open>reconcile_once\<close>, with the outages of each processed job and a fresh job
  identifier for each orphan.  An error ends the loop it is raised in.
\<close>

definition reconcile_once ::
  "(uuid \<Rightarrow> db \<Rightarrow> db) \<Rightarrow> (exc \<Rightarrow> string) \<Rightarrow> (agent_job \<Rightarrow> unit dbprog) \<Rightarrow> (uuid \<Rightarrow> bool list)
   \<Rightarrow> (uuid \<Rightarrow> uuid) \<Rightarrow> timestamp \<Rightarrow> bool \<Rightarrow> bool \<Rightarrow> nat dbprog" where
  "reconcile_once cb describe handler outages new_id now include_orphans exclude_feed_sync =
     andThen (gets (job_ids_by_age (\<lambda>j. jb_status j = JobStatus_queued \<and>
       (exclude_feed_sync \<longrightarrow> jb_job_type j \<noteq> JobType_feed_sync)))) (\<lambda>queued_ids.
     andThen (for_each queued_ids
       (\<lambda>job_id. process_job cb describe handler (outages job_id) now job_id)) (\<lambda>_.
     if \<not> include_orphans then ret (length queued_ids)
     else
       andThen (gets (job_ids_by_age (\<lambda>j. jb_status j = JobStatus_applying))) (\<lambda>applying_ids.
       andThen (count_each applying_ids
         (\<lambda>job_id. session_scope cb (recover_applying (new_id job_id) now job_id))) (\<lambda>recovered.
       ret (length queued_ids + recovered)))))"

section \<open>Lemmas\<close>

lemma worker_of_ledger: "keeps (ledger_ok t job) m \<Longrightarrow> ledger_ok t job db \<Longrightarrow>
   wp m (\<lambda>_. worker_inv) (\<lambda>_. worker_inv) db"
  by (erule (1) wp_mono [OF keepsD]) (simp_all add: ledger_ok_def)

lemma lifecycle_worker_inv:
  assumes "worker_inv db" "get_job db k = Some job"
  shows "wp (lifecycle_claim now job) (\<lambda>_. worker_inv) (\<lambda>_. worker_inv) db"
    "wp (lifecycle_succeed now job outcome) (\<lambda>_. worker_inv) (\<lambda>_. worker_inv) db"
    "wp (lifecycle_fail now job e) (\<lambda>_. worker_inv) (\<lambda>_. worker_inv) db"
    "wp (lifecycle_recover new now job) (\<lambda>_. worker_inv) (\<lambda>_. worker_inv) db"
  using ledger_self [OF assms]
  by (cases "jb_job_type job";
      simp add: lifecycle_claim_def lifecycle_succeed_def lifecycle_fail_def lifecycle_recover_def;
      blast intro: worker_of_ledger service_lc.claim_keeps service_lc.succeed_keeps
        service_lc.fail_keeps service_lc.recover_keeps feed_lc.claim_keeps feed_lc.succeed_keeps
        feed_lc.fail_keeps feed_lc.recover_keeps deny_lc.claim_keeps deny_lc.succeed_keeps
        deny_lc.fail_keeps deny_lc.recover_keeps)+

lemma worker_inv_frame [simp]:
  "worker_inv (db\<lparr>post_commit := xs\<rparr>) = worker_inv db"
  "worker_inv (db\<lparr>node_control_row := c\<rparr>) = worker_inv db"
  by (simp_all add: worker_inv_def feed_inv_def apply_inv_def)

lemma get_job_frame [simp]:
  "get_job (db\<lparr>post_commit := xs\<rparr>) = get_job db" "get_job (db\<lparr>node_control_row := c\<rparr>) = get_job db"
  by (rule ext, simp add: get_job_def)+

lemma worker_claim_job [inv_intros]: "keeps worker_inv (claim_job now k)"
proof (rule keepsI)
  fix db assume inv: "worker_inv db"
  have claim: "wp (lifecycle_claim now job) (\<lambda>_. worker_inv) (\<lambda>_. worker_inv) db'"
    if "get_job db k = Some job" "worker_inv db'" "get_job db' = get_job db" for job db'
    using lifecycle_worker_inv(1) that by metis
  show "wp (claim_job now k) (\<lambda>_. worker_inv) (\<lambda>_. worker_inv) db"
    using inv claim
    by (auto simp: claim_job_def maintenance_active_def wp_simps split: option.splits)
qed

lemma worker_terminal_mark [inv_intros]: "keeps worker_inv (terminal_mark now k error)"
  by (rule keepsI) (auto simp: terminal_mark_def wp_simps intro: lifecycle_worker_inv)

lemma worker_recover_applying [inv_intros]: "keeps worker_inv (recover_applying new now k)"
  by (rule keepsI)
    (auto simp: recover_applying_def recover_orphan_def wp_simps intro: lifecycle_worker_inv)

lemma keeps_count_each: "(\<And>x. keeps I (f x)) \<Longrightarrow> keeps I (count_each xs f)"
  by (induction xs) (auto intro!: keeps_andThen keeps_ret)

text \<open>A post-commit dispatch notes the time of the push in the job row.\<close>

definition benign_callback :: "(uuid \<Rightarrow> db \<Rightarrow> db) \<Rightarrow> bool" where
  "benign_callback cb \<longleftrightarrow>
     (\<forall>k db. cb k db = db \<or> (\<exists>t. cb k db = mark_dispatched t k db))"

lemma worker_inv_mark_dispatched: "worker_inv db \<Longrightarrow> worker_inv (mark_dispatched t k db)"
proof (cases "get_job db k")
  case None
  then have "update_row jb_id k f (agent_jobs db) = agent_jobs db" for f
    by (intro update_row_absent) (simp add: get_job_def row_None_iff)
  then show "worker_inv db \<Longrightarrow> worker_inv (mark_dispatched t k db)"
    by (simp add: mark_dispatched_def set_job_def)
next
  case (Some j)
  assume inv: "worker_inv db"
  let ?g = "\<lambda>j :: agent_job. j\<lparr>jb_dispatched_at := Some t\<rparr>"
  have g: "same_job ?g" by (simp add: same_job_def)
  have "apply_ok (protected_services db) (update_row jb_id k ?g (agent_jobs db))"
    using worker_invD(1) [OF inv] get_jobD [OF Some] g
    by (intro apply_ok_job [where j = j]) (auto simp: apply_inv_def)
  moreover have "feed_inv (set_job k ?g db)"
  proof (rule feed_invI, unfold set_tables)
    fix a r assume "a \<in> set (update_row jb_id k ?g (agent_jobs db))" "r \<in> set (feed_sync_runs db)"
      "jb_feed_sync_run_id a = Some (fr_id r)"
    then show "feed_coupled (jb_status a) (fr_status r)"
      using feed_invD(2) [OF worker_invD(2) [OF inv]] by (auto elim!: in_update_rowE)
  qed (use feed_invD(1) [OF worker_invD(2) [OF inv]]
      run_job_unique_update [OF worker_invD(2) [OF inv] g] in blast)+
  ultimately show "worker_inv (mark_dispatched t k db)"
    by (simp add: worker_inv_def apply_inv_def mark_dispatched_def set_job_def)
qed

lemma worker_session_scope [inv_intros]:
  assumes "keeps worker_inv m" "benign_callback cb"
  shows "keeps worker_inv (session_scope cb m)"
proof (rule keeps_session_scope [OF assms(1)])
  fix k db assume "worker_inv db"
  then show "worker_inv (cb k db)"
    using assms(2) worker_inv_mark_dispatched unfolding benign_callback_def by metis
qed simp

lemma worker_mark_terminal:
  assumes "benign_callback cb"
  shows "keeps worker_inv (mark_terminal n outages cb now k error)"
proof (induction n arbitrary: outages)
  case (Suc n)
  then show ?case
    using worker_session_scope [OF worker_terminal_mark assms]
    by (auto simp: keeps_iff split: list.splits bool.splits)
qed (simp add: keeps_iff)

lemma worker_process_job [inv_intros]:
  assumes "benign_callback cb" "\<And>job. keeps worker_inv (handler job)"
  shows "keeps worker_inv (process_job cb describe handler outages now k)"
  unfolding keeps_iff
proof (intro allI impI)
  fix db assume inv: "worker_inv db"
  obtain r db1 where c: "session_scope cb (claim_job now k) db = (r, db1)" by fastforce
  have inv1: "worker_inv db1"
    using keeps_snd [OF worker_session_scope [OF worker_claim_job assms(1)] inv] c by (metis snd_conv)
  have inv2: "worker_inv (snd (handler job db1))" for job
    using keeps_snd [OF assms(2) inv1] .
  show "worker_inv (snd (process_job cb describe handler outages now k db))"
    using c inv1 inv2 keeps_snd [OF worker_mark_terminal [OF assms(1)]]
    by (auto simp: process_job_def split: sum.splits option.splits prod.splits) (metis snd_conv)+
qed

lemma worker_reconcile_once:
  assumes "benign_callback cb" "\<And>job. keeps worker_inv (handler job)"
  shows "keeps worker_inv (reconcile_once cb describe handler outages new_id now orphans excl)"
  unfolding reconcile_once_def
  by (intro keeps_andThen keeps_gets keeps_for_each keeps_count_each keeps_if keeps_ret worker_process_job assms
      worker_session_scope worker_recover_applying)

section \<open>Refinement\<close>

lemma refines_iff: "refines m \<longleftrightarrow> (\<forall>db. simulates db (snd (m db)))"
proof -
  have "wp m (\<lambda>_. P) (\<lambda>_. P) db = P (snd (m db))" for P db
    by (simp add: wp_def split: prod.split sum.split)
  then show ?thesis by (simp add: refines_def)
qed

lemma benign_services: "benign_callback cb \<Longrightarrow> protected_services (cb k db) = protected_services db"
  unfolding benign_callback_def mark_dispatched_def by (metis set_job_services)

lemma benign_fold_services:
  "benign_callback cb \<Longrightarrow> protected_services (fold cb ks db) = protected_services db"
  by (induction ks arbitrary: db) (simp_all add: benign_services)

lemma refines_session_scope:
  assumes "refines m" "benign_callback cb"
  shows "refines (session_scope cb m)"
  unfolding refines_iff
proof
  fix db
  have start: "simulates db (db\<lparr>post_commit := []\<rparr>)" by (rule simulates_same) simp
  have fin: "simulates db (snd (m (db\<lparr>post_commit := []\<rparr>)))"
    using assms(1) simulates_trans [OF start] unfolding refines_iff by blast
  show "simulates db (snd (session_scope cb m db))"
  proof (cases "m (db\<lparr>post_commit := []\<rparr>)")
    case (Pair r db')
    then have "simulates db db'" using fin by simp
    then have "simulates db (fold cb ks (db'\<lparr>post_commit := []\<rparr>))" for ks
      by (rule simulates_frame [rotated]) (simp add: benign_fold_services [OF assms(2)])
    then show ?thesis using Pair start by (simp add: session_scope_def split: sum.split)
  qed
qed

lemma refines_maintenance_active: "refines maintenance_active"
  by (rule refinesI) (auto simp: maintenance_active_def wp_simps simulates_same split: option.splits)

lemma refines_claim_job: "refines (claim_job now k)"
  unfolding claim_job_def
  by (intro refines_andThen refines_case_option refines_if refines_basic refines_lifecycle
      refines_maintenance_active)

lemma refines_terminal_mark: "refines (terminal_mark now k e)"
  unfolding terminal_mark_def by (intro refines_andThen refines_case_option refines_basic refines_lifecycle)

lemma refines_mark_terminal:
  assumes "benign_callback cb"
  shows "refines (mark_terminal n outages cb now k e)"
proof (induction n arbitrary: outages)
  case (Suc n)
  then show ?case
    using refines_session_scope [OF refines_terminal_mark assms]
    by (auto simp: refines_iff split: list.splits bool.splits)
qed (simp add: refines_iff)

lemma refines_process_job:
  assumes "benign_callback cb" "\<And>job. refines (handler job)"
  shows "refines (process_job cb describe handler outages now k)"
  unfolding refines_iff
proof
  fix db
  obtain r db1 where c: "session_scope cb (claim_job now k) db = (r, db1)" by fastforce
  have s1: "simulates db db1"
    using refines_session_scope [OF refines_claim_job assms(1)] c unfolding refines_iff by (metis snd_conv)
  have s2: "simulates db (snd (handler job db1))" for job
    using assms(2) simulates_trans [OF s1] unfolding refines_iff by blast
  have s3: "simulates db (snd (mark_terminal n outages cb now k e db2))" if "simulates db db2" for n e db2
    using refines_mark_terminal [OF assms(1)] simulates_trans [OF that] unfolding refines_iff by blast
  show "simulates db (snd (process_job cb describe handler outages now k db))"
    using c s1 s2 s3
    by (auto simp: process_job_def split: sum.splits option.splits prod.splits) (metis snd_conv)+
qed

lemma refines_for_each: "(\<And>x. refines (f x)) \<Longrightarrow> refines (for_each xs f)"
proof (induction xs)
  case (Cons x xs)
  then show ?case unfolding for_each_Cons_andThen by (intro refines_andThen) simp_all
qed (simp add: refines_iff)

lemma refines_count_each: "(\<And>x. refines (f x)) \<Longrightarrow> refines (count_each xs f)"
  by (induction xs) (auto intro!: refines_andThen refines_basic)

lemma refines_recover_applying: "refines (recover_applying new now k)"
  unfolding recover_applying_def recover_orphan_def
  by (intro refines_andThen refines_case_option refines_if refines_basic refines_lifecycle)

lemma refines_reconcile_once:
  assumes "benign_callback cb" "\<And>job. refines (handler job)"
  shows "refines (reconcile_once cb describe handler outages new_id now orphans excl)"
  unfolding reconcile_once_def
  by (intro refines_andThen refines_basic refines_for_each refines_count_each refines_if refines_process_job assms
      refines_session_scope refines_recover_applying)

section \<open>Outcomes\<close>

text \<open>What a dispatch leaves of a job: everything but the time of its push.\<close>

definition job_view :: "db \<Rightarrow> uuid \<Rightarrow> (JobType \<times> uuid option \<times> int \<times> JobStatus) option" where
  "job_view db k = map_option (\<lambda>j. (jb_job_type j, jb_target_id j, jb_version j, jb_status j)) (get_job db k)"

definition in_maintenance :: "db \<Rightarrow> bool" where
  "in_maintenance db \<longleftrightarrow> (case node_control_row db of None \<Rightarrow> False | Some c \<Rightarrow> nc_maintenance_enabled c)"

lemma benign_views:
  assumes "benign_callback cb"
  shows "job_view (fold cb ks db) k = job_view db k" "service_view (fold cb ks db) i = service_view db i"
proof -
  have "job_view (cb c db) k = job_view db k" for c db
  proof -
    have "job_view (mark_dispatched t c db) k = job_view db k" for t
      by (cases "k = c") (simp_all add: job_view_def mark_dispatched_def get_job_set_job map_option.compositionality comp_def)
    then show ?thesis using assms unfolding benign_callback_def by metis
  qed
  then show "job_view (fold cb ks db) k = job_view db k" by (induction ks arbitrary: db) simp_all
  show "service_view (fold cb ks db) i = service_view db i"
    by (simp add: service_view_def get_service_row_def benign_fold_services [OF assms])
qed

lemma views_post_commit [simp]:
  "job_view (db\<lparr>post_commit := ks\<rparr>) k = job_view db k"
  "service_view (db\<lparr>post_commit := ks\<rparr>) i = service_view db i"
  by (simp_all add: job_view_def service_view_def get_service_row_def)

text \<open>A transaction that cannot fail commits what its body computes.\<close>

lemma session_scope_ok:
  assumes "wp m Q (\<lambda>_ _. False) (db\<lparr>post_commit := []\<rparr>)"
  obtains x db' where "Q x db'"
    "session_scope cb m db = (Inr x, fold cb (post_commit db') (db'\<lparr>post_commit := []\<rparr>))"
proof -
  obtain x db' where "m (db\<lparr>post_commit := []\<rparr>) = (Inr x, db')" "Q x db'"
    using assms by (auto simp: wp_def split: prod.splits sum.splits)
  then show thesis using that by (simp add: session_scope_def)
qed

lemma mark_applying_starts:
  assumes inv: "apply_inv db" and j: "get_job db k = Some j" "jb_target_id j = Some i"
    "jb_status j = JobStatus_queued" and s: "get_service_row db i = Some s" "jb_version j = sv_version s"
  shows "wp (mark_applying now k) (\<lambda>_ db'.
      map_option (\<lambda>j. (jb_job_type j, jb_target_id j, jb_version j, jb_status j)) (get_job db' k) =
        Some (jb_job_type j, Some i, sv_version s, JobStatus_applying) \<and>
      service_view db' i = Some (sv_version s, sv_active_version s, ApplyStatus_applying)) (\<lambda>_ _. False) db"
proof -
  have b: "Option.bind (jb_target_id j) (get_service_row db) = Some s" using j(2) s(1) by simp
  have st: "sv_apply_status s = ApplyStatus_queued"
    using current_job_status [OF inv j(1) b] j(3) s(2) by (simp add: superseded_def)
  then show ?thesis
    using j s get_serviceD(2) [OF s(1)]
    by (auto simp: mark_applying_def load_defs wp_simps is_terminal_def superseded_def
        service_view_def view_of_def table_simps)
qed

lemma service_frames_nc [simp]:
  "get_service_row (db\<lparr>node_control_row := c\<rparr>) = get_service_row db"
  "apply_inv (db\<lparr>node_control_row := c\<rparr>) = apply_inv db" "apply_inv (db\<lparr>post_commit := ks\<rparr>) = apply_inv db"
  by (rule ext, simp add: get_service_row_def) (simp_all add: apply_inv_def)

lemma service_claim_proceeds:
  assumes "apply_inv db" "get_job db k = Some j" "jb_job_type j = JobType_service_update"
    "jb_target_id j = Some i" "jb_status j = JobStatus_queued" "get_service_row db i = Some s"
    "jb_version j = sv_version s"
  shows "wp (lifecycle_claim now j) (\<lambda>b db'. b \<and>
      job_view db' k = Some (JobType_service_update, Some i, sv_version s, JobStatus_applying) \<and>
      service_view db' i = Some (sv_version s, sv_active_version s, ApplyStatus_applying)) (\<lambda>_ _. False) db"
proof -
  have "wp (service_claim now j) (\<lambda>b db'. b \<and>
      job_view db' k = Some (JobType_service_update, Some i, sv_version s, JobStatus_applying) \<and>
      service_view db' i = Some (sv_version s, sv_active_version s, ApplyStatus_applying)) (\<lambda>_ _. False) db"
    unfolding service_claim_def wp_andThen get_jobD(2) [OF assms(2)]
    by (rule wp_mono [OF mark_applying_starts [OF assms(1,2,4-7)]])
      (auto simp: wp_simps job_view_def assms(3))
  then show ?thesis using assms(3) by (simp add: lifecycle_claim_def)
qed

lemma claim_job_proceeds:
  assumes "apply_inv db" "get_job db k = Some j" "jb_job_type j = JobType_service_update"
    "jb_target_id j = Some i" "jb_status j = JobStatus_queued" "get_service_row db i = Some s"
    "jb_version j = sv_version s" "\<not> in_maintenance db"
  shows "wp (claim_job now k) (\<lambda>r db'. r = Some j \<and>
      job_view db' k = Some (JobType_service_update, Some i, sv_version s, JobStatus_applying) \<and>
      service_view db' i = Some (sv_version s, sv_active_version s, ApplyStatus_applying)) (\<lambda>_ _. False) db"
proof -
  have claim: "wp (lifecycle_claim now j) (\<lambda>b. wp (ret (if b then Some j else None)) (\<lambda>r db'. r = Some j \<and>
      job_view db' k = Some (JobType_service_update, Some i, sv_version s, JobStatus_applying) \<and>
      service_view db' i = Some (sv_version s, sv_active_version s, ApplyStatus_applying)) (\<lambda>_ _. False))
      (\<lambda>_ _. False) db'"
    if "apply_inv db'" "get_job db' = get_job db" "get_service_row db' = get_service_row db" for db'
    using that assms
    by (intro wp_mono [OF service_claim_proceeds [where s = s and j = j and db = db']]) (auto simp: wp_simps)
  define db1 where "db1 = (case node_control_row db of
      None \<Rightarrow> db\<lparr>node_control_row := Some default_node_control\<rparr> | Some _ \<Rightarrow> db)"
  have "wp (claim_job now k) Q E db =
      wp (lifecycle_claim now j) (\<lambda>b. wp (ret (if b then Some j else None)) Q E) E db1" for Q E
    using assms(2,3,8)
    by (auto simp: claim_job_def maintenance_active_def in_maintenance_def default_node_control_def db1_def
        wp_simps split: option.splits)
  moreover have "apply_inv db1" "get_job db1 = get_job db" "get_service_row db1 = get_service_row db"
    using assms(1) by (simp_all add: db1_def split: option.splits)
  ultimately show ?thesis using claim by blast
qed

lemma job_viewD:
  assumes "job_view db k = Some (JobType_service_update, Some i, v, js)"
  obtains j where "get_job db k = Some j" "jb_job_type j = JobType_service_update" "jb_target_id j = Some i"
    "jb_version j = v" "jb_status j = js" "jb_id j = k"
  using assms get_jobD(2) by (auto simp: job_view_def)

text \<open>The state a claimed job of the current version is in when it is done.\<close>

definition completed :: "uuid \<Rightarrow> uuid \<Rightarrow> int \<Rightarrow> int option \<Rightarrow> string option \<Rightarrow> db \<Rightarrow> bool" where
  "completed k i v a error db \<longleftrightarrow>
     (case error of
        None \<Rightarrow> service_view db i = Some (v, Some v, ApplyStatus_active) \<and>
          map_option jb_status (get_job db k) = Some JobStatus_succeeded
      | Some _ \<Rightarrow> service_view db i = Some (v, a, ApplyStatus_failed) \<and>
          map_option jb_status (get_job db k) = Some JobStatus_failed)"

lemma terminal_mark_current:
  assumes inv: "apply_inv db" and job: "job_view db k = Some (JobType_service_update, Some i, v, JobStatus_applying)"
    and svc: "service_view db i = Some (v, a, p)"
  shows "wp (terminal_mark now k error) (\<lambda>_. completed k i v a error) (\<lambda>_ _. False) db"
proof -
  obtain j where j: "get_job db k = Some j" "jb_job_type j = JobType_service_update" "jb_target_id j = Some i"
    "jb_version j = v" "jb_status j = JobStatus_applying" "jb_id j = k"
    using job by (rule job_viewD)
  obtain s where s: "get_service_row db i = Some s" "sv_version s = v" "sv_active_version s = a"
    using svc by (auto simp: service_view_def view_of_def)
  have cur: "jb_version j = sv_version s" using j(4) s(2) by simp
  show ?thesis
  proof (cases error)
    case None
    have "wp (terminal_mark now k error) Q E db = wp (mark_active now k) Q E db" for Q E
      using None j by (simp add: terminal_mark_def lifecycle_succeed_def service_succeed_def wp_simps)
    moreover have "wp (mark_active now k) (\<lambda>_. completed k i v a error) (\<lambda>_ _. False) db"
      by (rule wp_mono [OF mark_active_completes [OF inv j(1,3,5) s(1) cur]])
        (simp_all add: completed_def None s)
    ultimately show ?thesis by simp
  next
    case (Some e)
    have "wp (terminal_mark now k error) Q E db = wp (mark_failed now k e) Q E db" for Q E
      using Some j by (simp add: terminal_mark_def lifecycle_fail_def service_fail_def wp_simps)
    moreover have "wp (mark_failed now k e) (\<lambda>_. completed k i v a error) (\<lambda>_ _. False) db"
      by (rule wp_mono [OF mark_failed_completes [OF inv j(1,3,5) s(1) cur]])
        (simp_all add: completed_def Some s)
    ultimately show ?thesis by simp
  qed
qed

text \<open>A job whose service has moved on is superseded; the service is untouched.\<close>

lemma terminal_mark_stale:
  assumes job: "job_view db k = Some (JobType_service_update, Some i, v, JobStatus_applying)"
    and svc: "row sv_id i (protected_services db) = Some s" "sv_version s \<noteq> v"
  shows "wp (terminal_mark now k error) (\<lambda>_ db'. protected_services db' = protected_services db \<and>
      map_option jb_status (get_job db' k) = Some JobStatus_superseded) (\<lambda>_ _. False) db"
proof -
  obtain j where j: "get_job db k = Some j" "jb_job_type j = JobType_service_update" "jb_target_id j = Some i"
    "jb_version j = v" "jb_status j = JobStatus_applying" "jb_id j = k"
    using job by (rule job_viewD)
  have s: "get_service_row db i = Some s" using svc(1) by (simp add: get_service_row_def)
  have t: "\<not> is_terminal (jb_status j)" "jb_version j \<noteq> sv_version s"
    using j(4,5) svc(2) by (simp_all add: is_terminal_def)
  have "terminal_mark now k error db = (Inr (), snd (mark_superseded now k db))"
    using j mark_stale_supersedes [OF j(1,3) t(1) s t(2)]
    by (cases error)
      (simp_all add: terminal_mark_def run_simps lifecycle_succeed_def lifecycle_fail_def service_succeed_def
        service_fail_def)
  moreover have "protected_services (snd (mark_superseded now k db)) = protected_services db"
    "map_option jb_status (get_job (snd (mark_superseded now k db)) k) = Some JobStatus_superseded"
    using j(1) by (simp_all add: mark_superseded_def run_simps table_simps)
  ultimately show ?thesis by (simp add: wp_def)
qed

lemma completed_benign:
  "benign_callback cb \<Longrightarrow> completed k i v a error (fold cb ks (db\<lparr>post_commit := []\<rparr>)) = completed k i v a error db"
proof -
  assume b: "benign_callback cb"
  have "map_option jb_status (get_job db' k) = map_option (\<lambda>(_, _, _, s). s) (job_view db' k)" for db'
    by (simp add: job_view_def map_option.compositionality comp_def)
  then show ?thesis using benign_views [OF b] by (cases error) (simp_all add: completed_def)
qed

text \<open>Up to two outages are ridden out.\<close>

lemma mark_terminal_ok:
  assumes "wp (terminal_mark now k error) Q (\<lambda>_ _. False) (db\<lparr>post_commit := []\<rparr>)"
    "length (takeWhile id outages) < n"
  obtains db' where "Q () db'"
    "mark_terminal n outages cb now k error db = (Inr (), fold cb (post_commit db') (db'\<lparr>post_commit := []\<rparr>))"
proof -
  have "mark_terminal n outages cb now k error db = session_scope cb (terminal_mark now k error) db"
    using assms(2)
  proof (induction n arbitrary: outages)
    case (Suc n)
    then show ?case by (cases outages) (auto split: bool.splits)
  qed simp
  then show thesis using that session_scope_ok [OF assms(1), of cb] by (metis old.unit.exhaust)
qed

lemma process_job_claims:
  assumes "worker_inv db" "benign_callback cb" "get_job db k = Some j"
    "jb_job_type j = JobType_service_update" "jb_target_id j = Some i" "jb_status j = JobStatus_queued"
    "get_service_row db i = Some s" "jb_version j = sv_version s" "\<not> in_maintenance db"
  obtains j1 db1 where "session_scope cb (claim_job now k) db = (Inr (Some j), db1)" "worker_inv db1"
    "get_job db1 k = Some j1"
    "job_view db1 k = Some (JobType_service_update, Some i, sv_version s, JobStatus_applying)"
    "service_view db1 i = Some (sv_version s, sv_active_version s, ApplyStatus_applying)"
proof -
  let ?db = "db\<lparr>post_commit := []\<rparr>"
  have "get_service_row ?db = get_service_row db" by (rule ext) (simp add: get_service_row_def)
  then have "wp (claim_job now k) (\<lambda>r db'. r = Some j \<and>
      job_view db' k = Some (JobType_service_update, Some i, sv_version s, JobStatus_applying) \<and>
      service_view db' i = Some (sv_version s, sv_active_version s, ApplyStatus_applying)) (\<lambda>_ _. False) ?db"
    using assms by (intro claim_job_proceeds) (simp_all add: worker_invD in_maintenance_def)
  from session_scope_ok [OF this, of cb] obtain db' where
    run: "session_scope cb (claim_job now k) db = (Inr (Some j), fold cb (post_commit db') (db'\<lparr>post_commit := []\<rparr>))"
    and v: "job_view db' k = Some (JobType_service_update, Some i, sv_version s, JobStatus_applying)"
      "service_view db' i = Some (sv_version s, sv_active_version s, ApplyStatus_applying)"
    by blast
  let ?db1 = "fold cb (post_commit db') (db'\<lparr>post_commit := []\<rparr>)"
  have "worker_inv ?db1"
    using keeps_snd [OF worker_session_scope [OF worker_claim_job assms(2)] assms(1), of now k] run by simp
  moreover have v1: "job_view ?db1 k = Some (JobType_service_update, Some i, sv_version s, JobStatus_applying)"
    "service_view ?db1 i = Some (sv_version s, sv_active_version s, ApplyStatus_applying)"
    using v benign_views [OF assms(2)] by simp_all
  moreover obtain j1 where "get_job ?db1 k = Some j1" using v1(1) by (rule job_viewD)
  ultimately show thesis using that run by blast
qed

section \<open>Properties\<close>

text \<open>A callback that pushes nothing and a handler that succeeds at once.\<close>

lemma benign_none: "benign_callback (\<lambda>k db. db)"
  by (simp add: benign_callback_def)

text \<open>
  C5 A pass of the worker keeps the ledger and the service states consistent,
  whatever the handlers, the database outages and the API do in between, as long
  as each of those keeps them consistent: after it, every service still has
  exactly the jobs its apply status calls for and every feed job agrees with its
  run, on success and on error.
\<close>

theorem worker_pass_keeps_ledger:
  assumes "benign_callback cb" "\<And>job. keeps worker_inv (handler job)" "worker_inv db"
  shows "worker_inv (snd (reconcile_once cb describe handler outages new_id now orphans excl db))"
  using keeps_snd [OF worker_reconcile_once [OF assms(1,2)] assms(3)] .

theorem worker_pass_keeps_ledger_witness:
  "worker_inv (snd (reconcile_once (\<lambda>k db. db) (\<lambda>e. ''boom'') (\<lambda>job. raise (RuntimeError ''boom''))
     (\<lambda>k. [True]) (\<lambda>k. k + 100) 9 True False sample_db))"
  by (rule worker_pass_keeps_ledger [OF benign_none keeps_raise sample_worker(1)])

text \<open>
  C1 What is live only moves forward.  Over a pass of the worker no service
  disappears, no desired version decreases, and the live version of a service
  either stays or becomes a later version that was desired at some point of the
  pass; it never exceeds the desired version the pass ends with.  Handlers may be
  interleaved with any API changes that themselves follow the abstract machine.
\<close>

theorem live_version_never_goes_back:
  assumes "benign_callback cb" "\<And>job. refines (handler job)"
    "reconcile_once cb describe handler outages new_id now orphans excl db = (r, db')"
    "service_view db i = Some (v, a, p)"
  shows "\<exists>v' a' p'. service_view db' i = Some (v', a', p') \<and> v \<le> v' \<and>
    (a' = a \<or> (\<exists>x. a' = Some x \<and> v \<le> x \<and> x \<le> v' \<and> (\<forall>y. a = Some y \<longrightarrow> y < x)))"
proof -
  have "simulates db (snd (reconcile_once cb describe handler outages new_id now orphans excl db))"
    using refines_reconcile_once [OF assms(1,2)] unfolding refines_iff by (rule spec)
  then have "simulates db db'" unfolding assms(3) by simp
  then have "\<exists>w. service_view db' i = Some w \<and> spec_step\<^sup>*\<^sup>* (v, a, p) w"
    using assms(4) unfolding simulates_def by simp
  then obtain v' a' p' where w: "service_view db' i = Some (v', a', p')" "spec_step\<^sup>*\<^sup>* (v, a, p) (v', a', p')"
    by (metis prod_cases3)
  note bounds = spec_steps_bounds [OF w(2)]
  show ?thesis by (intro exI conjI, rule w(1), rule conjunct1 [OF bounds], rule conjunct2 [OF bounds])
qed

theorem live_version_never_goes_back_witness:
  "\<exists>r db' v' a' p'. reconcile_once (\<lambda>k db. db) (\<lambda>e. ''boom'') (\<lambda>job. ret ()) (\<lambda>k. []) (\<lambda>k. k + 100) 9 False False
     sample_db = (r, db') \<and> service_view db' 30 = Some (v', a', p') \<and> 1 \<le> v'"
proof -
  obtain r db' where run: "reconcile_once (\<lambda>k db. db) (\<lambda>e. ''boom'') (\<lambda>job. ret ()) (\<lambda>k. []) (\<lambda>k. k + 100)
      9 False False sample_db = (r, db')" by fastforce
  have "service_view sample_db 30 = Some (1, None, ApplyStatus_queued)"
    by (simp add: service_view_def view_of_def sample_service_def)
  from live_version_never_goes_back [OF benign_none refines_basic(1) run this] obtain v' a' p' where
    "service_view db' 30 = Some (v', a', p')" "1 \<le> v'" by (elim exE conjE)
  with run show ?thesis by (intro exI conjI)
qed

text \<open>
  C3 A queued update of the current version is carried out.  Outside of
  maintenance, with a handler that ends (successfully, or with an error that is
  not a database error) while nobody changes the service, and with at most two
  outages of the database at the end, processing the job returns; after a
  success the service is active and live at its version and the job succeeded,
  after an error both are failed and the live version is the one before.
\<close>

theorem process_job_completes:
  assumes "worker_inv db" "benign_callback cb" "get_job db k = Some j"
    "jb_job_type j = JobType_service_update" "jb_target_id j = Some i" "jb_status j = JobStatus_queued"
    "get_service_row db i = Some s" "jb_version j = sv_version s" "\<not> in_maintenance db"
    "\<And>job db1. worker_inv db1 \<Longrightarrow> \<exists>db2. handler job db1 = (result, db2) \<and> worker_inv db2 \<and>
       job_view db2 k = job_view db1 k \<and> service_view db2 i = service_view db1 i"
    "\<And>e. result = Inl e \<Longrightarrow> \<not> is_SQLAlchemyError e"
    "length (takeWhile id outages) < TERMINAL_MARK_ATTEMPTS"
  shows "\<exists>db'. process_job cb describe handler outages now k db = (Inr (), db') \<and>
    completed k i (sv_version s) (sv_active_version s)
      (case result of Inr _ \<Rightarrow> None | Inl e \<Rightarrow> Some (describe e)) db'"
proof -
  obtain j1 db1 where claim: "session_scope cb (claim_job now k) db = (Inr (Some j), db1)" "worker_inv db1"
      "get_job db1 k = Some j1"
      "job_view db1 k = Some (JobType_service_update, Some i, sv_version s, JobStatus_applying)"
      "service_view db1 i = Some (sv_version s, sv_active_version s, ApplyStatus_applying)"
    using assms(1-9) by (rule process_job_claims)
  obtain db2 where h: "handler j1 db1 = (result, db2)" "worker_inv db2" "job_view db2 k = job_view db1 k"
      "service_view db2 i = service_view db1 i"
    using assms(10) [OF claim(2)] by blast
  let ?error = "case result of Inr _ \<Rightarrow> None | Inl e \<Rightarrow> Some (describe e)"
  have "wp (terminal_mark now k ?error) (\<lambda>_. completed k i (sv_version s) (sv_active_version s) ?error)
      (\<lambda>_ _. False) (db2\<lparr>post_commit := []\<rparr>)"
    using h claim(4,5) worker_invD(1) [OF h(2)] by (intro terminal_mark_current) simp_all
  from mark_terminal_ok [OF this assms(12), of cb] obtain db' where
    "completed k i (sv_version s) (sv_active_version s) ?error db'"
    "mark_terminal TERMINAL_MARK_ATTEMPTS outages cb now k ?error db2 =
       (Inr (), fold cb (post_commit db') (db'\<lparr>post_commit := []\<rparr>))"
    by blast
  then show ?thesis
    using claim(1,3) h(1) assms(11) completed_benign [OF assms(2)]
    by (cases result) (auto simp: process_job_def)
qed

theorem process_job_completes_witness:
  "\<exists>db'. process_job (\<lambda>k db. db) (\<lambda>e. ''boom'') (\<lambda>job. ret ()) [True, True] 9 40 sample_db = (Inr (), db') \<and>
     completed 40 30 1 None None db'"
proof -
  have "\<not> in_maintenance sample_db" by (simp add: in_maintenance_def sample_defs)
  from process_job_completes [OF sample_worker(1) benign_none sample_lookups(2) _ _ _ sample_lookups(1) _ this,
      where handler = "\<lambda>job. ret ()" and result = "Inr ()" and outages = "[True, True]"]
  show ?thesis by (simp add: run_simps sample_job_def sample_service_def TERMINAL_MARK_ATTEMPTS_def)
qed

text \<open>
  C26 An update that became stale while its handler ran does not go live.  If
  the service is at another version when the handler ends, successfully or with
  an error that is not a database error, and at most two outages of the database
  follow, processing the job returns, the job is superseded, and the whole table
  of services is as the API left it: nothing of the stale outcome, active or
  failed, is recorded.
\<close>

theorem process_job_supersedes_stale:
  assumes "worker_inv db" "benign_callback cb" "get_job db k = Some j"
    "jb_job_type j = JobType_service_update" "jb_target_id j = Some i" "jb_status j = JobStatus_queued"
    "get_service_row db i = Some s" "jb_version j = sv_version s" "\<not> in_maintenance db"
    "\<And>job db1. session_scope cb (claim_job now k) db = (Inr (Some j), db1) \<Longrightarrow>
       \<exists>db2. handler job db1 = (result, db2) \<and> job_view db2 k = job_view db1 k \<and> protected_services db2 = svcs"
    "\<And>e. result = Inl e \<Longrightarrow> \<not> is_SQLAlchemyError e"
    "row sv_id i svcs = Some s'" "sv_version s' \<noteq> sv_version s"
    "length (takeWhile id outages) < TERMINAL_MARK_ATTEMPTS"
  shows "\<exists>db'. process_job cb describe handler outages now k db = (Inr (), db') \<and>
    protected_services db' = svcs \<and> map_option jb_status (get_job db' k) = Some JobStatus_superseded"
proof -
  obtain j1 db1 where claim: "session_scope cb (claim_job now k) db = (Inr (Some j), db1)" "worker_inv db1"
      "get_job db1 k = Some j1"
      "job_view db1 k = Some (JobType_service_update, Some i, sv_version s, JobStatus_applying)"
    using assms(1-9) by (rule process_job_claims)
  obtain db2 where h: "handler j1 db1 = (result, db2)" "job_view db2 k = job_view db1 k"
      "protected_services db2 = svcs"
    using assms(10) [OF claim(1)] by blast
  let ?error = "case result of Inr _ \<Rightarrow> None | Inl e \<Rightarrow> Some (describe e)"
  have "wp (terminal_mark now k ?error) (\<lambda>_ db'. protected_services db' = protected_services (db2\<lparr>post_commit := []\<rparr>) \<and>
      map_option jb_status (get_job db' k) = Some JobStatus_superseded) (\<lambda>_ _. False) (db2\<lparr>post_commit := []\<rparr>)"
    by (rule terminal_mark_stale [where s = s']) (use h claim(4) assms(12,13) in simp_all)
  from mark_terminal_ok [OF this assms(14), of cb] obtain db' where db':
    "protected_services db' = protected_services (db2\<lparr>post_commit := []\<rparr>)"
    "map_option jb_status (get_job db' k) = Some JobStatus_superseded"
    "mark_terminal TERMINAL_MARK_ATTEMPTS outages cb now k ?error db2 =
       (Inr (), fold cb (post_commit db') (db'\<lparr>post_commit := []\<rparr>))"
    by blast
  moreover have "map_option jb_status (get_job d k) = map_option (\<lambda>(_, _, _, s). s) (job_view d k)" for d
    by (simp add: job_view_def map_option.compositionality comp_def)
  ultimately show ?thesis
    using claim(1,3) h(1,3) assms(11) benign_views [OF assms(2)] benign_fold_services [OF assms(2)]
    by (cases result) (simp_all add: process_job_def)
qed

theorem process_job_supersedes_stale_witness:
  "\<exists>db'. process_job (\<lambda>k db. db) (\<lambda>e. ''boom'')
      (\<lambda>job. andThen (modify (\<lambda>db. db\<lparr>protected_services := [sample_service\<lparr>sv_version := 2\<rparr>]\<rparr>))
         (\<lambda>_. raise (RuntimeError ''boom''))) [True] 9 40 sample_db
      = (Inr (), db') \<and> protected_services db' = [sample_service\<lparr>sv_version := 2\<rparr>] \<and>
     map_option jb_status (get_job db' 40) = Some JobStatus_superseded"
proof -
  have "\<not> in_maintenance sample_db" by (simp add: in_maintenance_def sample_defs)
  from process_job_supersedes_stale [OF sample_worker(1) benign_none sample_lookups(2) _ _ _ sample_lookups(1) _ this,
      where handler = "\<lambda>job. andThen (modify (\<lambda>db. db\<lparr>protected_services := [sample_service\<lparr>sv_version := 2\<rparr>]\<rparr>))
         (\<lambda>_. raise (RuntimeError ''boom''))"
        and outages = "[True]" and svcs = "[sample_service\<lparr>sv_version := 2\<rparr>]" and result = "Inl (RuntimeError ''boom'')"]
  show ?thesis
    by (simp add: run_simps sample_job_def sample_service_def TERMINAL_MARK_ATTEMPTS_def job_view_def get_job_def
        table_simps is_SQLAlchemyError_def)
qed

text \<open>
  Maintenance pauses service updates.  While maintenance is on, processing
  a service update returns without claiming it, without running its handler and
  without touching any table.
\<close>

theorem maintenance_pauses_updates:
  assumes "in_maintenance db" "get_job db k = Some j" "jb_job_type j = JobType_service_update"
  shows "process_job cb describe handler outages now k db = (Inr (), db\<lparr>post_commit := []\<rparr>)"
  using assms
  by (auto simp: process_job_def session_scope_def claim_job_def maintenance_active_def run_simps
      in_maintenance_def run_get_node_control split: option.splits)

theorem maintenance_pauses_updates_witness:
  "process_job (\<lambda>k db. db) (\<lambda>e. ''boom'') (\<lambda>job. raise (RuntimeError ''unreachable'')) [] 9 40
     (sample_db\<lparr>node_control_row := Some (default_node_control\<lparr>nc_maintenance_enabled := True\<rparr>)\<rparr>) =
   (Inr (), sample_db\<lparr>node_control_row := Some (default_node_control\<lparr>nc_maintenance_enabled := True\<rparr>)\<rparr>)"
proof -
  let ?db = "sample_db\<lparr>node_control_row := Some (default_node_control\<lparr>nc_maintenance_enabled := True\<rparr>)\<rparr>"
  have "in_maintenance ?db" "get_job ?db 40 = Some sample_job" "jb_job_type sample_job = JobType_service_update"
    by (simp_all add: in_maintenance_def sample_job_def [symmetric]) (simp add: sample_job_def)
  from maintenance_pauses_updates [OF this] have
    "process_job cb de ha ou n 40 ?db = (Inr (), ?db\<lparr>post_commit := []\<rparr>)" for cb de ha ou n .
  moreover have "?db\<lparr>post_commit := []\<rparr> = ?db" by (simp add: sample_db_def empty_db_def)
  ultimately show ?thesis by simp
qed

end
