(* ===== verification/Services.thy ===== *)
theory Services
  imports Allocations ApplyJobs PyFloat
begin

text \<open>
  Protected services and their plans, \<open>app/services/services.py\<close>.  A service
  protects one host inside an active allocation of its tenant; every change of
  its configuration raises its version and enqueues an apply job.  The
  invariant \<open>service_inv\<close> holds the destination scope, the disjointness of
  destinations and the plan of each service.
\<close>

section \<open>Columns and constraints\<close>

text \<open>A value as a \<open>Numeric(10, 2)\<close> column stores it: rounded, ties away from zero.\<close>

definition numeric_10_2 :: "rat \<Rightarrow> rat" where
  "numeric_10_2 x =
     (let m = \<lfloor>\<bar>x\<bar> * 100 + 1 / 2\<rfloor> in (if x < 0 then - of_int m else of_int m) / 100)"

definition dest_overlap :: "protected_service \<Rightarrow> protected_service \<Rightarrow> bool" where
  "dest_overlap a b \<longleftrightarrow> net_overlaps (sv_cidr_or_ip a) (sv_cidr_or_ip b)"

definition name_key :: "protected_service \<Rightarrow> uuid \<times> string" where
  "name_key s = (sv_tenant_id s, lower (sv_name s))"

text \<open>The constraints of \<open>protected_service\<close> that a flush of an insert or update can violate.\<close>

definition violated_constraint :: "protected_service list \<Rightarrow> string option" where
  "violated_constraint svcs =
     (if \<not> exclusive dest_overlap svcs then Some ''protected_service_dest_no_overlap''
      else if \<not> distinct (map name_key svcs) then Some ''uq_protected_service_tenant_lower_name''
      else if \<not> distinct (map sv_dp_id svcs) then Some ''protected_service_dp_id_key''
      else None)"

definition flush_services :: "unit dbprog" where
  "flush_services =
     andThen (gets (\<lambda>db. violated_constraint (protected_services db))) (\<lambda>v.
     case v of None \<Rightarrow> ret () | Some c \<Rightarrow> raise (IntegrityError c))"

section \<open>Authorization and validation\<close>

definition authorize_actor_for_tenant :: "user option \<Rightarrow> uuid \<Rightarrow> unit dbprog" where
  "authorize_actor_for_tenant actor tenant_id =
     (case actor of
        None \<Rightarrow> ret ()
      | Some u \<Rightarrow>
          if us_role u = Role_admin then ret ()
          else ensure (us_tenant_id u = Some tenant_id) (HTTPException 403 (JStr ''Forbidden'')))"

definition require_admin_actor :: "user option \<Rightarrow> unit dbprog" where
  "require_admin_actor actor =
     ensure (case actor of None \<Rightarrow> False | Some u \<Rightarrow> us_role u = Role_admin)
       (HTTPException 403 (JStr ''Forbidden''))"

definition plan_error :: exc where
  "plan_error = HTTPException 422
     (JStr ''committed_clean_gbps must be between 0 and ceiling_clean_gbps'')"

definition validate_plan :: "rat \<Rightarrow> rat \<Rightarrow> unit dbprog" where
  "validate_plan committed ceil = ensure (\<not> (committed < 0 \<or> ceil < 0 \<or> ceil < committed)) plan_error"

definition single_host_error :: exc where
  "single_host_error = HTTPException 422
     (JStr ''Service destination must be a single host (e.g., a /32 CIDR)'')"

definition require_destination_scope :: "uuid \<Rightarrow> net \<Rightarrow> unit dbprog" where
  "require_destination_scope tenant_id cidr_or_ip =
     andThen (gets (\<lambda>db. cidr_in_tenant_allocation db tenant_id cidr_or_ip)) (\<lambda>ok.
     ensure ok (HTTPException 403 (JStr ''Forbidden'')))"

definition find_conflicting_service :: "db \<Rightarrow> net \<Rightarrow> uuid option \<Rightarrow> protected_service option" where
  "find_conflicting_service db cidr_or_ip exclude =
     first_of (sort_key sv_created_at
       (filter (\<lambda>s. net_overlaps (sv_cidr_or_ip s) cidr_or_ip \<and> exclude \<noteq> Some (sv_id s))
         (protected_services db)))"

definition service_overlap_error :: "protected_service \<Rightarrow> exc" where
  "service_overlap_error conflict =
     HTTPException 409 (JList [JStr ''Service destination overlaps '', JStr (sv_name conflict)])"

definition raise_integrity_error :: "exc \<Rightarrow> 'a dbprog" where
  "raise_integrity_error e =
     (if e = IntegrityError ''protected_service_dest_no_overlap''
      then raise (HTTPException 409 (JStr ''Service destination overlaps another service''))
      else if e = IntegrityError ''ck_service_plan_committed_le_ceiling'' then raise plan_error
      else raise e)"

definition require_service :: "uuid \<Rightarrow> protected_service dbprog" where
  "require_service service_id =
     fetch (\<lambda>db. get_service_row db service_id) (HTTPException 404 (JStr ''Service not found''))"

definition require_plan :: "uuid \<Rightarrow> service_plan dbprog" where
  "require_plan service_id =
     fetch (\<lambda>db. get_plan db service_id) (HTTPException 404 (JStr ''Service plan not found''))"

section \<open>Records returned to the API\<close>

record service_record =
  sr_service :: protected_service
  sr_plan :: service_plan
  sr_tenant :: "tenant option"
  sr_creator :: "user option"

definition record_from_loaded :: "db \<Rightarrow> protected_service \<Rightarrow> exc + service_record" where
  "record_from_loaded db service =
     (case get_plan db (sv_id service) of
        None \<Rightarrow> Inl (HTTPException 404 (JStr ''Service plan not found''))
      | Some plan \<Rightarrow> Inr \<lparr> sr_service = service, sr_plan = plan,
          sr_tenant = get_tenant db (sv_tenant_id service),
          sr_creator = Option.bind (sv_created_by service) (get_user db) \<rparr>)"

definition record_for_service :: "uuid \<Rightarrow> service_record dbprog" where
  "record_for_service service_id =
     andThen (require_service service_id) (\<lambda>loaded.
     andThen (gets (\<lambda>db. record_from_loaded db loaded)) (\<lambda>r.
     case r of Inl e \<Rightarrow> raise e | Inr x \<Rightarrow> ret x))"

fun records_from_loaded :: "db \<Rightarrow> protected_service list \<Rightarrow> exc + service_record list" where
  "records_from_loaded db [] = Inr []"
| "records_from_loaded db (s # ss) =
     (case record_from_loaded db s of
        Inl e \<Rightarrow> Inl e
      | Inr r \<Rightarrow> (case records_from_loaded db ss of Inl e \<Rightarrow> Inl e | Inr rs \<Rightarrow> Inr (r # rs)))"

record principal =
  pr_role :: Role
  pr_tenant_id :: "uuid option"

definition principal_can_access :: "principal \<Rightarrow> uuid \<Rightarrow> bool" where
  "principal_can_access p tenant_id \<longleftrightarrow> pr_role p = Role_admin \<or> pr_tenant_id p = Some tenant_id"

definition list_services :: "db \<Rightarrow> principal \<Rightarrow> exc + service_record list" where
  "list_services db p =
     (if pr_role p \<noteq> Role_admin \<and> pr_tenant_id p = None
      then Inl (HTTPException 403 (JStr ''Forbidden''))
      else records_from_loaded db (sort_key sv_created_at
        (filter (\<lambda>s. pr_role p = Role_admin \<or> pr_tenant_id p = Some (sv_tenant_id s))
          (protected_services db))))"

definition get_service :: "db \<Rightarrow> uuid \<Rightarrow> principal \<Rightarrow> exc + service_record" where
  "get_service db service_id p =
     (case get_service_row db service_id of
        None \<Rightarrow> Inl (HTTPException 404 (JStr ''Service not found''))
      | Some s \<Rightarrow>
          if \<not> principal_can_access p (sv_tenant_id s)
          then Inl (HTTPException 404 (JStr ''Service not found''))
          else record_from_loaded db s)"

definition list_non_host_services :: "db \<Rightarrow> exc + service_record list" where
  "list_non_host_services db =
     records_from_loaded db (filter (\<lambda>s. net_size (sv_cidr_or_ip s) \<noteq> 1) (protected_services db))"

section \<open>Operations\<close>

definition bump_version :: "timestamp \<Rightarrow> uuid \<Rightarrow> unit dbprog" where
  "bump_version now service_id =
     andThen (require_service service_id) (\<lambda>service.
     andThen (assert_transition (sv_apply_status service) ApplyStatus_pending) (\<lambda>_.
     andThen (modify (set_service service_id (\<lambda>s. s\<lparr>sv_version := sv_version s + 1,
       sv_apply_status := ApplyStatus_pending, sv_updated_at := now\<rparr>))) (\<lambda>_.
     flush_services)))"

text \<open>
  The flush of a new service and its plan.  \<open>committed\<close> and \<open>ceil\<close> are rounded
  by their columns before the check constraint sees them.
\<close>

definition insert_service :: "protected_service \<Rightarrow> service_plan \<Rightarrow> unit dbprog" where
  "insert_service service plan =
     andThen (gets (\<lambda>db. get_service_row db (sv_id service) = None)) (\<lambda>fresh.
     andThen (ensure fresh (IntegrityError ''protected_service_pkey'')) (\<lambda>_.
     andThen (gets (\<lambda>db. get_tenant db (sv_tenant_id service) \<noteq> None)) (\<lambda>fk.
     andThen (ensure fk (IntegrityError ''protected_service_tenant_id_fkey'')) (\<lambda>_.
     andThen (gets (\<lambda>db. get_plan db (pl_service_id plan) = None)) (\<lambda>one_plan.
     andThen (ensure one_plan (IntegrityError ''service_plan_service_id_key'')) (\<lambda>_.
     andThen (modify (\<lambda>db. db\<lparr>protected_services := protected_services db @ [service]\<rparr>)) (\<lambda>_.
     andThen flush_services (\<lambda>_.
     andThen (ensure (\<bar>pl_committed_clean_gbps plan\<bar> < 10 ^ 8 \<and> \<bar>pl_ceiling_clean_gbps plan\<bar> < 10 ^ 8)
       DataError) (\<lambda>_.
     andThen (ensure (0 \<le> pl_committed_clean_gbps plan \<and>
         pl_committed_clean_gbps plan \<le> pl_ceiling_clean_gbps plan)
       (IntegrityError ''ck_service_plan_committed_le_ceiling'')) (\<lambda>_.
     modify (\<lambda>db. db\<lparr>service_plans := service_plans db @ [plan]\<rparr>)))))))))))"

record service_limits =
  li_vip_pps :: "int option"
  li_vip_bps :: "int option"
  li_service_pps :: "int option"
  li_service_bps :: "int option"

text \<open>
  \<open>dp_id\<close> is the value \<open>nextval\<close> returns; \<open>concurrent\<close> is what other
  transactions commit between the checks and the flush.
\<close>

definition create_service ::
  "(db \<Rightarrow> db) \<Rightarrow> uuid \<Rightarrow> uuid \<Rightarrow> int \<Rightarrow> timestamp \<Rightarrow> uuid \<Rightarrow> string \<Rightarrow> net \<Rightarrow> user option \<Rightarrow> ServiceMode
   \<Rightarrow> service_limits \<Rightarrow> rat option \<Rightarrow> rat option \<Rightarrow> string \<Rightarrow> string option \<Rightarrow> service_record dbprog" where
  "create_service concurrent new_id job_id dp_id now tenant_id name cidr_or_ip actor mode limits
     committed_clean_gbps ceiling_clean_gbps billing_metric ip =
     andThen (authorize_actor_for_tenant actor tenant_id) (\<lambda>_.
     andThen (ensure (\<not> ((case actor of None \<Rightarrow> False | Some u \<Rightarrow> us_role u = Role_tenant_user) \<and>
         (committed_clean_gbps \<noteq> None \<or> ceiling_clean_gbps \<noteq> None)))
       (HTTPException 403 (JStr ''Forbidden''))) (\<lambda>_.
     let committed = (case committed_clean_gbps of Some c \<Rightarrow> c | None \<Rightarrow> 0);
         ceil = (case ceiling_clean_gbps of Some c \<Rightarrow> c | None \<Rightarrow> 0) in
     andThen (validate_plan committed ceil) (\<lambda>_.
     andThen (ensure (net_size cidr_or_ip = 1) single_host_error) (\<lambda>_.
     andThen (require_destination_scope tenant_id cidr_or_ip) (\<lambda>_.
     andThen (gets (\<lambda>db. find_conflicting_service db cidr_or_ip None)) (\<lambda>conflict.
     case conflict of Some c \<Rightarrow> raise (service_overlap_error c) | None \<Rightarrow>
     let service = \<lparr> sv_id = new_id, sv_dp_id = dp_id, sv_tenant_id = tenant_id, sv_name = name,
           sv_cidr_or_ip = cidr_or_ip, sv_mode = mode, sv_enabled = False,
           sv_vip_pps = li_vip_pps limits, sv_vip_bps = li_vip_bps limits,
           sv_service_pps = li_service_pps limits, sv_service_bps = li_service_bps limits,
           sv_apply_status = ApplyStatus_pending, sv_version = 1, sv_active_version = None,
           sv_created_by = map_option us_id actor, sv_created_at = now, sv_updated_at = now \<rparr>;
         plan = \<lparr> pl_service_id = new_id, pl_committed_clean_gbps = numeric_10_2 committed,
           pl_ceiling_clean_gbps = numeric_10_2 ceil, pl_billing_metric = billing_metric,
           pl_overage_policy = OveragePolicy_billed \<rparr> in
     andThen (modify concurrent) (\<lambda>_.
     andThen (catch (insert_service service plan) raise_integrity_error) (\<lambda>_.
     andThen (record_event now actor ''service.create'' (Some ''protected_service'') (JUuid new_id)
       ''success'' ip (Some [(''tenant_id'', JUuid tenant_id), (''cidr_or_ip'', JNet cidr_or_ip),
         (''name'', JStr name)])) (\<lambda>_.
     andThen (enqueue_service_update job_id now new_id Trigger_service) (\<lambda>_.
     record_for_service new_id))))))))))"

definition set_if_given :: "'a option \<Rightarrow> 'a \<Rightarrow> 'a" where
  "set_if_given new old = (case new of None \<Rightarrow> old | Some v \<Rightarrow> v)"

definition set_limit :: "int option \<Rightarrow> int option \<Rightarrow> int option" where
  "set_limit new old = (case new of None \<Rightarrow> old | Some v \<Rightarrow> Some v)"

definition update_service ::
  "uuid \<Rightarrow> timestamp \<Rightarrow> uuid \<Rightarrow> user option \<Rightarrow> string option \<Rightarrow> net option \<Rightarrow> ServiceMode option
   \<Rightarrow> service_limits \<Rightarrow> string option \<Rightarrow> service_record dbprog" where
  "update_service job_id now service_id actor name cidr_or_ip mode limits ip =
     andThen (require_service service_id) (\<lambda>service.
     andThen (authorize_actor_for_tenant actor (sv_tenant_id service)) (\<lambda>_.
     andThen (case cidr_or_ip of
         None \<Rightarrow> ret (sv_cidr_or_ip service)
       | Some c \<Rightarrow>
           if c = sv_cidr_or_ip service then ret (sv_cidr_or_ip service)
           else
             andThen (ensure (net_size c = 1) single_host_error) (\<lambda>_.
             andThen (require_destination_scope (sv_tenant_id service) c) (\<lambda>_.
             andThen (gets (\<lambda>db. find_conflicting_service db c (Some service_id))) (\<lambda>conflict.
             case conflict of Some x \<Rightarrow> raise (service_overlap_error x) | None \<Rightarrow> ret c)))) (\<lambda>dest.
     andThen (modify (set_service service_id (\<lambda>s. s\<lparr>sv_cidr_or_ip := dest,
       sv_name := set_if_given name (sv_name s), sv_mode := set_if_given mode (sv_mode s),
       sv_vip_pps := set_limit (li_vip_pps limits) (sv_vip_pps s),
       sv_vip_bps := set_limit (li_vip_bps limits) (sv_vip_bps s),
       sv_service_pps := set_limit (li_service_pps limits) (sv_service_pps s),
       sv_service_bps := set_limit (li_service_bps limits) (sv_service_bps s)\<rparr>))) (\<lambda>_.
     andThen (bump_version now service_id) (\<lambda>_.
     andThen (enqueue_service_update job_id now service_id Trigger_service) (\<lambda>_.
     andThen (record_event now actor ''service.update'' (Some ''protected_service'')
       (JUuid service_id) ''success'' ip (Some [(''tenant_id'', JUuid (sv_tenant_id service))])) (\<lambda>_.
     record_for_service service_id)))))))"

definition set_enabled ::
  "uuid \<Rightarrow> timestamp \<Rightarrow> uuid \<Rightarrow> bool \<Rightarrow> user option \<Rightarrow> string option \<Rightarrow> protected_service dbprog" where
  "set_enabled job_id now service_id enabled actor ip =
     andThen (require_service service_id) (\<lambda>service.
     andThen (authorize_actor_for_tenant actor (sv_tenant_id service)) (\<lambda>_.
     if sv_enabled service = enabled then ret service
     else
       andThen (modify (set_service service_id (\<lambda>s. s\<lparr>sv_enabled := enabled\<rparr>))) (\<lambda>_.
       andThen (bump_version now service_id) (\<lambda>_.
       andThen (enqueue_service_update job_id now service_id
         (if enabled then Trigger_enable else Trigger_disable)) (\<lambda>_.
       andThen (record_event now actor (if enabled then ''service.enable'' else ''service.disable'')
         (Some ''protected_service'') (JUuid service_id) ''success'' ip
         (Some [(''dangerous'', JBool (\<not> enabled))])) (\<lambda>_.
       loaded_service service_id))))))"

datatype plan_warning = Exceeds_capacity rat rat | Below_frame_share string rat rat

definition committed_rows :: "db \<Rightarrow> (protected_service \<times> service_plan) list" where
  "committed_rows db =
     concat (map (\<lambda>p. case get_service_row db (pl_service_id p) of
         None \<Rightarrow> [] | Some s \<Rightarrow> if sv_enabled s then [(s, p)] else []) (service_plans db))"

definition per_core_bps :: "nat \<Rightarrow> rat \<Rightarrow> rat" where
  "per_core_bps ncpus committed_gbps =
     fl (fl (fl (fl committed_gbps * 10 ^ 9) / 8) / of_nat ncpus)"

definition oversubscription_warnings :: "rat \<Rightarrow> nat \<Rightarrow> db \<Rightarrow> plan_warning list" where
  "oversubscription_warnings capacity ncpus db =
     (let total = sum_list (map (\<lambda>(s, p). pl_committed_clean_gbps p) (committed_rows db)) in
      (if capacity < total then [Exceeds_capacity total capacity] else []) @
      map (\<lambda>(s, p). Below_frame_share (sv_name s) (pl_committed_clean_gbps p)
             (per_core_bps ncpus (pl_committed_clean_gbps p)))
        (filter (\<lambda>(s, p). 0 < pl_committed_clean_gbps p \<and>
             per_core_bps ncpus (pl_committed_clean_gbps p) < 1500) (committed_rows db)))"

text \<open>The flush inside \<open>bump_version\<close> writes the plan too, under its constraints.\<close>

definition size_plan ::
  "rat \<Rightarrow> nat \<Rightarrow> uuid \<Rightarrow> timestamp \<Rightarrow> uuid \<Rightarrow> user option \<Rightarrow> rat \<Rightarrow> rat \<Rightarrow> string option
   \<Rightarrow> plan_warning list dbprog" where
  "size_plan capacity ncpus job_id now service_id actor committed ceil ip =
     andThen (require_admin_actor actor) (\<lambda>_.
     andThen (validate_plan committed ceil) (\<lambda>_.
     andThen (require_service service_id) (\<lambda>service.
     andThen (require_plan service_id) (\<lambda>plan.
     andThen (modify (\<lambda>db. db\<lparr>service_plans := update_row pl_service_id service_id
       (\<lambda>p. p\<lparr>pl_committed_clean_gbps := numeric_10_2 committed,
              pl_ceiling_clean_gbps := numeric_10_2 ceil\<rparr>) (service_plans db)\<rparr>)) (\<lambda>_.
     andThen (ensure (\<bar>numeric_10_2 committed\<bar> < 10 ^ 8 \<and> \<bar>numeric_10_2 ceil\<bar> < 10 ^ 8) DataError) (\<lambda>_.
     andThen (bump_version now service_id) (\<lambda>_.
     andThen (enqueue_service_update job_id now service_id Trigger_plan) (\<lambda>_.
     andThen (record_event now actor ''service.plan.update'' (Some ''protected_service'')
       (JUuid service_id) ''success'' ip (Some [(''committed_clean_gbps'', JDec committed),
         (''ceiling_clean_gbps'', JDec ceil)])) (\<lambda>_.
     gets (oversubscription_warnings capacity ncpus))))))))))"

text \<open>What the foreign keys do when a service row is deleted.\<close>

definition cascade_delete_service :: "uuid \<Rightarrow> db \<Rightarrow> db" where
  "cascade_delete_service i db =
     (let gone = map wl_id (filter (\<lambda>w. wl_service_id w = i) (whitelist_entries db)) in
      db\<lparr>protected_services := delete_row sv_id i (protected_services db),
         service_plans := delete_row pl_service_id i (service_plans db),
         allow_rules := filter (\<lambda>r. ru_service_id r \<noteq> i) (allow_rules db),
         whitelist_entries := filter (\<lambda>w. wl_service_id w \<noteq> i) (whitelist_entries db),
         feed_sync_overlaps :=
           filter (\<lambda>f. fo_whitelist_entry_id f \<notin> set gone) (feed_sync_overlaps db),
         agent_jobs := filter (\<lambda>j. jb_target_id j \<noteq> Some i) (agent_jobs db),
         billing_samples := filter (\<lambda>b. bs_service_id b \<noteq> i) (billing_samples db),
         billing_usages := update_where (\<lambda>b. bu_service_id b = Some i)
           (\<lambda>b. b\<lparr>bu_service_id := None\<rparr>) (billing_usages db),
         telemetry_counters := update_where (\<lambda>t. tc_service_id t = Some i)
           (\<lambda>t. t\<lparr>tc_service_id := None\<rparr>) (telemetry_counters db),
         alerts := update_where (\<lambda>a. at_service_id a = Some i)
           (\<lambda>a. a\<lparr>at_service_id := None\<rparr>) (alerts db)\<rparr>)"

definition delete_service :: "timestamp \<Rightarrow> uuid \<Rightarrow> user option \<Rightarrow> string option \<Rightarrow> unit dbprog" where
  "delete_service now service_id actor ip =
     andThen (require_service service_id) (\<lambda>service.
     andThen (authorize_actor_for_tenant actor (sv_tenant_id service)) (\<lambda>_.
     if sv_enabled service then
       andThen (record_event now actor ''service.delete'' (Some ''protected_service'')
         (JUuid service_id) ''denied'' ip
         (Some [(''reason'', JStr ''disable first''), (''dangerous'', JBool True)])) (\<lambda>_.
       raise (HTTPException 409 (JStr ''Disable service first'')))
     else
       andThen (record_event now actor ''service.delete'' (Some ''protected_service'')
         (JUuid service_id) ''success'' ip
         (Some [(''dangerous'', JBool True), (''tenant_id'', JUuid (sv_tenant_id service))])) (\<lambda>_.
       modify (cascade_delete_service service_id))))"

section \<open>The invariant\<close>

definition scope_inv :: "db \<Rightarrow> bool" where
  "scope_inv db \<longleftrightarrow>
     (\<forall>s\<in>set (protected_services db). valid_net (sv_cidr_or_ip s) \<and>
        cidr_in_tenant_allocation db (sv_tenant_id s) (sv_cidr_or_ip s))"

definition plans_inv :: "db \<Rightarrow> bool" where
  "plans_inv db \<longleftrightarrow>
     distinct (map pl_service_id (service_plans db)) \<and>
     (\<forall>p\<in>set (service_plans db). 0 \<le> pl_committed_clean_gbps p \<and>
        pl_committed_clean_gbps p \<le> pl_ceiling_clean_gbps p) \<and>
     (\<forall>s\<in>set (protected_services db). get_plan db (sv_id s) \<noteq> None)"

definition dest_inv :: "db \<Rightarrow> bool" where
  "dest_inv db \<longleftrightarrow> violated_constraint (protected_services db) = None"

text \<open>The invariant without the constraints that the next flush will check.\<close>

definition draft_inv :: "db \<Rightarrow> bool" where
  "draft_inv db \<longleftrightarrow> alloc_inv db \<and> apply_inv db \<and> scope_inv db \<and> plans_inv db"

definition config_inv :: "db \<Rightarrow> bool" where
  "config_inv db \<longleftrightarrow> draft_inv db \<and> dest_inv db"

text \<open>What a configuration change may touch besides the tables it is about.\<close>

definition sv_config :: "protected_service \<Rightarrow> protected_service" where
  "sv_config s = s\<lparr>sv_version := 0, sv_active_version := None, sv_apply_status := ApplyStatus_pending,
     sv_updated_at := 0\<rparr>"

definition erase_apply :: "db \<Rightarrow> db" where
  "erase_apply db = db\<lparr>protected_services := [], agent_jobs := [], post_commit := []\<rparr>"

definition same_config :: "db \<Rightarrow> db \<Rightarrow> bool" where
  "same_config db db' \<longleftrightarrow> erase_apply db' = erase_apply db \<and>
     map sv_config (protected_services db') = map sv_config (protected_services db)"

definition published :: "uuid \<Rightarrow> db \<Rightarrow> db \<Rightarrow> bool" where
  "published i db db' \<longleftrightarrow> same_config db db' \<and>
     (\<exists>s s'. get_service_row db i = Some s \<and> get_service_row db' i = Some s' \<and>
        sv_version s' = sv_version s + 1 \<and> sv_active_version s' = sv_active_version s \<and>
        sv_apply_status s' = ApplyStatus_queued)"

section \<open>Lemmas\<close>

lemma violated_constraint_None:
  "violated_constraint svcs = None \<longleftrightarrow>
     exclusive dest_overlap svcs \<and> distinct (map name_key svcs) \<and> distinct (map sv_dp_id svcs)"
  by (simp add: violated_constraint_def)

text \<open>Changes of a service that leave its identity and its destination.\<close>

definition same_static :: "(protected_service \<Rightarrow> protected_service) \<Rightarrow> bool" where
  "same_static f \<longleftrightarrow>
     (\<forall>s. sv_id (f s) = sv_id s \<and> sv_dp_id (f s) = sv_dp_id s \<and> sv_tenant_id (f s) = sv_tenant_id s \<and>
          sv_name (f s) = sv_name s \<and> sv_cidr_or_ip (f s) = sv_cidr_or_ip s)"

lemma cidr_in_tenant_allocation_cong [simp]:
  "cidr_in_tenant_allocation (set_service i f db) = cidr_in_tenant_allocation db"
  "cidr_in_tenant_allocation (set_job k g db) = cidr_in_tenant_allocation db"
  by (rule ext, rule ext, simp add: cidr_in_tenant_allocation_def set_service_def set_job_def)+

lemma cidr_in_tenant_allocation_only:
  "allocated_cidrs db' = allocated_cidrs db \<Longrightarrow>
   cidr_in_tenant_allocation db' = cidr_in_tenant_allocation db"
  by (rule ext, rule ext, simp add: cidr_in_tenant_allocation_def)

lemma scope_inv_set_service:
  assumes "scope_inv db" "\<And>s. get_service_row db i = Some s \<or> s \<in> set (protected_services db) \<and> sv_id s = i \<Longrightarrow>
      valid_net (sv_cidr_or_ip (f s)) \<and>
      cidr_in_tenant_allocation db (sv_tenant_id (f s)) (sv_cidr_or_ip (f s))"
  shows "scope_inv (set_service i f db)"
  using assms by (auto simp: scope_inv_def set_service_def cidr_in_tenant_allocation_def elim!: in_update_rowE)

lemma plans_inv_set_service:
  assumes "plans_inv db" "\<And>s. sv_id (f s) = sv_id s"
  shows "plans_inv (set_service i f db)"
  using assms by (auto simp: plans_inv_def set_service_def get_plan_def elim!: in_update_rowE)

lemma dest_inv_set_service:
  assumes "dest_inv db" "same_static f"
  shows "dest_inv (set_service i f db)"
proof -
  have "exclusive dest_overlap (update_row sv_id i f (protected_services db))"
    using assms unfolding update_row_def
    by (intro exclusive_map_anti)
      (auto simp: dest_inv_def violated_constraint_None same_static_def dest_overlap_def split: if_splits)
  moreover have "map name_key (update_row sv_id i f svcs) = map name_key svcs"
    "map sv_dp_id (update_row sv_id i f svcs) = map sv_dp_id svcs" for svcs
    using assms(2) by (auto simp: same_static_def name_key_def map_update_row)
  ultimately show ?thesis
    using assms(1) by (simp add: dest_inv_def violated_constraint_None set_service_def)
qed

lemma static_inv_set_service:
  assumes "same_static f"
  shows "scope_inv db \<Longrightarrow> scope_inv (set_service i f db)"
    "plans_inv db \<Longrightarrow> plans_inv (set_service i f db)" "dest_inv db \<Longrightarrow> dest_inv (set_service i f db)"
    "alloc_inv (set_service i f db) = alloc_inv db"
proof -
  show "scope_inv (set_service i f db)" if "scope_inv db"
    using that assms
    by (auto simp: scope_inv_def set_service_def cidr_in_tenant_allocation_def same_static_def
        elim!: in_update_rowE)
  show "plans_inv (set_service i f db)" if "plans_inv db"
    using that assms by (intro plans_inv_set_service) (simp_all add: same_static_def)
  show "dest_inv (set_service i f db)" if "dest_inv db"
    using that assms by (rule dest_inv_set_service)
qed (simp add: alloc_inv_def set_service_def)

lemma config_frame:
  assumes "protected_services db' = protected_services db" "allocated_cidrs db' = allocated_cidrs db"
    "service_plans db' = service_plans db"
  shows "scope_inv db' = scope_inv db" "plans_inv db' = plans_inv db" "dest_inv db' = dest_inv db"
    "alloc_inv db' = alloc_inv db"
  using assms cidr_in_tenant_allocation_only [OF assms(2)]
  by (simp_all add: scope_inv_def plans_inv_def dest_inv_def alloc_inv_def get_plan_def)

lemma config_set_job:
  "scope_inv (set_job k g db) = scope_inv db" "plans_inv (set_job k g db) = plans_inv db"
  "dest_inv (set_job k g db) = dest_inv db" "alloc_inv (set_job k g db) = alloc_inv db"
  by (rule config_frame; simp add: set_job_def)+

lemma apply_inv_set_attrs:
  assumes "apply_inv db" "\<And>s. sv_id (f s) = sv_id s \<and> sv_version (f s) = sv_version s \<and>
    sv_active_version (f s) = sv_active_version s \<and> sv_apply_status (f s) = sv_apply_status s"
  shows "apply_inv (set_service i f db)"
proof (cases "get_service_row db i")
  case None
  then have "update_row sv_id i f (protected_services db) = protected_services db"
    by (intro update_row_absent) (simp add: get_service_row_def row_None_iff)
  then show ?thesis using assms(1) by (simp add: apply_inv_def set_service_def)
next
  case (Some s)
  have ok: "apply_ok (protected_services db) (agent_jobs db)" using assms(1) by (simp add: apply_inv_def)
  have "version_ok (f s)"
    using apply_okD(6) [OF ok get_serviceD(1) [OF Some]] assms(2) [of s]
    by (auto simp: version_ok_def split: option.splits)
  then have "apply_ok (update_row sv_id i f (protected_services db)) (agent_jobs db)"
    using assms(2) by (intro apply_ok_service [OF ok get_serviceD [OF Some]]) auto
  then show ?thesis by (simp add: apply_inv_def set_service_def)
qed

lemma apply_inv_bump:
  assumes "apply_inv db"
  shows "apply_inv (set_service i (\<lambda>s. s\<lparr>sv_version := sv_version s + 1,
    sv_apply_status := ApplyStatus_pending, sv_updated_at := now\<rparr>) db)"
proof (cases "get_service_row db i")
  case None
  then have "update_row sv_id i f (protected_services db) = protected_services db" for f
    by (intro update_row_absent) (simp add: get_service_row_def row_None_iff)
  then show ?thesis using assms(1) by (simp add: apply_inv_def set_service_def)
next
  case (Some s)
  have ok: "apply_ok (protected_services db) (agent_jobs db)" using assms(1) by (simp add: apply_inv_def)
  have "version_ok s" using apply_okD(6) [OF ok get_serviceD(1) [OF Some]] .
  then have "apply_ok (update_row sv_id i (\<lambda>s. s\<lparr>sv_version := sv_version s + 1,
      sv_apply_status := ApplyStatus_pending, sv_updated_at := now\<rparr>) (protected_services db)) (agent_jobs db)"
    by (intro apply_ok_service [OF ok get_serviceD [OF Some]])
      (auto simp: version_ok_def split: option.splits)
  then show ?thesis by (simp add: apply_inv_def set_service_def)
qed

lemma wp_flush_services [wp_simps]:
  "wp flush_services Q E db =
     (case violated_constraint (protected_services db) of None \<Rightarrow> Q () db | Some c \<Rightarrow> E (IntegrityError c) db)"
  by (simp add: flush_services_def wp_simps split: option.splits)

text \<open>A new version is pending, its constraints have been checked.\<close>

lemma wp_bump_version:
  assumes "draft_inv db"
  shows "wp (bump_version now i) (\<lambda>_ db'. config_inv db' \<and>
      (\<forall>s. get_service_row db' i = Some s \<longrightarrow> sv_apply_status s = ApplyStatus_pending) \<and>
      get_service_row db' i \<noteq> None) (\<lambda>_ _. True) db"
  using assms apply_inv_bump [of db i now]
  by (auto simp: bump_version_def require_service_def assert_transition_def wp_simps draft_inv_def
      config_inv_def dest_inv_def table_simps static_inv_set_service same_static_def
      split: option.splits)

lemma config_frame_simps [simp]:
  "scope_inv (db\<lparr>agent_jobs := js\<rparr>) = scope_inv db" "plans_inv (db\<lparr>agent_jobs := js\<rparr>) = plans_inv db"
  "dest_inv (db\<lparr>agent_jobs := js\<rparr>) = dest_inv db" "alloc_inv (db\<lparr>agent_jobs := js\<rparr>) = alloc_inv db"
  "scope_inv (snd (register_dispatch k db)) = scope_inv db"
  "plans_inv (snd (register_dispatch k db)) = plans_inv db"
  "dest_inv (snd (register_dispatch k db)) = dest_inv db"
  "alloc_inv (snd (register_dispatch k db)) = alloc_inv db"
  "scope_inv (snd (record_event now actor ac tt ti out ip md db)) = scope_inv db"
  "plans_inv (snd (record_event now actor ac tt ti out ip md db)) = plans_inv db"
  "dest_inv (snd (record_event now actor ac tt ti out ip md db)) = dest_inv db"
  by (rule config_frame; simp add: register_dispatch_def run_simps)+

lemma config_inv_record_event [simp]:
  "config_inv (snd (record_event now actor ac tt ti out ip md db)) = config_inv db"
  by (simp add: config_inv_def draft_inv_def apply_inv_def)

lemma config_enqueue:
  assumes "config_inv db"
    "\<And>s. get_service_row db i = Some s \<Longrightarrow> sv_apply_status s \<noteq> ApplyStatus_failed"
  shows "wp (enqueue_service_update k now i tr) (\<lambda>_. config_inv) (\<lambda>_ _. True) db"
proof -
  have "wp (enqueue_service_update k now i tr) (\<lambda>_. apply_inv) (\<lambda>_ _. True) db"
    using assms wp_mono [OF enqueue_apply_inv] by (simp add: config_inv_def draft_inv_def)
  moreover have "wp (enqueue_service_update k now i tr)
      (\<lambda>_ db'. alloc_inv db' \<and> scope_inv db' \<and> plans_inv db' \<and> dest_inv db') (\<lambda>_ _. True) db"
    using assms(1)
    by (auto simp: enqueue_service_update_def insert_or_get_job_def job_for_target_version_def
        one_or_none_def load_defs wp_simps config_inv_def draft_inv_def static_inv_set_service
        same_static_def split: list.splits)
  ultimately show ?thesis
    by (rule wp_mono [OF wp_conj]) (auto simp: config_inv_def draft_inv_def)
qed

text \<open>A configuration change: raise the version, then enqueue its job.\<close>

text \<open>
  Publishing a change, \<open>bump_version\<close> and then \<open>enqueue_service_update\<close>: the
  version is one more, it is queued, and everything but the apply state of the
  services, the jobs and the pending dispatches is as it was.
\<close>

lemma sv_config_set_service:
  assumes "\<And>s. sv_config (f s) = sv_config s"
  shows "map sv_config (update_row sv_id i f svcs) = map sv_config svcs"
  using assms by (induction svcs) (auto simp: table_simps)

lemma same_config_refl [simp]: "same_config db db"
  by (simp add: same_config_def)

lemma same_config_trans: "same_config db db' \<Longrightarrow> same_config db' db'' \<Longrightarrow> same_config db db''"
  by (simp add: same_config_def)

lemma same_config_set_service:
  "(\<And>s. sv_config (f s) = sv_config s) \<Longrightarrow> same_config db (set_service i f db)"
  by (simp add: same_config_def set_service_def erase_apply_def sv_config_set_service)

lemma same_configD:
  assumes "same_config db db'"
  shows "allocated_cidrs db' = allocated_cidrs db" "service_plans db' = service_plans db"
    "allow_rules db' = allow_rules db" "whitelist_entries db' = whitelist_entries db"
    "blacklist_entries db' = blacklist_entries db" "tenants db' = tenants db"
    "map sv_id (protected_services db') = map sv_id (protected_services db)"
proof -
  have "map (sv_id \<circ> sv_config) (protected_services db') = map (sv_id \<circ> sv_config) (protected_services db)"
    using assms unfolding same_config_def by (metis map_map)
  moreover have "sv_id \<circ> sv_config = sv_id" by (simp add: fun_eq_iff sv_config_def)
  ultimately show "map sv_id (protected_services db') = map sv_id (protected_services db)" by simp
  have "f (erase_apply db') = f (erase_apply db)" for f :: "db \<Rightarrow> 'a"
    using assms by (simp add: same_config_def)
  note eq = this
  show "allocated_cidrs db' = allocated_cidrs db" using eq [of allocated_cidrs] by (simp add: erase_apply_def)
  show "service_plans db' = service_plans db" using eq [of service_plans] by (simp add: erase_apply_def)
  show "allow_rules db' = allow_rules db" using eq [of allow_rules] by (simp add: erase_apply_def)
  show "whitelist_entries db' = whitelist_entries db"
    using eq [of whitelist_entries] by (simp add: erase_apply_def)
  show "blacklist_entries db' = blacklist_entries db"
    using eq [of blacklist_entries] by (simp add: erase_apply_def)
  show "tenants db' = tenants db" using eq [of tenants] by (simp add: erase_apply_def)
qed

lemma wp_bump_changes:
  "wp (bump_version now i) (\<lambda>_ db'. same_config db db' \<and>
     (\<exists>s s'. get_service_row db i = Some s \<and> get_service_row db' i = Some s' \<and>
        sv_version s' = sv_version s + 1 \<and> sv_active_version s' = sv_active_version s)) (\<lambda>_ _. True) db"
  by (auto simp: bump_version_def require_service_def assert_transition_def wp_simps
      table_simps sv_config_def intro!: same_config_set_service split: option.splits)

lemma wp_insert_or_get:
  "wp (insert_or_get_job k now s tr)
     (\<lambda>_ db'. \<exists>js. db' = db\<lparr>agent_jobs := js\<rparr>) (\<lambda>_ _. True) db"
proof -
  have "\<exists>js. db = db\<lparr>agent_jobs := js\<rparr>" by (rule exI [of _ "agent_jobs db"]) simp
  moreover have "\<exists>js'. db\<lparr>agent_jobs := js\<rparr> = db\<lparr>agent_jobs := js'\<rparr>" for js by blast
  ultimately show ?thesis
    by (auto simp: insert_or_get_job_def insert_job_def job_for_target_version_def one_or_none_def
        wp_simps split: list.splits)
qed

lemma wp_enqueue_changes:
  "wp (enqueue_service_update k now i tr) (\<lambda>_ db'. same_config db db' \<and>
     (\<exists>s s'. get_service_row db i = Some s \<and> get_service_row db' i = Some s' \<and>
        sv_version s' = sv_version s \<and> sv_active_version s' = sv_active_version s \<and>
        sv_apply_status s' = ApplyStatus_queued)) (\<lambda>_ _. True) db"
proof -
  let ?q = "\<lambda>s. s\<lparr>sv_apply_status := ApplyStatus_queued, sv_updated_at := now\<rparr>"
  have "same_config db (snd (register_dispatch j (set_service i ?q (db\<lparr>agent_jobs := js\<rparr>))))" for j js
    by (simp add: register_dispatch_def run_simps same_config_def erase_apply_def set_service_def
        sv_config_set_service sv_config_def)
  moreover have "get_service_row (snd (register_dispatch j (set_service i ?q (db\<lparr>agent_jobs := js\<rparr>)))) i
      = map_option ?q (get_service_row db i)" for j js
    by (simp add: register_dispatch_def run_simps set_service_def get_service_row_def table_simps)
  ultimately show ?thesis
    by (auto simp: enqueue_service_update_def loaded_service_def wp_simps assert_transition_def
        intro!: wp_mono [OF wp_insert_or_get])
qed

lemma wp_publish:
  assumes "draft_inv db" "\<And>db'. config_inv db' \<Longrightarrow> published i db db' \<Longrightarrow> Q () db'"
  shows "wp (bump_version now i)
    (\<lambda>_. wp (enqueue_service_update k now' i tr) (\<lambda>_. Q ()) (\<lambda>_ _. True)) (\<lambda>_ _. True) db"
proof (rule wp_mono [OF wp_conj [OF wp_bump_version [OF assms(1)] wp_bump_changes]], elim conjE)
  fix x db'
  assume db': "config_inv db'" "\<forall>s. get_service_row db' i = Some s \<longrightarrow> sv_apply_status s = ApplyStatus_pending"
    "same_config db db'" "\<exists>s s'. get_service_row db i = Some s \<and> get_service_row db' i = Some s' \<and>
        sv_version s' = sv_version s + 1 \<and> sv_active_version s' = sv_active_version s"
  have "wp (enqueue_service_update k now' i tr) (\<lambda>_. config_inv) (\<lambda>_ _. True) db'"
    by (rule config_enqueue) (use db' in auto)
  from this wp_enqueue_changes [of k now' i tr db']
  show "wp (enqueue_service_update k now' i tr) (\<lambda>_. Q ()) (\<lambda>_ _. True) db'"
    by (rule wp_mono [OF wp_conj])
      (use db'(3,4) in \<open>auto simp: published_def intro!: assms(2) intro: same_config_trans\<close>)
qed simp

lemma config_draft: "config_inv db \<Longrightarrow> draft_inv db"
  by (simp add: config_inv_def)

lemma wp_record_for_service: "Q db \<Longrightarrow> wp (record_for_service i) (\<lambda>_. Q) (\<lambda>_ _. True) db"
  by (auto simp: record_for_service_def require_service_def wp_simps split: sum.splits)

lemma wp_authorize [wp_simps]:
  "wp (authorize_actor_for_tenant actor t) Q (\<lambda>_ _. True) db =
     ((case actor of None \<Rightarrow> True | Some u \<Rightarrow> us_role u = Role_admin \<or> us_tenant_id u = Some t) \<longrightarrow> Q () db)"
  by (auto simp: authorize_actor_for_tenant_def wp_simps split: option.splits)

lemma draft_set_attrs:
  assumes "config_inv db" "same_static f" "\<And>s. sv_version (f s) = sv_version s \<and>
    sv_active_version (f s) = sv_active_version s \<and> sv_apply_status (f s) = sv_apply_status s"
  shows "draft_inv (set_service i f db)"
  using assms apply_inv_set_attrs [of db f i] static_inv_set_service [OF assms(2)]
  by (auto simp: config_inv_def draft_inv_def same_static_def)

lemma commits_set_enabled: "commits config_inv (set_enabled job_id now i enabled actor ip)"
proof (rule commitsI)
  fix db assume inv: "config_inv db"
  have "draft_inv (set_service i (\<lambda>s. s\<lparr>sv_enabled := enabled\<rparr>) db)"
    by (rule draft_set_attrs [OF inv]) (simp_all add: same_static_def)
  then show "wp (set_enabled job_id now i enabled actor ip) (\<lambda>_. config_inv) (\<lambda>_ _. True) db"
    using inv
    by (auto simp: set_enabled_def require_service_def loaded_service_def wp_simps intro!: wp_publish)
qed

lemma numeric_10_2_mono:
  assumes "0 \<le> x" "x \<le> y"
  shows "0 \<le> numeric_10_2 x" "numeric_10_2 x \<le> numeric_10_2 y"
proof -
  have "\<lfloor>x * 100 + 1 / 2\<rfloor> \<le> \<lfloor>y * 100 + 1 / 2\<rfloor>" using assms by (intro floor_mono) simp
  then show "numeric_10_2 x \<le> numeric_10_2 y"
    using assms by (simp add: numeric_10_2_def Let_def divide_right_mono)
  show "0 \<le> numeric_10_2 x" using assms by (simp add: numeric_10_2_def Let_def)
qed

lemma plans_inv_resize:
  assumes "plans_inv db" "0 \<le> c" "c \<le> d"
  shows "plans_inv (db\<lparr>service_plans := update_row pl_service_id i
    (\<lambda>p. p\<lparr>pl_committed_clean_gbps := c, pl_ceiling_clean_gbps := d\<rparr>) (service_plans db)\<rparr>)"
  using assms
  by (auto simp: plans_inv_def map_update_row get_plan_def row_update_row elim!: in_update_rowE)

lemma draft_resize:
  assumes "config_inv db" "0 \<le> c" "c \<le> d"
  shows "draft_inv (db\<lparr>service_plans := update_row pl_service_id i
    (\<lambda>p. p\<lparr>pl_committed_clean_gbps := c, pl_ceiling_clean_gbps := d\<rparr>) (service_plans db)\<rparr>)"
  using assms plans_inv_resize [of db c d i]
  by (auto simp: config_inv_def draft_inv_def apply_inv_def alloc_inv_def scope_inv_def
      cidr_in_tenant_allocation_def)

lemma commits_size_plan:
  "commits config_inv (size_plan capacity ncpus job_id now i actor committed ceil ip)"
  by (rule commitsI)
    (auto simp: size_plan_def require_admin_actor_def validate_plan_def require_service_def
      require_plan_def wp_simps not_less intro!: wp_publish draft_resize numeric_10_2_mono)

lemma find_conflicting_None:
  "find_conflicting_service db c exclude = None \<longleftrightarrow>
     (\<forall>s\<in>set (protected_services db). net_overlaps (sv_cidr_or_ip s) c \<longrightarrow> exclude = Some (sv_id s))"
  by (auto simp: find_conflicting_service_def filter_empty_conv)

lemma draft_set_dest:
  assumes "config_inv db" "get_service_row db i = Some s0" "valid_net dest"
    "cidr_in_tenant_allocation db (sv_tenant_id s0) dest"
    "\<And>s. sv_id (f s) = sv_id s \<and> sv_tenant_id (f s) = sv_tenant_id s \<and> sv_cidr_or_ip (f s) = dest \<and>
      sv_version (f s) = sv_version s \<and> sv_active_version (f s) = sv_active_version s \<and>
      sv_apply_status (f s) = sv_apply_status s"
  shows "draft_inv (set_service i f db)"
proof -
  have "s = s0" if "s \<in> set (protected_services db)" "sv_id s = i" for s
    using assms(1) that get_serviceD [OF assms(2)]
    by (auto simp: config_inv_def draft_inv_def apply_inv_def distinct_map inj_on_def dest!: apply_okD(1))
  then have "scope_inv (set_service i f db)"
    using assms by (intro scope_inv_set_service) (auto simp: config_inv_def draft_inv_def)
  moreover have "plans_inv (set_service i f db)" "apply_inv (set_service i f db)"
    using assms by (auto simp: config_inv_def draft_inv_def intro: plans_inv_set_service apply_inv_set_attrs)
  ultimately show ?thesis
    using assms(1) by (simp add: draft_inv_def config_inv_def alloc_inv_def set_service_def)
qed

lemma config_scopeD:
  assumes "config_inv db" "get_service_row db i = Some s"
  shows "valid_net (sv_cidr_or_ip s)" "cidr_in_tenant_allocation db (sv_tenant_id s) (sv_cidr_or_ip s)"
  using assms get_serviceD(1) [OF assms(2)] by (auto simp: config_inv_def draft_inv_def scope_inv_def)

lemma commits_update_service:
  assumes "\<And>c. cidr_or_ip = Some c \<Longrightarrow> valid_net c"
  shows "commits config_inv (update_service job_id now i actor name cidr_or_ip mode limits ip)"
proof (rule commitsI)
  fix db assume inv: "config_inv db"
  show "wp (update_service job_id now i actor name cidr_or_ip mode limits ip) (\<lambda>_. config_inv) (\<lambda>_ _. True) db"
    using inv assms
    by (auto simp: update_service_def require_service_def require_destination_scope_def wp_simps
        config_scopeD intro!: wp_publish wp_record_for_service draft_set_dest split: option.splits)
qed


text \<open>A new service: pending, at version 1, without jobs.\<close>

lemma apply_inv_new_service:
  assumes "apply_inv db" "get_service_row db (sv_id s) = None" "sv_version s = 1"
    "sv_active_version s = None" "sv_apply_status s = ApplyStatus_pending"
  shows "apply_inv (db\<lparr>protected_services := protected_services db @ [s]\<rparr>)"
proof -
  have ok: "apply_ok (protected_services db) (agent_jobs db)" using assms(1) by (simp add: apply_inv_def)
  have fresh: "sv_id s \<notin> sv_id ` set (protected_services db)"
    using assms(2) by (simp add: get_service_row_def row_None_iff)
  then have "jb_target_id j \<noteq> Some (sv_id s)" if "j \<in> set (agent_jobs db)" for j
    using apply_okD(5) [OF ok that, of "sv_id s"] by (metis imageI)
  then have "version_jobs (agent_jobs db) (sv_id s) 1 = []"
    by (auto simp: version_jobs_def filter_empty_conv)
  then have "apply_ok (protected_services db @ [s]) (agent_jobs db)"
    using ok fresh assms(3-5) by (auto simp: apply_ok_def version_ok_def expected_jobs_def)
  then show ?thesis by (simp add: apply_inv_def)
qed

lemma config_new_service:
  assumes inv: "config_inv db" and fresh: "get_service_row db (sv_id s) = None"
    and new: "sv_version s = 1" "sv_active_version s = None" "sv_apply_status s = ApplyStatus_pending"
    and plan: "pl_service_id p = sv_id s" "get_plan db (pl_service_id p) = None"
      "0 \<le> pl_committed_clean_gbps p" "pl_committed_clean_gbps p \<le> pl_ceiling_clean_gbps p"
    and dest: "valid_net (sv_cidr_or_ip s)" "cidr_in_tenant_allocation db (sv_tenant_id s) (sv_cidr_or_ip s)"
      "violated_constraint (protected_services db @ [s]) = None"
  shows "config_inv (db\<lparr>protected_services := protected_services db @ [s],
    service_plans := service_plans db @ [p]\<rparr>)"
proof -
  have "apply_inv (db\<lparr>protected_services := protected_services db @ [s]\<rparr>)"
    using inv fresh new by (intro apply_inv_new_service) (simp_all add: config_inv_def draft_inv_def)
  moreover have "distinct (map pl_service_id (service_plans db @ [p]))"
    using inv plan by (simp add: config_inv_def draft_inv_def plans_inv_def get_plan_def row_None_iff)
  moreover have "row pl_service_id i (service_plans db @ [p]) \<noteq> None"
    if "get_plan db i \<noteq> None \<or> i = sv_id s" for i
    using that plan(1) by (auto simp: get_plan_def table_simps split: option.splits)
  ultimately show ?thesis
    using inv plan(3,4) dest
    by (auto simp: config_inv_def draft_inv_def apply_inv_def scope_inv_def plans_inv_def dest_inv_def
        alloc_inv_def get_plan_def cidr_in_tenant_allocation_def)
qed

lemma wp_insert_service:
  "wp (insert_service s p) Q (\<lambda>_ _. True) db =
     (get_service_row db (sv_id s) = None \<and> get_tenant db (sv_tenant_id s) \<noteq> None \<and>
      get_plan db (pl_service_id p) = None \<and> violated_constraint (protected_services db @ [s]) = None \<and>
      \<bar>pl_committed_clean_gbps p\<bar> < 10 ^ 8 \<and> \<bar>pl_ceiling_clean_gbps p\<bar> < 10 ^ 8 \<and>
      0 \<le> pl_committed_clean_gbps p \<and> pl_committed_clean_gbps p \<le> pl_ceiling_clean_gbps p \<longrightarrow>
      Q () (db\<lparr>protected_services := protected_services db @ [s], service_plans := service_plans db @ [p]\<rparr>))"
  by (auto simp: insert_service_def wp_simps split: option.splits)

lemma wp_raise_integrity: "wp (raise_integrity_error e) Q (\<lambda>_ _. True) = (\<lambda>_. True)"
  by (auto simp: wp_simps raise_integrity_error_def)

lemma wp_first_job:
  assumes "config_inv (db\<lparr>protected_services := protected_services db @ [s], service_plans := ps\<rparr>)"
    "sv_id s = i" "sv_apply_status s = ApplyStatus_pending" "get_service_row db i = None"
  shows "wp (enqueue_service_update job_id now i tr)
      (\<lambda>_. wp (record_for_service i) (\<lambda>_. config_inv) (\<lambda>_ _. True)) (\<lambda>_ _. True)
      (snd (record_event t actor ac tt ti out ip md
        (db\<lparr>protected_services := protected_services db @ [s], service_plans := ps\<rparr>)))"
  using assms
  by (intro wp_mono [OF config_enqueue] wp_record_for_service)
    (auto simp: get_service_row_def table_simps)

lemma commits_create_service:
  assumes conc: "\<And>db. config_inv db \<Longrightarrow> config_inv (concurrent db)"
    and scope: "\<And>db. cidr_in_tenant_allocation db tenant_id cidr \<Longrightarrow>
      cidr_in_tenant_allocation (concurrent db) tenant_id cidr"
    and v: "valid_net cidr"
  shows "commits config_inv (create_service concurrent new_id job_id dp_id now tenant_id name cidr actor
    mode limits committed ceil metric ip)"
proof (rule commitsI)
  fix db assume inv: "config_inv db"
  let ?Q = "\<lambda>_. config_inv" and ?E = "\<lambda>_ _. True"
  show "wp (create_service concurrent new_id job_id dp_id now tenant_id name cidr actor
    mode limits committed ceil metric ip) ?Q ?E db"
    using inv conc [OF inv] scope [of db] v
    by (auto simp: create_service_def wp_raise_integrity wp_insert_service validate_plan_def
        require_destination_scope_def wp_simps Let_def
        intro!: wp_first_job config_new_service split: option.splits)
qed

lemma apply_inv_delete:
  assumes "apply_inv db"
  shows "apply_inv (cascade_delete_service i db)"
proof -
  have ok: "apply_ok (protected_services db) (agent_jobs db)" using assms by (simp add: apply_inv_def)
  let ?js = "filter (\<lambda>j. jb_target_id j \<noteq> Some i) (agent_jobs db)"
  have same: "version_jobs ?js k v = version_jobs (agent_jobs db) k v" if "k \<noteq> i" for k v
    using that by (auto simp: version_jobs_def intro: filter_cong)
  have "length (version_jobs ?js k v) \<le> 1" for k v
    using apply_okD(4) [OF ok, of k v] same [of k v]
    by (cases "k = i") (auto simp: version_jobs_def filter_empty_conv)
  moreover have "\<exists>s\<in>set (delete_row sv_id i (protected_services db)). sv_id s = k \<and> jb_version j \<le> sv_version s"
    if "j \<in> set ?js" "jb_target_id j = Some k" for j k
    using that apply_okD(5) [OF ok, of j k] by auto
  ultimately have "apply_ok (delete_row sv_id i (protected_services db)) ?js"
    using apply_okD [OF ok] same by (auto simp: apply_ok_def list_all_iff)
  then show ?thesis by (simp add: apply_inv_def cascade_delete_service_def Let_def)
qed

lemma config_delete:
  assumes "config_inv db"
  shows "config_inv (cascade_delete_service i db)"
proof -
  have "violated_constraint (delete_row sv_id i (protected_services db)) = None"
    using assms by (simp add: config_inv_def dest_inv_def violated_constraint_None)
  moreover have "plans_inv (cascade_delete_service i db)"
    using assms by (auto simp: config_inv_def draft_inv_def plans_inv_def cascade_delete_service_def
        Let_def get_plan_def row_delete_row)
  ultimately show ?thesis
    using assms apply_inv_delete [of db i]
    by (auto simp: config_inv_def draft_inv_def dest_inv_def scope_inv_def alloc_inv_def
        cascade_delete_service_def Let_def cidr_in_tenant_allocation_def)
qed

lemma commits_delete_service: "commits config_inv (delete_service now i actor ip)"
  by (rule commitsI) (auto simp: delete_service_def require_service_def wp_simps config_delete)

section \<open>Allocations under the services that use them\<close>

lemma config_allocate:
  assumes conc: "\<And>db. config_inv db \<Longrightarrow> config_inv (concurrent db)" and v: "valid_net cidr"
  shows "commits config_inv (allocate concurrent new_id now tenant_id cidr actor ip)"
proof (rule commitsI)
  fix db assume inv: "config_inv db"
  let ?db = "concurrent db"
  have ins: "wp (insert_allocation a) (\<lambda>_. config_inv) (\<lambda>_ _. True) ?db" if "al_cidr a = cidr" for a
  proof (rule wp_mono [OF wp_insert_allocation])
    show "alloc_inv ?db" using conc [OF inv] by (simp add: config_inv_def draft_inv_def)
    fix u db' assume "alloc_inv db' \<and> db' = ?db\<lparr>allocated_cidrs := allocated_cidrs ?db @ [a]\<rparr>"
    then show "config_inv db'"
      using conc [OF inv]
      by (auto simp: config_inv_def draft_inv_def apply_inv_def scope_inv_def plans_inv_def dest_inv_def
          get_plan_def cidr_in_tenant_allocation_def)
  qed (use v that in simp_all)
  show "wp (allocate concurrent new_id now tenant_id cidr actor ip) (\<lambda>_. config_inv) (\<lambda>_ _. True) db"
    by (auto simp: allocate_def wp_simps Let_def intro!: wp_mono [OF ins])
qed

text \<open>An allocation without services in it carries no service.\<close>

lemma scope_inv_revoke:
  assumes "scope_inv db" "get_allocation db i = Some a" "count_allocation_dependents db a = []"
    "distinct (map al_id (allocated_cidrs db))"
  shows "scope_inv (db\<lparr>allocated_cidrs := update_row al_id i (\<lambda>_. r) (allocated_cidrs db)\<rparr>)"
proof -
  have a: "a \<in> set (allocated_cidrs db)" "al_id a = i"
    using assms(2) by (auto simp: get_allocation_def dest: row_SomeD)
  have none: "\<not> net_contains (al_cidr a) (sv_cidr_or_ip s)" if "s \<in> set (protected_services db)" for s
    using assms(3) that
    by (auto simp: count_allocation_dependents_def services_in_cidr_def filter_empty_conv)
  have "\<exists>b\<in>set (update_row al_id i (\<lambda>_. r) (allocated_cidrs db)). al_tenant_id b = t \<and>
      al_status b = CIDRStatus_active \<and> net_contains (al_cidr b) (sv_cidr_or_ip s)"
    if s: "s \<in> set (protected_services db)" and b: "b \<in> set (allocated_cidrs db)" "al_tenant_id b = t"
      "al_status b = CIDRStatus_active" "net_contains (al_cidr b) (sv_cidr_or_ip s)" for s b t
  proof -
    have "al_id b \<noteq> i"
      using a b(1,4) none [OF s] assms(4) by (auto simp: distinct_map inj_on_def)
    then show ?thesis using in_update_rowI(2) [OF b(1), of al_id i "\<lambda>_. r"] b(2-) by blast
  qed
  then show ?thesis
    using assms(1) unfolding scope_inv_def cidr_in_tenant_allocation_def list_ex_iff by simp blast
qed

lemma config_revoke: "commits config_inv (revoke now i actor ip)"
proof (rule commitsI)
  fix db assume inv: "config_inv db"
  have "config_inv (db\<lparr>allocated_cidrs := update_row al_id i
      (\<lambda>_. a\<lparr>al_status := CIDRStatus_revoked, al_updated_at := now\<rparr>) (allocated_cidrs db)\<rparr>)"
    if "get_allocation db i = Some a" "count_allocation_dependents db a = []" for a
    using inv that scope_inv_revoke [of db i a "a\<lparr>al_status := CIDRStatus_revoked, al_updated_at := now\<rparr>"]
      alloc_ok_revoke [of "allocated_cidrs db" "a\<lparr>al_status := CIDRStatus_revoked, al_updated_at := now\<rparr>" i]
    by (auto simp: config_inv_def draft_inv_def apply_inv_def plans_inv_def dest_inv_def get_plan_def
        alloc_inv_def alloc_ok_def list_all_iff get_allocation_def dest!: row_SomeD)
  then show "wp (revoke now i actor ip) (\<lambda>_. config_inv) (\<lambda>_ _. True) db"
    using inv by (auto simp: revoke_def wp_simps Let_def)
qed

section \<open>Sequences of requests\<close>










section \<open>Properties\<close>

lemma sample_config: "config_inv sample_db"
proof -
  have "scope_inv sample_db" "plans_inv sample_db" "dest_inv sample_db"
    by (simp_all add: scope_inv_def plans_inv_def dest_inv_def violated_constraint_def
        cidr_in_tenant_allocation_def get_plan_def sample_defs table_simps valid_net_def net_size_def
        net_contains_def)
  then show ?thesis using sample_alloc sample_apply by (simp add: config_inv_def draft_inv_def)
qed

text \<open>
  C2 The configuration stays consistent.  Every operation on services and
  allocations that commits keeps, together: services lie in an active allocation
  of their tenant, destinations, names and data-plane identifiers are unique,
  every service has one plan with \<open>0 <= committed <= ceiling\<close>, active allocations
  are disjoint, and the ledger has the jobs the apply states call for.  Other
  transactions may commit between the checks and the insert of a new service or
  allocation, as long as they keep the same and do not revoke the allocation that
  was checked.
\<close>

theorem configuration_stays_consistent:
  assumes "\<And>db. config_inv db \<Longrightarrow> config_inv (concurrent db)"
    "\<And>db. cidr_in_tenant_allocation db tenant_id cidr \<Longrightarrow> cidr_in_tenant_allocation (concurrent db) tenant_id cidr"
    "valid_net cidr"
  shows "commits config_inv (create_service concurrent new_id job_id dp_id now tenant_id name cidr actor
      mode limits committed ceil metric ip) \<and>
    commits config_inv (update_service job_id now i actor name' (Some cidr) mode' limits ip) \<and>
    commits config_inv (set_enabled job_id now i enabled actor ip) \<and>
    commits config_inv (size_plan capacity ncpus job_id now i actor committed' ceil' ip) \<and>
    commits config_inv (delete_service now i actor ip) \<and>
    commits config_inv (allocate concurrent new_id now tenant_id cidr actor ip) \<and>
    commits config_inv (revoke now i actor ip)"
  using commits_create_service [OF assms] commits_update_service [of "Some cidr"] commits_set_enabled
    commits_size_plan commits_delete_service config_allocate [OF assms(1,3)] config_revoke assms(3)
  by (intro conjI) simp_all

theorem configuration_stays_consistent_witness:
  "commits config_inv (create_service (\<lambda>db. db) 31 41 2 5 2 ''db'' (Net 167772162 32) None ServiceMode_allow_rule_only
     \<lparr> li_vip_pps = None, li_vip_bps = None, li_service_pps = None, li_service_bps = None \<rparr> None None ''p95_clean'' None) \<and>
   config_inv sample_db"
proof -
  have "valid_net (Net 167772162 32)" by (simp add: valid_net_def net_size_def)
  from configuration_stays_consistent [of "\<lambda>db. db" 2 "Net 167772162 32", OF _ _ this] sample_config
  show ?thesis by simp
qed




definition no_limits :: service_limits where
  "no_limits = \<lparr> li_vip_pps = None, li_vip_bps = None, li_service_pps = None, li_service_bps = None \<rparr>"




text \<open>The deployment with a second allocation, 11.0.0.0/8, and no service in it.\<close>

definition race_db :: db where
  "race_db = sample_db\<lparr>allocated_cidrs := [sample_allocation, sample_allocation\<lparr>al_id := 21, al_cidr := Net 184549376 8\<rparr>]\<rparr>"

lemma race_fields:
  "tenants race_db = [sample_tenant]" "protected_services race_db = [sample_service]"
  "service_plans race_db = [sample_plan]" "agent_jobs race_db = [sample_job]" "post_commit race_db = []"
  "allocated_cidrs race_db = [sample_allocation, sample_allocation\<lparr>al_id := 21, al_cidr := Net 184549376 8\<rparr>]"
  by (simp_all add: race_db_def sample_db_def empty_db_def)

lemma race_revoke:
  "fst (revoke 7 21 None None race_db) = Inr (sample_allocation\<lparr>al_id := 21, al_cidr := Net 184549376 8, al_status := CIDRStatus_revoked, al_updated_at := 7\<rparr>)"
  "snd (revoke 7 21 None None race_db) = race_db\<lparr>allocated_cidrs := [sample_allocation, sample_allocation\<lparr>al_id := 21, al_cidr := Net 184549376 8, al_status := CIDRStatus_revoked, al_updated_at := 7\<rparr>],
     audit_events := audit_events (snd (revoke 7 21 None None race_db))\<rparr>"
  by (simp_all add: revoke_def get_allocation_def race_db_def sample_defs table_simps run_simps record_event_def
      count_allocation_dependents_def services_in_cidr_def net_contains_def Let_def)

lemma wp_create_stores:
  "wp (create_service concurrent new_id job_id dp_id now tenant_id name cidr actor mode limits committed ceil metric ip)
     (\<lambda>_ db'. allocated_cidrs db' = allocated_cidrs (concurrent db) \<and>
        (\<exists>s\<in>set (protected_services db'). sv_id s = new_id \<and> sv_cidr_or_ip s = cidr \<and> sv_tenant_id s = tenant_id))
     (\<lambda>_ _. True) db"
proof -
  let ?Q = "\<lambda>db'. allocated_cidrs db' = allocated_cidrs (concurrent db) \<and>
        (\<exists>s\<in>set (protected_services db'). sv_id s = new_id \<and> sv_cidr_or_ip s = cidr \<and> sv_tenant_id s = tenant_id)"
  have keep: "?Q db''" if "same_config db' db''" "?Q db'" for db' db''
  proof -
    have "(\<lambda>s. (sv_id s, sv_cidr_or_ip s, sv_tenant_id s)) (sv_config s) = (sv_id s, sv_cidr_or_ip s, sv_tenant_id s)" for s
      by (simp add: sv_config_def)
    then have "map (\<lambda>s. (sv_id s, sv_cidr_or_ip s, sv_tenant_id s)) (protected_services db'') =
        map (\<lambda>s. (sv_id s, sv_cidr_or_ip s, sv_tenant_id s)) (protected_services db')"
      using that(1) unfolding same_config_def by (metis (mono_tags, lifting) comp_apply list.map_comp map_eq_conv)
    then have "(\<lambda>s. (sv_id s, sv_cidr_or_ip s, sv_tenant_id s)) ` set (protected_services db'') =
        (\<lambda>s. (sv_id s, sv_cidr_or_ip s, sv_tenant_id s)) ` set (protected_services db')"
      by (metis set_map)
    then show ?thesis using that(2) same_configD(1) [OF that(1)] by (auto simp: image_iff set_eq_iff) (metis)
  qed
  have rest: "wp (enqueue_service_update job_id now new_id tr)
      (\<lambda>_. wp (record_for_service new_id) (\<lambda>_. ?Q) (\<lambda>_ _. True)) (\<lambda>_ _. True) db'" if "?Q db'" for tr db'
    by (rule wp_mono [OF wp_enqueue_changes]) (use that keep in \<open>blast intro: wp_record_for_service\<close>)+
  show ?thesis
    by (auto simp: create_service_def wp_raise_integrity wp_insert_service validate_plan_def
        require_destination_scope_def wp_simps Let_def intro!: rest split: option.splits)
qed


lemma revoke_leaves:
  assumes "config_inv db" "get_allocation db k = Some a" "al_status a = CIDRStatus_active"
    "fst (revoke now k actor ip db) = Inr revoked" "b \<in> set (allocated_cidrs (snd (revoke now k actor ip db)))"
    "al_status b = CIDRStatus_active"
  shows "net_addrs (al_cidr a) \<inter> net_addrs (al_cidr b) = {}"
proof -
  have a: "a \<in> set (allocated_cidrs db)" "al_id a = k"
    using assms(2) by (auto simp: get_allocation_def dest: row_SomeD)
  have "allocated_cidrs (snd (revoke now k actor ip db)) =
      update_row al_id k (\<lambda>_. a\<lparr>al_status := CIDRStatus_revoked, al_updated_at := now\<rparr>) (allocated_cidrs db)"
    using assms(2-4) by (auto simp: revoke_def run_simps Let_def record_event_def split: if_splits)
  moreover have "b \<noteq> a\<lparr>al_status := CIDRStatus_revoked, al_updated_at := now\<rparr>" using assms(6) by auto
  ultimately have "b \<in> set (allocated_cidrs db)" "al_id b \<noteq> k" using assms(5) by (auto elim!: in_update_rowE)
  with a(2) have "b \<in> set (allocated_cidrs db)" "b \<noteq> a" by auto
  then show ?thesis
    using active_disjoint [of db a b] assms(1,3,6) a(1) by (auto simp: config_inv_def draft_inv_def)
qed

text \<open>
  C40 The one window.  Take any consistent configuration and a revocation
  that succeeds there, of the allocation that holds the destination of a new
  service.  If it commits between the scope check of the creation and its insert
  and the creation returns, the service is stored and none of its addresses
  belongs to an active allocation any more.
\<close>

theorem create_races_with_revoke:
  assumes "config_inv db" "get_allocation db k = Some a" "al_status a = CIDRStatus_active"
    "valid_net cidr" "net_contains (al_cidr a) cidr" "fst (revoke t k actor' ip' db) = Inr revoked"
    "create_service (\<lambda>db. snd (revoke t k actor' ip' db)) new_id job_id dp_id now tenant_id name cidr actor
       mode limits committed ceil metric ip db = (Inr r, db')"
  shows "(\<exists>s\<in>set (protected_services db'). sv_id s = new_id \<and> sv_cidr_or_ip s = cidr) \<and>
    (\<forall>b\<in>set (allocated_cidrs db'). al_status b = CIDRStatus_active \<longrightarrow> net_addrs cidr \<inter> net_addrs (al_cidr b) = {})"
proof -
  note stored = wp_okD [OF wp_create_stores assms(7)]
  have "valid_net (al_cidr a)"
    using assms(1,2) by (auto simp: config_inv_def draft_inv_def alloc_inv_def alloc_ok_def list_all_iff
        get_allocation_def dest!: row_SomeD)
  then have "net_addrs cidr \<subseteq> net_addrs (al_cidr a)" using net_contains_iff_subset assms(4,5) by blast
  then show ?thesis using stored revoke_leaves [OF assms(1-3,6)] by auto
qed

lemma race_config: "config_inv race_db"
    using sample_apply(1)
    by (auto simp: config_inv_def draft_inv_def apply_inv_def alloc_inv_def alloc_ok_def scope_inv_def plans_inv_def
        dest_inv_def violated_constraint_def cidr_in_tenant_allocation_def get_plan_def race_db_def sample_defs
        table_simps valid_net_def net_size_def net_contains_def both_active_overlap_def net_overlaps_def)

lemma race_creates:
  "\<exists>r db'. create_service (\<lambda>db. snd (revoke 7 21 None None db)) 31 41 2 5 2 ''db'' (Net 184549377 32) None
      ServiceMode_allow_rule_only no_limits None None ''p95_clean'' None race_db = (Inr r, db')"
proof -
  obtain es where rev: "snd (revoke 7 21 None None race_db) = race_db\<lparr>allocated_cidrs := [sample_allocation, sample_allocation\<lparr>al_id := 21, al_cidr := Net 184549376 8, al_status := CIDRStatus_revoked, al_updated_at := 7\<rparr>],
     audit_events := es\<rparr>"
    using race_revoke(2) by blast
  have "wp (create_service (\<lambda>db. snd (revoke 7 21 None None db)) 31 41 2 5 2 ''db'' (Net 184549377 32) None
      ServiceMode_allow_rule_only no_limits None None ''p95_clean'' None) (\<lambda>_ _. True) (\<lambda>_ _. False) race_db"
      by (simp add: create_service_def wp_simps rev authorize_actor_for_tenant_def validate_plan_def
          require_destination_scope_def Let_def insert_service_def enqueue_service_update_def insert_or_get_job_def
          insert_job_def record_for_service_def require_service_def load_defs)
        (simp add: wp_simps insert_job_def load_defs cidr_in_tenant_allocation_def find_conflicting_service_def first_of_def net_overlaps_def net_size_def net_contains_def
          violated_constraint_def get_tenant_def get_service_row_def get_plan_def get_job_def table_simps
          service_job_exists_def new_service_job_def record_event_def register_dispatch_def run_simps set_service_def
          record_from_loaded_def numeric_10_2_def dest_overlap_def name_key_def lower_def race_fields
          no_limits_def rev sample_tenant_def sample_service_def sample_plan_def sample_job_def sample_allocation_def)
  then show ?thesis by (auto simp: wp_def split: prod.splits sum.splits)
qed

theorem create_races_with_revoke_witness:
  "\<exists>r db'. create_service (\<lambda>db. snd (revoke 7 21 None None db)) 31 41 2 5 2 ''db'' (Net 184549377 32) None
      ServiceMode_allow_rule_only no_limits None None ''p95_clean'' None race_db = (Inr r, db') \<and>
    (\<exists>s\<in>set (protected_services db'). sv_cidr_or_ip s = Net 184549377 32) \<and>
    (\<forall>b\<in>set (allocated_cidrs db'). al_status b = CIDRStatus_active \<longrightarrow>
       net_addrs (Net 184549377 32) \<inter> net_addrs (al_cidr b) = {})"
proof -
  let ?a = "sample_allocation\<lparr>al_id := 21, al_cidr := Net 184549376 8\<rparr>"
  have "get_allocation race_db 21 = Some ?a" "al_status ?a = CIDRStatus_active" "valid_net (Net 184549377 32)"
      "net_contains (al_cidr ?a) (Net 184549377 32)"
    by (simp_all add: get_allocation_def race_fields sample_allocation_def table_simps valid_net_def net_size_def net_contains_def)
  moreover obtain r db' where run: "create_service (\<lambda>db. snd (revoke 7 21 None None db)) 31 41 2 5 2 ''db'' (Net 184549377 32) None
      ServiceMode_allow_rule_only no_limits None None ''p95_clean'' None race_db = (Inr r, db')"
    using race_creates by blast
  ultimately show ?thesis
    using create_races_with_revoke [OF race_config _ _ _ _ race_revoke(1) run] by blast
qed

end
