(* ===== verification/Rules.thy ===== *)
theory Rules
  imports Services RuleMatch
begin

text \<open>
  The allow rules of a service, \<open>app/services/rules.py\<close>, over the tables of
  Models and the publishing of a new version in Services.  A request field that
  may be absent is an option.  The lemmas show that every operation keeps the
  rule limit, unique priorities and valid port ranges, and what the overlap
  warnings say.
\<close>

section \<open>Rendering\<close>

definition chars :: "ustr \<Rightarrow> string" where
  "chars = map char_of"

definition str_int :: "int \<Rightarrow> string" where
  "str_int n = (if n < 0 then CHR ''-'' # chars (dec (nat (- n))) else chars (dec (nat n)))"

definition hex_char :: "nat \<Rightarrow> char" where
  "hex_char n = (if n < 10 then char_of (48 + n) else char_of (87 + n))"

text \<open>\<open>str(uuid)\<close>: 32 hexadecimal digits in groups of 8, 4, 4, 4 and 12.\<close>

fun hex_digits :: "nat \<Rightarrow> nat \<Rightarrow> string" where
  "hex_digits 0 n = []"
| "hex_digits (Suc k) n = hex_digits k (n div 16) @ [hex_char (n mod 16)]"

definition str_uuid :: "uuid \<Rightarrow> string" where
  "str_uuid u =
     (let h = hex_digits 32 u in
      take 8 h @ ''-'' @ take 4 (drop 8 h) @ ''-'' @ take 4 (drop 12 h) @ ''-'' @
      take 4 (drop 16 h) @ ''-'' @ drop 20 h)"

section \<open>Definitions\<close>

definition MAX_RULES_PER_SERVICE :: nat where
  "MAX_RULES_PER_SERVICE = 16"

record RuleMutationResult =
  rm_rule :: allow_rule
  rm_warnings :: "string list"
  rm_service :: protected_service

text \<open>
  The constraints of the table.  A check constraint only fails when it is
  false, so an unknown truth value (one bound absent) passes it.
\<close>

definition in_uint16 :: "int \<Rightarrow> bool" where
  "in_uint16 n \<longleftrightarrow> 0 \<le> n \<and> n \<le> 65535"

definition ck_port_range :: "int option \<Rightarrow> int option \<Rightarrow> bool" where
  "ck_port_range lo hi =
     (case (lo, hi) of
        (None, None) \<Rightarrow> True
      | (Some l, Some h) \<Rightarrow> in_uint16 l \<and> in_uint16 h \<and> l \<le> h
      | (Some l, None) \<Rightarrow> in_uint16 l
      | (None, Some h) \<Rightarrow> in_uint16 h)"

definition rule_key :: "allow_rule \<Rightarrow> uuid \<times> int" where
  "rule_key r = (ru_service_id r, ru_priority r)"

definition violated_rule_constraint :: "allow_rule list \<Rightarrow> string option" where
  "violated_rule_constraint rs =
     (if \<not> distinct (map ru_id rs) then Some ''allow_rule_pkey''
      else if \<not> distinct (map rule_key rs) then Some ''uq_allow_rule_service_priority''
      else if \<not> list_all (\<lambda>r. ck_port_range (ru_src_port_lo r) (ru_src_port_hi r)) rs
      then Some ''ck_allow_rule_src_port_range''
      else if \<not> list_all (\<lambda>r. ck_port_range (ru_dst_port_lo r) (ru_dst_port_hi r)) rs
      then Some ''ck_allow_rule_dst_port_range''
      else None)"

definition flush_rules :: "unit dbprog" where
  "flush_rules =
     andThen (gets (\<lambda>db. violated_rule_constraint (allow_rules db))) (\<lambda>v.
     case v of None \<Rightarrow> ret () | Some c \<Rightarrow> raise (IntegrityError c))"

definition rule_integrity_error :: "exc \<Rightarrow> 'a dbprog" where
  "rule_integrity_error e =
     (if e = IntegrityError ''uq_allow_rule_service_priority''
      then raise (HTTPException 409 (JStr ''Rule priority exists'')) else raise e)"

definition rule_authorize_actor :: "user option \<Rightarrow> protected_service \<Rightarrow> unit dbprog" where
  "rule_authorize_actor actor service =
     (case actor of
        None \<Rightarrow> ret ()
      | Some u \<Rightarrow>
          if us_role u = Role_admin then ret ()
          else ensure (us_tenant_id u = Some (sv_tenant_id service))
                 (HTTPException 403 (JStr ''Forbidden'')))"

definition require_service_locked :: "uuid \<Rightarrow> protected_service dbprog" where
  "require_service_locked service_id =
     fetch (\<lambda>db. get_service_row db service_id) (HTTPException 404 (JStr ''Service not found''))"

definition require_rule :: "uuid \<Rightarrow> uuid \<Rightarrow> allow_rule dbprog" where
  "require_rule service_id rule_id =
     andThen (gets (\<lambda>db. filter (\<lambda>r. ru_id r = rule_id \<and> ru_service_id r = service_id) (allow_rules db)))
       (\<lambda>rs. andThen (one_or_none rs) (\<lambda>r.
     case r of None \<Rightarrow> raise (HTTPException 404 (JStr ''Rule not found'')) | Some rule \<Rightarrow> ret rule))"

definition rule_count :: "uuid \<Rightarrow> db \<Rightarrow> nat" where
  "rule_count service_id db = count_rows (\<lambda>r. ru_service_id r = service_id) (allow_rules db)"

text \<open>A priority outside the column's 32 bits is refused by the driver.\<close>

definition in_int32 :: "int \<Rightarrow> bool" where
  "in_int32 n \<longleftrightarrow> - (2 ^ 31) \<le> n \<and> n < 2 ^ 31"

definition ensure_priority_available :: "uuid \<Rightarrow> int \<Rightarrow> uuid option \<Rightarrow> unit dbprog" where
  "ensure_priority_available service_id priority exclude_rule_id =
     andThen (ensure (in_int32 priority) DataError) (\<lambda>_.
     andThen (gets (\<lambda>db. filter (\<lambda>r. ru_service_id r = service_id \<and> ru_priority r = priority \<and>
         (case exclude_rule_id of None \<Rightarrow> True | Some x \<Rightarrow> ru_id r \<noteq> x)) (allow_rules db))) (\<lambda>rs.
     andThen (one_or_none rs) (\<lambda>found.
     ensure (found = None) (HTTPException 409 (JStr ''Rule priority exists'')))))"

definition rule_view ::
  "string \<Rightarrow> int \<Rightarrow> Protocol \<Rightarrow> int option \<Rightarrow> int option \<Rightarrow> int option \<Rightarrow> int option \<Rightarrow> exc + RuleView" where
  "rule_view rule_id priority protocol src_port_lo src_port_hi dst_port_lo dst_port_hi =
     (let unprocessable = (\<lambda>e. case e of PortRangeError m \<Rightarrow> HTTPException 422 (JStr m) | _ \<Rightarrow> e) in
      case validate_port_range src_port_lo src_port_hi of
        Inl e \<Rightarrow> Inl (unprocessable e)
      | Inr _ \<Rightarrow>
          (case validate_port_range dst_port_lo dst_port_hi of
             Inl e \<Rightarrow> Inl (unprocessable e)
           | Inr _ \<Rightarrow> Inr \<lparr> rv_id = rule_id, rv_protocol = protocol,
               rv_src_port = (src_port_lo, src_port_hi), rv_dst_port = (dst_port_lo, dst_port_hi) \<rparr>))"

definition view_from_rule :: "allow_rule \<Rightarrow> exc + RuleView" where
  "view_from_rule rule =
     rule_view (str_int (ru_priority rule)) (ru_priority rule) (ru_protocol rule)
       (ru_src_port_lo rule) (ru_src_port_hi rule) (ru_dst_port_lo rule) (ru_dst_port_hi rule)"

definition overlap_warnings :: "uuid \<Rightarrow> RuleView \<Rightarrow> uuid option \<Rightarrow> string list dbprog" where
  "overlap_warnings service_id candidate exclude_rule_id =
     andThen (gets (\<lambda>db. sort_key ru_priority (filter (\<lambda>r. ru_service_id r = service_id \<and>
         (case exclude_rule_id of None \<Rightarrow> True | Some x \<Rightarrow> ru_id r \<noteq> x)) (allow_rules db)))) (\<lambda>existing.
     andThen (of_result (traverse view_from_rule existing)) (\<lambda>views.
     andThen (of_result (find_overlaps views candidate)) (\<lambda>overlaps.
     ret (map (\<lambda>view. ''Overlaps rule priority '' @ rv_id view) overlaps))))"

section \<open>Operations\<close>

definition create_rule ::
  "uuid \<Rightarrow> uuid \<Rightarrow> timestamp \<Rightarrow> uuid \<Rightarrow> user option \<Rightarrow> int \<Rightarrow> Protocol \<Rightarrow> int option \<Rightarrow> int option
   \<Rightarrow> int option \<Rightarrow> int option \<Rightarrow> bool \<Rightarrow> string option \<Rightarrow> RuleMutationResult dbprog" where
  "create_rule new_id job_id now service_id actor priority protocol src_port_lo src_port_hi
     dst_port_lo dst_port_hi enabled ip =
     andThen (require_service_locked service_id) (\<lambda>service.
     andThen (rule_authorize_actor actor service) (\<lambda>_.
     andThen (gets (rule_count (sv_id service))) (\<lambda>n.
     andThen (ensure (n < MAX_RULES_PER_SERVICE) (HTTPException 409 (JStr ''Rule limit reached''))) (\<lambda>_.
     andThen (ensure_priority_available (sv_id service) priority None) (\<lambda>_.
     andThen (of_result (rule_view ''candidate'' priority protocol src_port_lo src_port_hi
       dst_port_lo dst_port_hi)) (\<lambda>candidate.
     andThen (overlap_warnings (sv_id service) candidate None) (\<lambda>warnings.
     let rule = \<lparr> ru_id = new_id, ru_service_id = sv_id service, ru_priority = priority,
           ru_protocol = protocol, ru_src_port_lo = src_port_lo, ru_src_port_hi = src_port_hi,
           ru_dst_port_lo = dst_port_lo, ru_dst_port_hi = dst_port_hi, ru_enabled = enabled,
           ru_created_at = now \<rparr> in
     andThen (modify (\<lambda>db. db\<lparr>allow_rules := allow_rules db @ [rule]\<rparr>)) (\<lambda>_.
     andThen (catch flush_rules rule_integrity_error) (\<lambda>_.
     andThen (bump_version now (sv_id service)) (\<lambda>_.
     andThen (enqueue_service_update job_id now (sv_id service) Trigger_rule) (\<lambda>_.
     andThen (record_event now actor ''rule.create'' (Some ''allow_rule'') (JUuid new_id) ''success''
       ip (Some [(''service_id'', JUuid (sv_id service)), (''priority'', JInt priority)])) (\<lambda>_.
     andThen (loaded_service (sv_id service)) (\<lambda>service.
     ret \<lparr> rm_rule = rule, rm_warnings = warnings, rm_service = service \<rparr>)))))))))))))"

definition list_rules :: "uuid \<Rightarrow> user option \<Rightarrow> allow_rule list dbprog" where
  "list_rules service_id actor =
     andThen (require_service service_id) (\<lambda>service.
     andThen (rule_authorize_actor actor service) (\<lambda>_.
     gets (\<lambda>db. sort_key ru_priority
       (filter (\<lambda>r. ru_service_id r = sv_id service) (allow_rules db)))))"

definition get_rule :: "uuid \<Rightarrow> uuid \<Rightarrow> user option \<Rightarrow> allow_rule dbprog" where
  "get_rule service_id rule_id actor =
     andThen (require_service service_id) (\<lambda>service.
     andThen (rule_authorize_actor actor service) (\<lambda>_.
     require_rule (sv_id service) rule_id))"

text \<open>\<open>x if x is not None else old\<close>, for a column that may be null.\<close>

definition or_else :: "'a option \<Rightarrow> 'a option \<Rightarrow> 'a option" where
  "or_else new old = (case new of None \<Rightarrow> old | Some v \<Rightarrow> Some v)"

definition updated_rule ::
  "int \<Rightarrow> Protocol option \<Rightarrow> int option \<Rightarrow> int option \<Rightarrow> int option \<Rightarrow> int option \<Rightarrow> bool option
   \<Rightarrow> allow_rule \<Rightarrow> allow_rule" where
  "updated_rule next_priority protocol src_port_lo src_port_hi dst_port_lo dst_port_hi enabled rule =
     rule\<lparr>ru_priority := next_priority, ru_protocol := set_if_given protocol (ru_protocol rule),
       ru_src_port_lo := or_else src_port_lo (ru_src_port_lo rule),
       ru_src_port_hi := or_else src_port_hi (ru_src_port_hi rule),
       ru_dst_port_lo := or_else dst_port_lo (ru_dst_port_lo rule),
       ru_dst_port_hi := or_else dst_port_hi (ru_dst_port_hi rule),
       ru_enabled := set_if_given enabled (ru_enabled rule)\<rparr>"

definition update_rule ::
  "uuid \<Rightarrow> timestamp \<Rightarrow> uuid \<Rightarrow> uuid \<Rightarrow> user option \<Rightarrow> int option \<Rightarrow> Protocol option \<Rightarrow> int option
   \<Rightarrow> int option \<Rightarrow> int option \<Rightarrow> int option \<Rightarrow> bool option \<Rightarrow> string option \<Rightarrow> RuleMutationResult dbprog" where
  "update_rule job_id now service_id rule_id actor priority protocol src_port_lo src_port_hi
     dst_port_lo dst_port_hi enabled ip =
     andThen (require_service_locked service_id) (\<lambda>service.
     andThen (rule_authorize_actor actor service) (\<lambda>_.
     andThen (require_rule (sv_id service) rule_id) (\<lambda>rule.
     let next_priority = set_if_given priority (ru_priority rule);
         new_rule = updated_rule next_priority protocol src_port_lo src_port_hi dst_port_lo dst_port_hi
           enabled rule in
     andThen (whenever (next_priority \<noteq> ru_priority rule)
       (ensure_priority_available (sv_id service) next_priority (Some (ru_id rule)))) (\<lambda>_.
     andThen (of_result (rule_view (str_uuid (ru_id rule)) next_priority
       (set_if_given protocol (ru_protocol rule))
       (or_else src_port_lo (ru_src_port_lo rule)) (or_else src_port_hi (ru_src_port_hi rule))
       (or_else dst_port_lo (ru_dst_port_lo rule)) (or_else dst_port_hi (ru_dst_port_hi rule)))) (\<lambda>candidate.
     andThen (overlap_warnings (sv_id service) candidate (Some (ru_id rule))) (\<lambda>warnings.
     andThen (modify (\<lambda>db. db\<lparr>allow_rules :=
       update_row ru_id (ru_id rule) (\<lambda>_. new_rule) (allow_rules db)\<rparr>)) (\<lambda>_.
     andThen (catch flush_rules rule_integrity_error) (\<lambda>_.
     andThen (bump_version now (sv_id service)) (\<lambda>_.
     andThen (enqueue_service_update job_id now (sv_id service) Trigger_rule) (\<lambda>_.
     andThen (record_event now actor ''rule.update'' (Some ''allow_rule'') (JUuid (ru_id rule)) ''success''
       ip (Some [(''service_id'', JUuid (sv_id service)), (''priority'', JInt next_priority)])) (\<lambda>_.
     andThen (loaded_service (sv_id service)) (\<lambda>service.
     ret \<lparr> rm_rule = new_rule, rm_warnings = warnings, rm_service = service \<rparr>))))))))))))"

definition delete_rule :: "uuid \<Rightarrow> timestamp \<Rightarrow> uuid \<Rightarrow> uuid \<Rightarrow> user option \<Rightarrow> string option
    \<Rightarrow> protected_service dbprog" where
  "delete_rule job_id now service_id rule_id actor ip =
     andThen (require_service_locked service_id) (\<lambda>service.
     andThen (rule_authorize_actor actor service) (\<lambda>_.
     andThen (require_rule (sv_id service) rule_id) (\<lambda>rule.
     andThen (modify (\<lambda>db. db\<lparr>allow_rules := delete_row ru_id (ru_id rule) (allow_rules db)\<rparr>)) (\<lambda>_.
     andThen (bump_version now (sv_id service)) (\<lambda>_.
     andThen (enqueue_service_update job_id now (sv_id service) Trigger_rule) (\<lambda>_.
     andThen (record_event now actor ''rule.delete'' (Some ''allow_rule'') (JUuid (ru_id rule)) ''success''
       ip (Some [(''service_id'', JUuid (sv_id service)), (''priority'', JInt (ru_priority rule))])) (\<lambda>_.
     loaded_service (sv_id service))))))))"

definition overlap_dry_run ::
  "uuid \<Rightarrow> user option \<Rightarrow> Protocol \<Rightarrow> int option \<Rightarrow> int option \<Rightarrow> int option \<Rightarrow> int option
   \<Rightarrow> string list dbprog" where
  "overlap_dry_run service_id actor protocol src_port_lo src_port_hi dst_port_lo dst_port_hi =
     andThen (require_service service_id) (\<lambda>service.
     andThen (rule_authorize_actor actor service) (\<lambda>_.
     andThen (of_result (rule_view ''candidate'' (-1) protocol src_port_lo src_port_hi
       dst_port_lo dst_port_hi)) (\<lambda>candidate.
     overlap_warnings (sv_id service) candidate None)))"

section \<open>The invariant\<close>

definition rule_ports_ok :: "allow_rule \<Rightarrow> bool" where
  "rule_ports_ok r \<longleftrightarrow> valid_range (ru_src_port_lo r, ru_src_port_hi r) \<and>
     valid_range (ru_dst_port_lo r, ru_dst_port_hi r)"

definition rules_ok :: "uuid list \<Rightarrow> allow_rule list \<Rightarrow> bool" where
  "rules_ok services rs \<longleftrightarrow> distinct (map ru_id rs) \<and> distinct (map rule_key rs) \<and>
     (\<forall>r\<in>set rs. rule_ports_ok r \<and> in_int32 (ru_priority r) \<and> ru_service_id r \<in> set services) \<and>
     (\<forall>i. count_rows (\<lambda>r. ru_service_id r = i) rs \<le> MAX_RULES_PER_SERVICE)"

definition rules_inv :: "db \<Rightarrow> bool" where
  "rules_inv db \<longleftrightarrow> rules_ok (map sv_id (protected_services db)) (allow_rules db)"

definition ruleset_inv :: "db \<Rightarrow> bool" where
  "ruleset_inv db \<longleftrightarrow> config_inv db \<and> rules_inv db"

section \<open>Lemmas\<close>

lemma config_allow_rules [simp]: "config_inv (db\<lparr>allow_rules := rs\<rparr>) = config_inv db"
  "draft_inv (db\<lparr>allow_rules := rs\<rparr>) = draft_inv db"
proof -
  have "apply_inv (db\<lparr>allow_rules := rs\<rparr>) = apply_inv db" by (simp add: apply_inv_def)
  then show "config_inv (db\<lparr>allow_rules := rs\<rparr>) = config_inv db"
    "draft_inv (db\<lparr>allow_rules := rs\<rparr>) = draft_inv db"
    using config_frame [of "db\<lparr>allow_rules := rs\<rparr>" db] by (simp_all add: config_inv_def draft_inv_def)
qed

lemma rules_inv_published: "published i db db' \<Longrightarrow> rules_inv db' = rules_inv db"
  using same_configD(3,7) [of db db'] by (auto simp: rules_inv_def published_def)

lemma rules_inv_record_event [simp]:
  "rules_inv (snd (record_event now actor ac tt ti out ip md db)) = rules_inv db"
  by (simp add: rules_inv_def)

lemma wp_flush_rules [wp_simps]:
  "wp flush_rules Q E db =
     (case violated_rule_constraint (allow_rules db) of None \<Rightarrow> Q () db | Some c \<Rightarrow> E (IntegrityError c) db)"
  by (simp add: flush_rules_def wp_simps split: option.splits)

lemma wp_rule_integrity: "wp (rule_integrity_error e) Q (\<lambda>_ _. True) = (\<lambda>_. True)"
  by (auto simp: wp_simps rule_integrity_error_def)

lemma wp_overlap_warnings:
  "(\<And>ws. Q ws db) \<Longrightarrow> wp (overlap_warnings i c x) Q (\<lambda>_ _. True) db"
  by (auto simp: overlap_warnings_def wp_simps split: sum.splits)

lemma rule_view_Inr:
  "rule_view i p pr sl sh dl dh = Inr v \<longleftrightarrow> valid_range (sl, sh) \<and> valid_range (dl, dh) \<and>
     v = \<lparr> rv_id = i, rv_protocol = pr, rv_src_port = (sl, sh), rv_dst_port = (dl, dh) \<rparr>"
  by (auto simp: rule_view_def valid_range_def Let_def split: sum.splits)

lemma case_rule_view:
  "(case rule_view i p pr sl sh dl dh of Inl e \<Rightarrow> True | Inr v \<Rightarrow> Q v) =
     (valid_range (sl, sh) \<and> valid_range (dl, dh) \<longrightarrow>
      Q \<lparr> rv_id = i, rv_protocol = pr, rv_src_port = (sl, sh), rv_dst_port = (dl, dh) \<rparr>)"
  by (auto simp: rule_view_def valid_range_def Let_def split: sum.splits)

lemma violated_rule_None:
  assumes "violated_rule_constraint rs = None"
  shows "distinct (map ru_id rs)" "distinct (map rule_key rs)"
  using assms by (auto simp: violated_rule_constraint_def split: if_splits)

lemma wp_rule_authorize [wp_simps]:
  "wp (rule_authorize_actor actor s) Q (\<lambda>_ _. True) db =
     ((case actor of None \<Rightarrow> True | Some u \<Rightarrow> us_role u = Role_admin \<or> us_tenant_id u = Some (sv_tenant_id s))
      \<longrightarrow> Q () db)"
  by (auto simp: rule_authorize_actor_def wp_simps split: option.splits)

lemma wp_priority_available [wp_simps]:
  "wp (ensure_priority_available i p x) Q (\<lambda>_ _. True) db =
     (in_int32 p \<and> filter (\<lambda>r. ru_service_id r = i \<and> ru_priority r = p \<and>
         (case x of None \<Rightarrow> True | Some y \<Rightarrow> ru_id r \<noteq> y)) (allow_rules db) = [] \<longrightarrow> Q () db)"
  by (auto simp: ensure_priority_available_def one_or_none_def wp_simps split: list.splits)

lemma wp_require_rule [wp_simps]:
  "wp (require_rule i k) Q (\<lambda>_ _. True) db =
     (\<forall>r. filter (\<lambda>r. ru_id r = k \<and> ru_service_id r = i) (allow_rules db) = [r] \<longrightarrow> Q r db)"
  by (auto simp: require_rule_def one_or_none_def wp_simps split: list.splits)

lemma count_rows_simps [simp]:
  "count_rows p [] = 0" "count_rows p (r # rs) = (if p r then 1 else 0) + count_rows p rs"
  "count_rows p (xs @ ys) = count_rows p xs + count_rows p ys"
  by (simp_all add: count_rows_def)

lemma count_rows_map: "count_rows p (map f rs) = count_rows (p \<circ> f) rs"
  by (simp add: count_rows_def filter_map)

lemma count_rows_filter: "count_rows p (filter q rs) \<le> count_rows p rs"
  by (induction rs) auto

lemma rules_ok_add:
  assumes "rules_ok is rs" "violated_rule_constraint (rs @ [r]) = None" "rule_ports_ok r"
    "in_int32 (ru_priority r)" "ru_service_id r \<in> set is"
    "count_rows (\<lambda>x. ru_service_id x = ru_service_id r) rs < MAX_RULES_PER_SERVICE"
  shows "rules_ok is (rs @ [r])"
  using assms violated_rule_None [OF assms(2)] by (auto simp: rules_ok_def)

lemma rules_ok_update:
  assumes "rules_ok is rs" "violated_rule_constraint (update_row ru_id (ru_id r0) (\<lambda>_. r) rs) = None"
    "rule_ports_ok r" "in_int32 (ru_priority r)" "r0 \<in> set rs" "ru_service_id r = ru_service_id r0"
  shows "rules_ok is (update_row ru_id (ru_id r0) (\<lambda>_. r) rs)"
proof -
  define k where "k = ru_id r0"
  have same: "ru_service_id (if ru_id x = k then r else x) = ru_service_id x" if "x \<in> set rs" for x
    using assms(1,5,6) that by (auto simp: k_def rules_ok_def distinct_map inj_on_def)
  then have "count_rows (\<lambda>x. ru_service_id x = i) (update_row ru_id k (\<lambda>_. r) rs) =
      count_rows (\<lambda>x. ru_service_id x = i) rs" for i
    by (auto simp: update_row_def count_rows_map count_rows_def intro!: arg_cong [of _ _ length] filter_cong)
  moreover have "rule_ports_ok x \<and> in_int32 (ru_priority x) \<and> ru_service_id x \<in> set is"
    if "x \<in> set (update_row ru_id k (\<lambda>_. r) rs)" for x
    using that assms(1,3-6) by (auto simp: rules_ok_def elim!: in_update_rowE)
  ultimately show ?thesis
    using assms(1) violated_rule_None [OF assms(2)] by (simp add: rules_ok_def k_def)
qed

lemma rules_ok_delete: "rules_ok is rs \<Longrightarrow> rules_ok is (delete_row ru_id k rs)"
  by (auto simp: rules_ok_def delete_row_def intro: le_trans [OF count_rows_filter])

lemma wp_publish_rules:
  assumes "config_inv db" "rules_ok (map sv_id (protected_services db)) (allow_rules db)"
  shows "wp (bump_version now i) (\<lambda>_. wp (enqueue_service_update k now i tr)
      (\<lambda>_. wp (record_event t actor ac tt ti out ip md) (\<lambda>_. wp (loaded_service i) (\<lambda>_. ruleset_inv)
        (\<lambda>_ _. True)) (\<lambda>_ _. True)) (\<lambda>_ _. True)) (\<lambda>_ _. True) db"
  using assms rules_inv_published
  by (intro wp_publish) (auto simp: config_draft wp_simps loaded_service_def ruleset_inv_def rules_inv_def)

lemma ruleset_invD:
  assumes "ruleset_inv db"
  shows "config_inv db" "rules_ok (map sv_id (protected_services db)) (allow_rules db)"
  using assms by (simp_all add: ruleset_inv_def rules_inv_def)

lemma commits_create_rule:
  "commits ruleset_inv (create_rule new_id job_id now i actor p pr sl sh dl dh en ip)"
proof (rule commitsI)
  fix db assume inv: "ruleset_inv db"
  show "wp (create_rule new_id job_id now i actor p pr sl sh dl dh en ip) (\<lambda>_. ruleset_inv) (\<lambda>_ _. True) db"
    using ruleset_invD [OF inv]
    by (auto simp: create_rule_def require_service_locked_def wp_simps wp_rule_integrity case_rule_view
        rule_count_def rule_ports_ok_def get_service_row_def
        intro!: wp_overlap_warnings wp_publish_rules rules_ok_add dest!: row_SomeD split: option.splits)
qed

lemma commits_update_rule:
  "commits ruleset_inv (update_rule job_id now i k actor p pr sl sh dl dh en ip)"
proof (rule commitsI)
  fix db assume inv: "ruleset_inv db"
  have prio: "in_int32 (ru_priority r)" if "r \<in> set (allow_rules db)" for r
    using ruleset_invD(2) [OF inv] that by (simp add: rules_ok_def)
  show "wp (update_rule job_id now i k actor p pr sl sh dl dh en ip) (\<lambda>_. ruleset_inv) (\<lambda>_ _. True) db"
    using ruleset_invD [OF inv]
    by (auto simp: update_rule_def require_service_locked_def wp_simps wp_rule_integrity case_rule_view
        updated_rule_def rule_ports_ok_def prio
        intro!: wp_overlap_warnings wp_publish_rules rules_ok_update
        dest!: filter_singleD split: option.splits)
qed

lemma commits_delete_rule: "commits ruleset_inv (delete_rule job_id now i k actor ip)"
proof (rule commitsI)
  fix db assume inv: "ruleset_inv db"
  show "wp (delete_rule job_id now i k actor ip) (\<lambda>_. ruleset_inv) (\<lambda>_ _. True) db"
    using ruleset_invD [OF inv]
    by (auto simp: delete_rule_def require_service_locked_def wp_simps
        intro!: wp_publish_rules rules_ok_delete split: option.splits)
qed

text \<open>The warnings name exactly the rules that share a packet with the candidate.\<close>

definition rule_of :: "allow_rule \<Rightarrow> RuleView" where
  "rule_of r = \<lparr> rv_id = str_int (ru_priority r), rv_protocol = ru_protocol r,
     rv_src_port = (ru_src_port_lo r, ru_src_port_hi r), rv_dst_port = (ru_dst_port_lo r, ru_dst_port_hi r) \<rparr>"

lemma view_from_rule_ok: "rule_ports_ok r \<Longrightarrow> view_from_rule r = Inr (rule_of r)"
  by (simp add: view_from_rule_def rule_view_Inr rule_of_def rule_ports_ok_def)

lemma overlap_warnings_exact:
  assumes "ruleset_inv db" "valid_rule candidate"
  shows "overlap_warnings i candidate x db =
    (Inr (map (\<lambda>r. ''Overlaps rule priority '' @ str_int (ru_priority r))
       (filter (\<lambda>r. \<exists>p. wf_packet p \<and> rule_matches (rule_of r) p \<and> rule_matches candidate p)
         (sort_key ru_priority (filter (\<lambda>r. ru_service_id r = i \<and>
            (case x of None \<Rightarrow> True | Some y \<Rightarrow> ru_id r \<noteq> y)) (allow_rules db))))), db)"
proof -
  let ?rs = "sort_key ru_priority (filter (\<lambda>r. ru_service_id r = i \<and>
            (case x of None \<Rightarrow> True | Some y \<Rightarrow> ru_id r \<noteq> y)) (allow_rules db))"
  have ok: "rule_ports_ok r" if "r \<in> set ?rs" for r
    using ruleset_invD(2) [OF assms(1)] that by (auto simp: rules_ok_def)
  have "traverse view_from_rule ?rs = Inr (map rule_of ?rs)"
    by (rule traverse_Inr) (use ok view_from_rule_ok in blast)
  moreover have "\<forall>v\<in>set (map rule_of ?rs). valid_rule v"
    using ok by (auto simp: valid_rule_def rule_of_def rule_ports_ok_def)
  ultimately show ?thesis
    using find_overlaps_valid [OF assms(2), of "map rule_of ?rs"]
    by (simp add: overlap_warnings_def run_simps filter_map comp_def rule_of_def)
qed

section \<open>Properties\<close>

lemma sample_ruleset: "ruleset_inv sample_db"
  using sample_config by (simp add: ruleset_inv_def rules_inv_def rules_ok_def sample_defs)

text \<open>
  C27 The rule set of a service stays well formed.  Every operation on rules
  that commits keeps: at most 16 rules per service, no two rules of a service with
  the same priority, port ranges that are absent or satisfy
  \<open>0 <= lo <= hi <= 65535\<close>, rules only of services that exist, and the consistency
  of the configuration.
\<close>

theorem rule_set_stays_well_formed:
  "commits ruleset_inv (create_rule new_id job_id now i actor p pr sl sh dl dh en ip) \<and>
   commits ruleset_inv (update_rule job_id now i k actor p' pr' sl sh dl dh en' ip) \<and>
   commits ruleset_inv (delete_rule job_id now i k actor ip)"
  by (intro conjI commits_create_rule commits_update_rule commits_delete_rule)

text \<open>
  C28 Overlap warnings are exact and ordered.  For a well-formed rule set and
  a candidate with valid port ranges, the dry run of the overlap check by an
  administrator (or by a user of the tenant) returns one warning for each rule of
  the service that some packet can match together with the candidate, in the order
  of their priorities, no other warning, and changes nothing.
\<close>

theorem overlap_dry_run_exact:
  assumes "ruleset_inv db" "get_service_row db i = Some s"
    "\<forall>u. actor = Some u \<longrightarrow> us_role u = Role_admin \<or> us_tenant_id u = Some (sv_tenant_id s)"
    "valid_range (sl, sh)" "valid_range (dl, dh)"
  shows "overlap_dry_run i actor pr sl sh dl dh db =
    (Inr (map (\<lambda>r. ''Overlaps rule priority '' @ str_int (ru_priority r))
       (filter (\<lambda>r. \<exists>p. wf_packet p \<and> rule_matches (rule_of r) p \<and>
            rule_matches \<lparr> rv_id = ''candidate'', rv_protocol = pr, rv_src_port = (sl, sh), rv_dst_port = (dl, dh) \<rparr> p)
         (sort_key ru_priority (filter (\<lambda>r. ru_service_id r = i) (allow_rules db))))), db)"
proof -
  let ?c = "\<lparr> rv_id = ''candidate'', rv_protocol = pr, rv_src_port = (sl, sh), rv_dst_port = (dl, dh) \<rparr>"
  have "rule_view ''candidate'' (-1) pr sl sh dl dh = Inr ?c" using assms(4,5) by (simp add: rule_view_Inr)
  moreover have "rule_authorize_actor actor s db = (Inr (), db)"
    using assms(3) by (cases actor) (auto simp: rule_authorize_actor_def run_simps)
  moreover have "valid_rule ?c" using assms(4,5) by (simp add: valid_rule_def)
  ultimately show ?thesis
    using assms(2) overlap_warnings_exact [OF assms(1), of ?c i None] get_serviceD(2) [OF assms(2)]
    by (simp add: overlap_dry_run_def require_service_def run_simps)
qed

definition web_rule :: allow_rule where
  "web_rule = \<lparr> ru_id = 50, ru_service_id = 30, ru_priority = 7, ru_protocol = Protocol_tcp,
     ru_src_port_lo = None, ru_src_port_hi = None, ru_dst_port_lo = Some 80, ru_dst_port_hi = Some 90,
     ru_enabled = True, ru_created_at = 0 \<rparr>"

theorem overlap_dry_run_exact_witness:
  "overlap_dry_run 30 None Protocol_any None None (Some 90) (Some 99) (sample_db\<lparr>allow_rules := [web_rule]\<rparr>) =
    (Inr (map (\<lambda>r. ''Overlaps rule priority '' @ str_int (ru_priority r))
       (filter (\<lambda>r. \<exists>p. wf_packet p \<and> rule_matches (rule_of r) p \<and>
            rule_matches \<lparr> rv_id = ''candidate'', rv_protocol = Protocol_any, rv_src_port = (None, None),
              rv_dst_port = (Some 90, Some 99) \<rparr> p) [web_rule])),
     sample_db\<lparr>allow_rules := [web_rule]\<rparr>)"
proof -
  have "rules_inv (sample_db\<lparr>allow_rules := [web_rule]\<rparr>)"
    by (simp add: rules_inv_def rules_ok_def rule_ports_ok_def valid_range_def
        validate_port_range_def in_int32_def MAX_RULES_PER_SERVICE_def web_rule_def sample_defs)
  then have "ruleset_inv (sample_db\<lparr>allow_rules := [web_rule]\<rparr>)"
    using sample_config by (simp add: ruleset_inv_def)
  moreover have "get_service_row (sample_db\<lparr>allow_rules := [web_rule]\<rparr>) 30 = Some sample_service"
    by (simp add: get_service_row_def sample_db_def empty_db_def sample_service_def table_simps)
  ultimately show ?thesis
    by (subst overlap_dry_run_exact) (simp_all add: valid_range_def validate_port_range_def web_rule_def)
qed

end
