(* ===== verification/FeedParser.thy ===== *)
theory FeedParser
  imports Cidr
begin

text \<open>
  The line-list parser of threat feeds, \<open>app/core/feed_parser.py\<close>, with what it
  uses of Python's text functions: the \<open>utf-8-sig\<close> decoder, \<open>splitlines\<close>,
  \<open>strip\<close> and \<open>find\<close>.  Bytes and code points are natural numbers.  The lemmas
  replace the loop by a reading of each line on its own, and show that a feed
  printed from networks is read back.
\<close>

section \<open>Decoding\<close>

definition cont_byte :: "nat \<Rightarrow> bool" where
  "cont_byte b \<longleftrightarrow> 128 \<le> b \<and> b \<le> 191"

text \<open>The shortest-form sequences of two, three and four bytes, without surrogates.\<close>

definition utf8_2 :: "nat \<Rightarrow> nat \<Rightarrow> nat option" where
  "utf8_2 a b = (if 194 \<le> a \<and> a \<le> 223 \<and> cont_byte b then Some ((a - 192) * 64 + (b - 128)) else None)"

definition utf8_3 :: "nat \<Rightarrow> nat \<Rightarrow> nat \<Rightarrow> nat option" where
  "utf8_3 a b c =
     (if 224 \<le> a \<and> a \<le> 239 \<and> cont_byte b \<and> cont_byte c \<and> (a = 224 \<longrightarrow> 160 \<le> b) \<and> (a = 237 \<longrightarrow> b \<le> 159)
      then Some (((a - 224) * 64 + (b - 128)) * 64 + (c - 128)) else None)"

definition utf8_4 :: "nat \<Rightarrow> nat \<Rightarrow> nat \<Rightarrow> nat \<Rightarrow> nat option" where
  "utf8_4 a b c d =
     (if 240 \<le> a \<and> a \<le> 244 \<and> cont_byte b \<and> cont_byte c \<and> cont_byte d \<and>
         (a = 240 \<longrightarrow> 144 \<le> b) \<and> (a = 244 \<longrightarrow> b \<le> 143)
      then Some ((((a - 240) * 64 + (b - 128)) * 64 + (c - 128)) * 64 + (d - 128)) else None)"

fun utf8_decode :: "nat list \<Rightarrow> ustr option" where
  "utf8_decode [] = Some []"
| "utf8_decode (a # bs) =
     (if a < 128 then map_option (Cons a) (utf8_decode bs)
      else case bs of
        [] \<Rightarrow> None
      | b # cs \<Rightarrow>
          (case utf8_2 a b of
             Some x \<Rightarrow> map_option (Cons x) (utf8_decode cs)
           | None \<Rightarrow>
               (case cs of
                  [] \<Rightarrow> None
                | c # ds \<Rightarrow>
                    (case utf8_3 a b c of
                       Some x \<Rightarrow> map_option (Cons x) (utf8_decode ds)
                     | None \<Rightarrow>
                         (case ds of
                            [] \<Rightarrow> None
                          | d # es \<Rightarrow>
                              (case utf8_4 a b c d of
                                 Some x \<Rightarrow> map_option (Cons x) (utf8_decode es)
                               | None \<Rightarrow> None))))))"

text \<open>\<open>utf-8-sig\<close> skips one byte-order mark at the start.\<close>

definition utf8_sig_decode :: "nat list \<Rightarrow> ustr option" where
  "utf8_sig_decode data = utf8_decode (if take 3 data = [239, 187, 191] then drop 3 data else data)"

section \<open>Lines\<close>

definition line_break :: "nat \<Rightarrow> bool" where
  "line_break c \<longleftrightarrow> 10 \<le> c \<and> c \<le> 13 \<or> 28 \<le> c \<and> c \<le> 30 \<or> c = 133 \<or> c = 8232 \<or> c = 8233"

fun split_lines :: "ustr \<Rightarrow> ustr \<Rightarrow> ustr list" where
  "split_lines line [] = (if line = [] then [] else [rev line])"
| "split_lines line (c # cs) =
     (if line_break c then
        rev line # split_lines [] (if c = 13 \<and> cs \<noteq> [] \<and> hd cs = 10 then tl cs else cs)
      else split_lines (c # line) cs)"

definition splitlines :: "ustr \<Rightarrow> ustr list" where
  "splitlines text = split_lines [] text"

definition is_space :: "nat \<Rightarrow> bool" where
  "is_space c \<longleftrightarrow> 9 \<le> c \<and> c \<le> 13 \<or> 28 \<le> c \<and> c \<le> 32 \<or> c = 133 \<or> c = 160 \<or> c = 5760 \<or>
     8192 \<le> c \<and> c \<le> 8202 \<or> c = 8232 \<or> c = 8233 \<or> c = 8239 \<or> c = 8287 \<or> c = 12288"

definition strip :: "ustr \<Rightarrow> ustr" where
  "strip s = rev (dropWhile is_space (rev (dropWhile is_space s)))"

text \<open>\<open>line.find(c)\<close> for one character; \<open>None\<close> stands for -1.\<close>

fun find_char :: "nat \<Rightarrow> ustr \<Rightarrow> nat option" where
  "find_char c [] = None"
| "find_char c (x # xs) = (if x = c then Some 0 else map_option Suc (find_char c xs))"

section \<open>app/core/feed\_parser.py\<close>

definition MAX_INVALID_LINE_DIAGNOSTICS :: nat where
  "MAX_INVALID_LINE_DIAGNOSTICS = 20"

datatype ParseOutcome = ParseOutcome_success | ParseOutcome_partial | ParseOutcome_failed

record InvalidLineDiagnostic =
  dg_line_number :: "nat option"
  dg_reason :: ustr

record ParseResult =
  pr_physical_line_count :: nat
  pr_cidrs :: "ustr list"
  pr_invalid_count :: nat
  pr_duplicate_count :: nat
  pr_invalid_line_diagnostics :: "InvalidLineDiagnostic list"
  pr_outcome :: ParseOutcome

definition valid_distinct_count :: "ParseResult \<Rightarrow> nat" where
  "valid_distinct_count r = length (pr_cidrs r)"

definition strip_comment :: "ustr \<Rightarrow> ustr" where
  "strip_comment line =
     take (foldl (\<lambda>comment_start delimiter.
         case find_char delimiter line of None \<Rightarrow> comment_start | Some position \<Rightarrow> min comment_start position)
       (length line) [35, 59]) line"

definition is_ipv4_address :: "ustr \<Rightarrow> bool" where
  "is_ipv4_address value \<longleftrightarrow> ipv4_address value \<noteq> None"

definition normalize_cidr :: "ustr \<Rightarrow> CidrValidationError + ustr" where
  "normalize_cidr value =
     (let value = (if 47 \<notin> set value \<and> is_ipv4_address value then value @ [47, 51, 50] else value) in
      case parse_ipv4_cidr value of
        Inl e \<Rightarrow> Inl e
      | Inr network \<Rightarrow> if prefixlen network = 0 then Inl Zero_prefix else Inr (str_net network))"

definition parse_outcome :: "nat \<Rightarrow> nat \<Rightarrow> ParseOutcome" where
  "parse_outcome valid_count invalid_count =
     (if valid_count = 0 then ParseOutcome_failed
      else if 0 < invalid_count then ParseOutcome_partial
      else ParseOutcome_success)"

text \<open>\<open>str\<close> of the exception.\<close>

definition cidr_message :: "CidrValidationError \<Rightarrow> ustr" where
  "cidr_message e =
     (case e of
        HostBits_canonical n \<Rightarrow> codes ''CIDR has host bits set; canonical network is '' @ str_net n
      | Invalid_CIDR \<Rightarrow> codes ''Invalid CIDR''
      | IPv6_not_supported \<Rightarrow> codes ''IPv6 CIDRs are not supported''
      | Reserved_range \<Rightarrow> codes ''Reserved CIDR range is not allowed''
      | Zero_prefix \<Rightarrow> codes ''CIDR /0 is not allowed'')"

text \<open>The variables of the loop; \<open>seen\<close> holds the elements of \<open>cidrs\<close>.\<close>

record line_loop =
  ll_cidrs :: "ustr list"
  ll_seen :: "ustr set"
  ll_diagnostics :: "InvalidLineDiagnostic list"
  ll_invalid_count :: nat
  ll_duplicate_count :: nat

definition line_step :: "nat \<times> ustr \<Rightarrow> line_loop \<Rightarrow> line_loop" where
  "line_step numbered st =
     (let (line_number, raw_line) = numbered; value = strip (strip_comment raw_line) in
      if value = [] then st
      else case normalize_cidr value of
        Inl e \<Rightarrow>
          st\<lparr>ll_invalid_count := ll_invalid_count st + 1,
             ll_diagnostics :=
               (if length (ll_diagnostics st) < MAX_INVALID_LINE_DIAGNOSTICS
                then ll_diagnostics st @ [\<lparr> dg_line_number = Some line_number, dg_reason = cidr_message e \<rparr>]
                else ll_diagnostics st)\<rparr>
      | Inr canonical \<Rightarrow>
          if canonical \<in> ll_seen st then st\<lparr>ll_duplicate_count := ll_duplicate_count st + 1\<rparr>
          else st\<lparr>ll_seen := insert canonical (ll_seen st), ll_cidrs := ll_cidrs st @ [canonical]\<rparr>)"

definition parse_line_list :: "nat list \<Rightarrow> ParseResult" where
  "parse_line_list data =
     (case utf8_sig_decode data of
        None \<Rightarrow>
          \<lparr> pr_physical_line_count = 0, pr_cidrs = [], pr_invalid_count = 0, pr_duplicate_count = 0,
             pr_invalid_line_diagnostics =
               [\<lparr> dg_line_number = None, dg_reason = codes ''Feed is not valid UTF-8'' \<rparr>],
             pr_outcome = ParseOutcome_failed \<rparr>
      | Some text \<Rightarrow>
          let lines = splitlines text;
              st = fold line_step (enumerate 1 lines)
                \<lparr> ll_cidrs = [], ll_seen = {}, ll_diagnostics = [], ll_invalid_count = 0,
                   ll_duplicate_count = 0 \<rparr>
          in \<lparr> pr_physical_line_count = length lines, pr_cidrs = ll_cidrs st,
                pr_invalid_count = ll_invalid_count st, pr_duplicate_count = ll_duplicate_count st,
                pr_invalid_line_diagnostics = ll_diagnostics st,
                pr_outcome = parse_outcome (length (ll_cidrs st)) (ll_invalid_count st) \<rparr>)"

section \<open>Each line on its own\<close>

text \<open>
  The reference: what a line holds (nothing, an error, a network), and the
  result as lists of these.
\<close>

definition line_item :: "ustr \<Rightarrow> (CidrValidationError + ustr) option" where
  "line_item raw_line =
     (let value = strip (strip_comment raw_line) in if value = [] then None else Some (normalize_cidr value))"

definition line_errors :: "(nat \<times> ustr) list \<Rightarrow> InvalidLineDiagnostic list" where
  "line_errors ls = concat (map (\<lambda>(n, l). case line_item l of
     Some (Inl e) \<Rightarrow> [\<lparr> dg_line_number = Some n, dg_reason = cidr_message e \<rparr>] | _ \<Rightarrow> []) ls)"

definition line_cidrs :: "(nat \<times> ustr) list \<Rightarrow> ustr list" where
  "line_cidrs ls = concat (map (\<lambda>(n, l). case line_item l of Some (Inr c) \<Rightarrow> [c] | _ \<Rightarrow> []) ls)"

text \<open>The first occurrences, in order.\<close>

definition firsts :: "'a list \<Rightarrow> 'a list" where
  "firsts xs = rev (remdups (rev xs))"

definition loop_of :: "(nat \<times> ustr) list \<Rightarrow> line_loop" where
  "loop_of ls =
     \<lparr> ll_cidrs = firsts (line_cidrs ls), ll_seen = set (line_cidrs ls),
        ll_diagnostics = take MAX_INVALID_LINE_DIAGNOSTICS (line_errors ls),
        ll_invalid_count = length (line_errors ls),
        ll_duplicate_count = length (line_cidrs ls) - length (firsts (line_cidrs ls)) \<rparr>"

section \<open>Lemmas\<close>

lemma firsts_snoc: "firsts (xs @ [x]) = (if x \<in> set xs then firsts xs else firsts xs @ [x])"
  by (simp add: firsts_def)

lemma set_firsts [simp]: "set (firsts xs) = set xs"
  by (simp add: firsts_def)

lemma distinct_firsts [simp]: "distinct (firsts xs)"
  by (simp add: firsts_def)

lemma length_firsts: "length (firsts xs) \<le> length xs"
  unfolding firsts_def by (metis length_remdups_leq length_rev)

lemma firsts_distinct: "distinct xs \<Longrightarrow> firsts xs = xs"
  by (simp add: firsts_def distinct_remdups_id)

lemma line_step_loop_of: "line_step l (loop_of ls) = loop_of (ls @ [l])"
proof -
  obtain n raw where l: "l = (n, raw)" by fastforce
  show ?thesis
  proof (cases "line_item raw")
    case None
    then show ?thesis
      by (auto simp: l line_step_def loop_of_def line_cidrs_def line_errors_def line_item_def Let_def
          split: if_splits)
  next
    case (Some item)
    then have v: "strip (strip_comment raw) \<noteq> []" "normalize_cidr (strip (strip_comment raw)) = item"
      by (auto simp: line_item_def Let_def split: if_splits)
    show ?thesis
    proof (cases item)
      case (Inl e)
      have "take MAX_INVALID_LINE_DIAGNOSTICS (xs @ [x]) =
          (if length (take MAX_INVALID_LINE_DIAGNOSTICS xs) < MAX_INVALID_LINE_DIAGNOSTICS
           then take MAX_INVALID_LINE_DIAGNOSTICS xs @ [x] else take MAX_INVALID_LINE_DIAGNOSTICS xs)"
        for xs and x :: InvalidLineDiagnostic
        by (cases "length xs < MAX_INVALID_LINE_DIAGNOSTICS") (auto simp: min_def)
      then show ?thesis
        using Some v Inl by (simp add: l line_step_def loop_of_def line_cidrs_def line_errors_def)
    next
      case (Inr c)
      then show ?thesis
        using Some v length_firsts [of "line_cidrs ls"]
        by (auto simp: l line_step_def loop_of_def line_cidrs_def line_errors_def firsts_snoc)
    qed
  qed
qed

lemma fold_line_step: "fold line_step ls (loop_of ms) = loop_of (ms @ ls)"
  by (induction ls arbitrary: ms) (simp_all add: line_step_loop_of)

lemma parse_line_list_spec:
  assumes "utf8_sig_decode data = Some text"
  defines "ls \<equiv> enumerate 1 (splitlines text)"
  shows "parse_line_list data =
    \<lparr> pr_physical_line_count = length (splitlines text), pr_cidrs = firsts (line_cidrs ls),
       pr_invalid_count = length (line_errors ls),
       pr_duplicate_count = length (line_cidrs ls) - length (firsts (line_cidrs ls)),
       pr_invalid_line_diagnostics = take MAX_INVALID_LINE_DIAGNOSTICS (line_errors ls),
       pr_outcome = parse_outcome (length (firsts (line_cidrs ls))) (length (line_errors ls)) \<rparr>"
proof -
  have start: "\<lparr> ll_cidrs = [], ll_seen = {}, ll_diagnostics = [], ll_invalid_count = 0, ll_duplicate_count = 0 \<rparr> = loop_of []"
    by (simp add: loop_of_def line_cidrs_def line_errors_def firsts_def)
  have "fold line_step ls (loop_of []) = loop_of ls"
    using fold_line_step [of ls "[]"] by simp
  then show ?thesis
    using assms by (simp only: parse_line_list_def option.case Let_def start) (simp add: loop_of_def)
qed

text \<open>Lines are blank, errors or networks.\<close>

lemma line_items_add_up:
  "length ls = length (filter (\<lambda>(n, l). line_item l = None) ls) + length (line_errors ls) + length (line_cidrs ls)"
  by (induction ls) (auto simp: line_errors_def line_cidrs_def split: option.splits sum.splits)

lemma set_line_cidrs:
  "set (line_cidrs (enumerate k lines)) = {c. \<exists>l \<in> set lines. line_item l = Some (Inr c)}"
  by (induction lines arbitrary: k) (auto simp: line_cidrs_def split: option.splits sum.splits)

lemma blank_lines:
  "length (filter (\<lambda>(n, l). line_item l = None) (enumerate k lines)) =
     length (filter (\<lambda>l. line_item l = None) lines)"
  by (induction lines arbitrary: k) simp_all

lemma normalize_cidr_canonical:
  assumes "normalize_cidr v = Inr c"
  shows "\<exists>n. valid_net n \<and> 0 < prefixlen n \<and> c = str_net n"
  using assms
  by (auto simp: normalize_cidr_def Let_def dest: parse_ipv4_cidr_valid split: sum.splits if_splits)

lemma find_char_takeWhile:
  "find_char c xs = (if c \<in> set xs then Some (length (takeWhile (\<lambda>x. x \<noteq> c) xs)) else None)"
  by (induction xs) auto

lemma strip_comment_takeWhile: "strip_comment l = takeWhile (\<lambda>c. c \<noteq> 35 \<and> c \<noteq> 59) l"
proof (induction l)
  case Nil
  then show ?case by (simp add: strip_comment_def)
next
  case (Cons x xs)
  then show ?case by (auto simp: strip_comment_def find_char_takeWhile min_def split: if_splits)
qed

lemma utf8_decode_ascii: "\<forall>c \<in> set s. c < 128 \<Longrightarrow> utf8_decode s = Some s"
  by (induction s) auto

lemma utf8_sig_decode_ascii: "\<forall>c \<in> set s. c < 128 \<Longrightarrow> utf8_sig_decode s = Some s"
  by (cases s) (auto simp: utf8_sig_decode_def utf8_decode_ascii)

lemma split_lines_plain:
  "\<forall>c \<in> set l. \<not> line_break c \<Longrightarrow> split_lines acc (l @ 10 # rest) = (rev acc @ l) # split_lines [] rest"
  by (induction l arbitrary: acc) (auto simp: line_break_def)

lemma splitlines_unlines:
  "\<forall>l \<in> set ls. \<forall>c \<in> set l. \<not> line_break c \<Longrightarrow> splitlines (concat (map (\<lambda>l. l @ [10]) ls)) = ls"
  by (induction ls) (simp_all add: splitlines_def split_lines_plain)

lemma dropWhile_none: "\<forall>c \<in> set s. \<not> P c \<Longrightarrow> dropWhile P s = s"
  by (cases s) auto

lemma strip_trailing_space:
  assumes "s \<noteq> []" "\<forall>c \<in> set s. \<not> is_space c"
  shows "strip (s @ [32]) = s"
proof -
  have "dropWhile is_space (s @ [32]) = s @ [32]"
    using assms by (cases s) auto
  moreover have "is_space 32" by (simp add: is_space_def)
  moreover have "dropWhile is_space (rev s) = rev s"
    using assms by (intro dropWhile_none) simp
  ultimately show ?thesis by (simp add: strip_def)
qed

lemma str_net_chars: "c \<in> set (str_net n) \<Longrightarrow> 46 \<le> c \<and> c \<le> 57"
  by (auto simp: str_net_def str_ipv4_def is_digit_def dest!: dec_digits)

text \<open>A feed as its publishers write it: a network, a blank, a comment.\<close>

definition feed_line :: "net \<times> ustr \<Rightarrow> ustr" where
  "feed_line = (\<lambda>(n, comment). str_net n @ 32 # 35 # comment)"

definition feed_bytes :: "(net \<times> ustr) list \<Rightarrow> nat list" where
  "feed_bytes entries = concat (map (\<lambda>l. l @ [10]) (map feed_line entries))"

definition printable :: "ustr \<Rightarrow> bool" where
  "printable s \<longleftrightarrow> list_all (\<lambda>c. 32 \<le> c \<and> c < 127) s"

lemma str_net_nonempty [simp]: "str_net n \<noteq> []"
  by (simp add: str_net_def)

lemma normalize_str_net:
  assumes "valid_net n" "0 < prefixlen n"
  shows "normalize_cidr (str_net n) = Inr (str_net n)"
proof -
  have "47 \<in> set (str_net n)" by (simp add: str_net_def)
  then show ?thesis using assms by (simp add: normalize_cidr_def parse_str_net)
qed

lemma line_item_feed_line:
  assumes "valid_net n" "0 < prefixlen n"
  shows "line_item (feed_line (n, comment)) = Some (Inr (str_net n))"
proof -
  have p: "\<forall>c \<in> set (str_net n). \<not> is_space c" "\<forall>c \<in> set (str_net n). c \<noteq> 35 \<and> c \<noteq> 59"
    by (auto simp: is_space_def dest!: str_net_chars)
  have "strip_comment (feed_line (n, comment)) = str_net n @ [32]"
    using p(2) by (simp add: strip_comment_takeWhile feed_line_def takeWhile_append2)
  then show ?thesis
    using p(1) assms by (simp add: line_item_def strip_trailing_space normalize_str_net)
qed

lemma feed_line_chars:
  assumes "printable comment" "c \<in> set (feed_line (n, comment))"
  shows "32 \<le> c \<and> c < 127"
  using assms by (auto simp: feed_line_def printable_def list_all_iff dest!: str_net_chars)

lemma decode_feed_bytes:
  assumes "\<forall>e \<in> set entries. printable (snd e)"
  shows "utf8_sig_decode (feed_bytes entries) = Some (feed_bytes entries)"
    and "splitlines (feed_bytes entries) = map feed_line entries"
proof -
  have c: "32 \<le> c \<and> c < 127" if e: "e \<in> set entries" and "c \<in> set (feed_line e)" for e c
    using feed_line_chars [of "snd e" c "fst e"] that bspec [OF assms e] by simp
  have "c < 128" if "c \<in> set (feed_bytes entries)" for c
    using that by (auto simp: feed_bytes_def split: if_splits dest!: c)
  then show "utf8_sig_decode (feed_bytes entries) = Some (feed_bytes entries)"
    by (intro utf8_sig_decode_ascii) simp
  have "\<not> line_break c" if e: "e \<in> set entries" and "c \<in> set (feed_line e)" for e c
    using c [OF that] by (simp add: line_break_def)
  then show "splitlines (feed_bytes entries) = map feed_line entries"
    unfolding feed_bytes_def by (intro splitlines_unlines) simp
qed

lemma feed_entries_items:
  assumes "\<forall>e \<in> set entries. valid_net (fst e) \<and> 0 < prefixlen (fst e)"
  shows "line_cidrs (enumerate k (map feed_line entries)) = map (str_net \<circ> fst) entries"
    and "line_errors (enumerate k (map feed_line entries)) = []"
  using assms
  by (induction entries arbitrary: k)
    (auto simp: line_cidrs_def line_errors_def line_item_feed_line)

section \<open>Properties\<close>

text \<open>
  C24 The parser loses nothing and lets nothing else through.  On a body that is
  UTF-8, the networks it returns are, without repetition, exactly those that a
  line of the feed holds; each is the canonical form of a network with a
  non-empty prefix; every line is blank or a comment, a reported network, a
  duplicate or an error, and the counters add up to the number of lines; the
  diagnostics are one per error up to the limit of 20; and the outcome is
  \<open>failed\<close> when no line holds a network, \<open>partial\<close> when some are errors.
\<close>

theorem feed_lines_accounted_for:
  assumes "utf8_sig_decode data = Some text"
  defines "r \<equiv> parse_line_list data" and "lines \<equiv> splitlines text"
  shows "distinct (pr_cidrs r) \<and>
    set (pr_cidrs r) = {c. \<exists>l \<in> set lines. line_item l = Some (Inr c)} \<and>
    (\<forall>c \<in> set (pr_cidrs r). \<exists>n. valid_net n \<and> 0 < prefixlen n \<and> c = str_net n) \<and>
    valid_distinct_count r + pr_duplicate_count r + pr_invalid_count r +
      length (filter (\<lambda>l. line_item l = None) lines) = pr_physical_line_count r \<and>
    pr_physical_line_count r = length lines \<and>
    length (pr_invalid_line_diagnostics r) = min MAX_INVALID_LINE_DIAGNOSTICS (pr_invalid_count r) \<and>
    (pr_outcome r = ParseOutcome_failed \<longleftrightarrow> pr_cidrs r = []) \<and>
    (pr_outcome r = ParseOutcome_partial \<longleftrightarrow> pr_cidrs r \<noteq> [] \<and> 0 < pr_invalid_count r)"
proof -
  define ls where "ls = enumerate 1 lines"
  have r: "r = \<lparr> pr_physical_line_count = length lines, pr_cidrs = firsts (line_cidrs ls),
       pr_invalid_count = length (line_errors ls),
       pr_duplicate_count = length (line_cidrs ls) - length (firsts (line_cidrs ls)),
       pr_invalid_line_diagnostics = take MAX_INVALID_LINE_DIAGNOSTICS (line_errors ls),
       pr_outcome = parse_outcome (length (firsts (line_cidrs ls))) (length (line_errors ls)) \<rparr>"
    unfolding r_def lines_def ls_def by (rule parse_line_list_spec [OF assms(1)])
  have cidrs: "set (line_cidrs ls) = {c. \<exists>l \<in> set lines. line_item l = Some (Inr c)}"
    by (simp add: ls_def set_line_cidrs)
  have canonical: "\<forall>c \<in> set (line_cidrs ls). \<exists>n. valid_net n \<and> 0 < prefixlen n \<and> c = str_net n"
    unfolding cidrs by (auto simp: line_item_def Let_def intro: normalize_cidr_canonical split: if_splits)
  have "length ls = length lines" by (simp add: ls_def)
  then have sum: "length lines = length (filter (\<lambda>l. line_item l = None) lines) +
      length (line_errors ls) + length (line_cidrs ls)"
    using line_items_add_up [of ls] by (simp add: ls_def blank_lines)
  have none: "line_cidrs ls = [] \<longleftrightarrow> firsts (line_cidrs ls) = []"
    by (metis set_empty set_firsts)
  show ?thesis
    unfolding r valid_distinct_count_def parse_outcome_def ParseResult.simps
    using cidrs canonical sum none length_firsts [of "line_cidrs ls"] by (intro conjI) simp_all
qed

lemma sample_lines:
  "utf8_sig_decode [49, 46, 50, 46, 51, 46, 52, 10, 120, 10] = Some [49, 46, 50, 46, 51, 46, 52, 10, 120, 10]"
  "splitlines [49, 46, 50, 46, 51, 46, 52, 10, 120, 10] = [[49, 46, 50, 46, 51, 46, 52], [120]]"
  by (simp_all add: utf8_sig_decode_def splitlines_def line_break_def)

lemma sample_items:
  "line_item [49, 46, 50, 46, 51, 46, 52] = Some (Inr [49, 46, 50, 46, 51, 46, 52, 47, 51, 50])"
  "line_item [120] = Some (Inl Invalid_CIDR)"
  by (simp_all add: line_item_def strip_comment_takeWhile strip_def is_space_def normalize_cidr_def
      is_ipv4_address_def ipv4_address_def ipv4_int_from_string_def parse_octet_def ascii_digits_def is_digit_def
      parse_ipv4_cidr_def has_host_bits_def ip_network_def ipv4_network_def int10_def ipv4_make_netmask_def
      prefix_from_prefix_string_def mask_host_def str_net_def str_ipv4_def dec.simps ipv6_network_def
      ipv6_address_def ipv6_parts_def)

theorem feed_lines_accounted_for_witness:
  "let r = parse_line_list [49, 46, 50, 46, 51, 46, 52, 10, 120, 10]
   in set (pr_cidrs r) = {[49, 46, 50, 46, 51, 46, 52, 47, 51, 50]} \<and> pr_outcome r \<noteq> ParseOutcome_failed \<and>
     valid_distinct_count r + pr_duplicate_count r + pr_invalid_count r = 2"
  using feed_lines_accounted_for [OF sample_lines(1), unfolded sample_lines(2)] sample_items
  by (auto simp: Let_def)

text \<open>
  A feed written as one network and a comment per line is read back: no line
  is refused, the networks come in the order of the feed with repetitions
  dropped and counted, and the outcome is \<open>success\<close>.
\<close>

theorem feed_print_parse:
  assumes "entries \<noteq> []"
    and "\<forall>(n, comment) \<in> set entries. valid_net n \<and> 0 < prefixlen n \<and> printable comment"
  shows "parse_line_list (feed_bytes entries) =
    \<lparr> pr_physical_line_count = length entries, pr_cidrs = firsts (map (str_net \<circ> fst) entries),
       pr_invalid_count = 0,
       pr_duplicate_count = length entries - length (firsts (map (str_net \<circ> fst) entries)),
       pr_invalid_line_diagnostics = [], pr_outcome = ParseOutcome_success \<rparr>"
proof -
  have p: "\<forall>e \<in> set entries. printable (snd e)"
    and v: "\<forall>e \<in> set entries. valid_net (fst e) \<and> 0 < prefixlen (fst e)"
    using assms(2) by auto
  have "firsts (map (str_net \<circ> fst) entries) \<noteq> []"
    using assms(1) by (metis list.map_disc_iff set_empty set_firsts)
  then show ?thesis
    using parse_line_list_spec [OF decode_feed_bytes(1) [OF p]]
    by (simp add: decode_feed_bytes(2) [OF p] feed_entries_items [OF v] parse_outcome_def)
qed

theorem feed_print_parse_witness:
  "pr_cidrs (parse_line_list (feed_bytes [(Net 167772160 8, [120]), (Net 16909060 32, [])])) =
     [[49, 48, 46, 48, 46, 48, 46, 48, 47, 56], [49, 46, 50, 46, 51, 46, 52, 47, 51, 50]]"
proof -
  have v: "valid_net (Net 167772160 8)" "valid_net (Net 16909060 32)"
    by (simp_all add: valid_net_def net_size_def)
  have s: "str_net (Net 167772160 8) = [49, 48, 46, 48, 46, 48, 46, 48, 47, 56]"
      "str_net (Net 16909060 32) = [49, 46, 50, 46, 51, 46, 52, 47, 51, 50]"
    by (simp_all add: str_net_def str_ipv4_def dec.simps)
  show ?thesis
    using feed_print_parse [of "[(Net 167772160 8, [120]), (Net 16909060 32, [])]"] v
    by (simp add: printable_def s firsts_def)
qed

end
