(* ===== verification/FeedReconcile.thy ===== *)
theory FeedReconcile
  imports FeedParser ApplyJobs AuditLog Deployment
begin

text \<open>
  The global deny list, \<open>app/services/feed_reconcile.py\<close>: a feed's parsed
  networks replace its assertions, entries nobody asserts any more go, and the
  digest of the effective list drives the desired revision.  The temporary
  candidate table is a value.  \<open>sha256\<close> is the hexadecimal digest of a text,
  \<open>collated\<close> the database's \<open>ORDER BY\<close> on text, \<open>entry_id\<close> the identifier
  generated for the row of a network.  The lemmas read the tables as a set of
  manual networks and a set per feed.
\<close>

section \<open>Definitions\<close>

definition MAX_GLOBAL_DENY_ENTRIES :: nat where
  "MAX_GLOBAL_DENY_ENTRIES = 1048576"

definition CANDIDATE_BATCH_SIZE :: nat where
  "CANDIDATE_BATCH_SIZE = 1000"

definition OVERLAP_AUDIT_SAMPLE_LIMIT :: nat where
  "OVERLAP_AUDIT_SAMPLE_LIMIT = 20"

definition OVERLAP_AUDIT_ACTION :: string where
  "OVERLAP_AUDIT_ACTION = ''feed.sync.overlap''"

record ReconcileResult =
  rr_valid :: nat
  rr_added :: nat
  rr_removed :: nat
  rr_overlap_count :: nat
  rr_global_changed :: bool
  rr_desired_revision :: "int option"
  rr_noop :: bool

record MaterializeResult =
  mz_cidrs :: "ustr list"
  mz_digest :: string
  mz_changed :: bool
  mz_desired_revision :: int

record GlobalDenySnapshot =
  sn_revision :: int
  sn_digest :: string
  sn_cidrs :: "ustr list"

function batches :: "'a list \<Rightarrow> 'a list list" where
  "batches cidrs =
     (if cidrs = [] then [] else take CANDIDATE_BATCH_SIZE cidrs # batches (drop CANDIDATE_BATCH_SIZE cidrs))"
  by pat_completeness auto
termination
  by (relation "measure length") (simp_all add: CANDIDATE_BATCH_SIZE_def)

declare batches.simps [simp del]

fun join_lines :: "ustr list \<Rightarrow> ustr" where
  "join_lines [] = []"
| "join_lines [l] = l"
| "join_lines (l # m # ls) = l @ 10 # join_lines (m # ls)"

definition digest :: "(ustr \<Rightarrow> string) \<Rightarrow> ustr list \<Rightarrow> string" where
  "digest sha256 cidrs = sha256 (join_lines cidrs)"

definition is_global :: "blacklist_entry \<Rightarrow> bool" where
  "is_global e \<longleftrightarrow> bl_scope e = BlacklistScope_global"

definition global_cidrs :: "db \<Rightarrow> ustr list" where
  "global_cidrs db = map str_net (sort (map bl_source_cidr (filter is_global (blacklist_entries db))))"

definition enforce_capacity :: "ustr list \<Rightarrow> unit dbprog" where
  "enforce_capacity cidrs = ensure (length cidrs \<le> MAX_GLOBAL_DENY_ENTRIES) GlobalDenyLimitError"

definition locked_source :: "uuid \<Rightarrow> threat_feed_source option dbprog" where
  "locked_source source_id = gets (\<lambda>db. get_source db source_id)"

definition initial_deny_state :: global_deny_state where
  "initial_deny_state = \<lparr> gd_desired_revision = 0, gd_active_revision = 0, gd_desired_digest = None,
     gd_active_digest = None, gd_apply_status = ApplyStatus_pending, gd_last_error = None,
     gd_last_node_map_version = None \<rparr>"

definition locked_global_state :: "bool \<Rightarrow> global_deny_state option dbprog" where
  "locked_global_state create =
     andThen (whenever create (modify (\<lambda>db. case global_deny_row db of
         Some _ \<Rightarrow> db
       | None \<Rightarrow> db\<lparr>global_deny_row := Some initial_deny_state\<rparr>))) (\<lambda>_.
     gets global_deny_row)"

text \<open>A text bound to a \<open>cidr\<close> column.\<close>

definition cidr_literal :: "ustr \<Rightarrow> exc + net" where
  "cidr_literal s = (case parse_ipv4_cidr s of Inl _ \<Rightarrow> Inl DataError | Inr n \<Rightarrow> Inr n)"

definition load_candidates :: "ustr list \<Rightarrow> exc + net list" where
  "load_candidates cidrs =
     (case traverse (traverse cidr_literal) (batches cidrs) of
        Inl e \<Rightarrow> Inl e
      | Inr bs \<Rightarrow> Inr (fold (\<lambda>batch. fold (\<lambda>n t. if n \<in> set t then t else t @ [n]) batch) bs []))"

definition source_delta_counts :: "db \<Rightarrow> net list \<Rightarrow> uuid \<Rightarrow> nat \<times> nat" where
  "source_delta_counts db candidates source_id =
     (length (filter (\<lambda>c. \<not> list_ex (\<lambda>(a, e). fa_feed_source_id a = source_id \<and> is_global e \<and> bl_source_cidr e = c)
         [(a, e). a \<leftarrow> feed_blacklist_assertions db, e \<leftarrow> blacklist_entries db, bl_id e = fa_blacklist_entry_id a])
        candidates),
      length (filter (\<lambda>(a, e). fa_feed_source_id a = source_id \<and> is_global e \<and> bl_source_cidr e \<notin> set candidates)
         [(a, e). a \<leftarrow> feed_blacklist_assertions db, e \<leftarrow> blacklist_entries db, bl_id e = fa_blacklist_entry_id a]))"

text \<open>The join of candidates and whitelist, as the two ordered queries read it.\<close>

definition overlap_rows :: "db \<Rightarrow> net list \<Rightarrow> (net \<times> whitelist_entry) list" where
  "overlap_rows db candidates =
     sort_key fst (sort_key (\<lambda>r. wl_id (snd r))
       [(c, w). c \<leftarrow> candidates, w \<leftarrow> whitelist_entries db, net_overlaps c (wl_source_cidr w)])"

definition overlap_count :: "db \<Rightarrow> net list \<Rightarrow> nat" where
  "overlap_count db candidates =
     length [(c, w). c \<leftarrow> candidates, w \<leftarrow> whitelist_entries db, net_overlaps c (wl_source_cidr w)]"

text \<open>
  One \<open>INSERT .. ON CONFLICT DO NOTHING\<close>: a network that has a global entry is
  skipped, a clash of identifiers is an error.
\<close>

fun insert_entries ::
  "(net \<Rightarrow> uuid) \<Rightarrow> timestamp \<Rightarrow> net list \<Rightarrow> blacklist_entry list \<Rightarrow> exc + blacklist_entry list" where
  "insert_entries entry_id now [] es = Inr es"
| "insert_entries entry_id now (n # ns) es =
     (if list_ex (\<lambda>e. is_global e \<and> bl_source_cidr e = n) es then insert_entries entry_id now ns es
      else if entry_id n \<in> bl_id ` set es then Inl (IntegrityError ''blacklist_entry_pkey'')
      else insert_entries entry_id now ns
        (es @ [\<lparr> bl_id = entry_id n, bl_scope = BlacklistScope_global, bl_source = BlacklistSource_feed,
                  bl_source_cidr = n, bl_created_by = None, bl_created_at = now \<rparr>]))"

definition upsert_feed_entries :: "(net \<Rightarrow> uuid) \<Rightarrow> ustr list \<Rightarrow> timestamp \<Rightarrow> unit dbprog" where
  "upsert_feed_entries entry_id cidrs now =
     for_each (batches cidrs) (\<lambda>batch.
       andThen (of_result (traverse cidr_literal batch)) (\<lambda>ns.
       andThen (gets (\<lambda>db. insert_entries entry_id now ns (blacklist_entries db))) (\<lambda>r.
       andThen (of_result r) (\<lambda>es.
       modify (\<lambda>db. db\<lparr>blacklist_entries := es\<rparr>)))))"

definition assert_entry ::
  "uuid \<Rightarrow> timestamp \<Rightarrow> blacklist_entry \<Rightarrow> feed_blacklist_assertion list \<Rightarrow> feed_blacklist_assertion list" where
  "assert_entry source_id now e as =
     (if list_ex (\<lambda>a. fa_feed_source_id a = source_id \<and> fa_blacklist_entry_id a = bl_id e) as
      then update_where (\<lambda>a. fa_feed_source_id a = source_id \<and> fa_blacklist_entry_id a = bl_id e)
             (\<lambda>a. a\<lparr>fa_last_seen_at := now\<rparr>) as
      else as @ [\<lparr> fa_feed_source_id = source_id, fa_blacklist_entry_id = bl_id e,
                    fa_first_seen_at = now, fa_last_seen_at = now \<rparr>])"

text \<open>The \<open>DELETE\<close> and the \<open>INSERT .. ON CONFLICT DO UPDATE\<close> on the assertions.\<close>

definition reassert ::
  "uuid \<Rightarrow> net list \<Rightarrow> timestamp \<Rightarrow> blacklist_entry list \<Rightarrow> feed_blacklist_assertion list
   \<Rightarrow> feed_blacklist_assertion list" where
  "reassert source_id candidates now es as =
     fold (assert_entry source_id now)
       [e. c \<leftarrow> candidates, e \<leftarrow> es, is_global e \<and> bl_source_cidr e = c]
       (filter (\<lambda>a. \<not> (fa_feed_source_id a = source_id \<and>
          list_ex (\<lambda>e. bl_id e = fa_blacklist_entry_id a \<and> is_global e \<and> bl_source_cidr e \<notin> set candidates) es)) as)"

definition replace_source_assertions :: "uuid \<Rightarrow> net list \<Rightarrow> timestamp \<Rightarrow> unit dbprog" where
  "replace_source_assertions source_id candidates now =
     modify (\<lambda>db. db\<lparr>feed_blacklist_assertions :=
       reassert source_id candidates now (blacklist_entries db) (feed_blacklist_assertions db)\<rparr>)"

definition delete_orphaned_feed_entries :: "unit dbprog" where
  "delete_orphaned_feed_entries =
     modify (\<lambda>db. db\<lparr>blacklist_entries :=
       filter (\<lambda>e. \<not> (is_global e \<and> bl_source e = BlacklistSource_feed \<and>
         \<not> list_ex (\<lambda>a. fa_blacklist_entry_id a = bl_id e) (feed_blacklist_assertions db)))
         (blacklist_entries db)\<rparr>)"

definition prospective_nets :: "db \<Rightarrow> net list \<Rightarrow> uuid \<Rightarrow> net list" where
  "prospective_nets db candidates source_id =
     map bl_source_cidr (filter (\<lambda>entry. is_global entry \<and>
        \<not> (bl_source entry = BlacklistSource_feed \<and>
           list_ex (\<lambda>a. fa_blacklist_entry_id a = bl_id entry \<and> fa_feed_source_id a = source_id \<and>
              bl_source_cidr entry \<notin> set candidates) (feed_blacklist_assertions db) \<and>
           \<not> list_ex (\<lambda>a. fa_blacklist_entry_id a = bl_id entry \<and> fa_feed_source_id a \<noteq> source_id)
              (feed_blacklist_assertions db)))
       (blacklist_entries db)) @ candidates"

definition prospective_global_cidrs ::
  "(ustr list \<Rightarrow> ustr list) \<Rightarrow> db \<Rightarrow> net list \<Rightarrow> uuid \<Rightarrow> ustr list" where
  "prospective_global_cidrs collated db candidates source_id =
     collated (remdups (map str_net (prospective_nets db candidates source_id)))"

definition materialize_locked ::
  "(ustr \<Rightarrow> string) \<Rightarrow> global_deny_state \<Rightarrow> ustr list \<Rightarrow> MaterializeResult dbprog" where
  "materialize_locked sha256 state cidrs =
     (let new_digest = digest sha256 cidrs;
          changed = (gd_desired_digest state \<noteq> Some new_digest);
          new_state = (if changed then state\<lparr>gd_desired_digest := Some new_digest,
            gd_desired_revision := gd_desired_revision state + 1,
            gd_apply_status := ApplyStatus_pending\<rparr> else state)
      in andThen (whenever changed (modify (\<lambda>db. db\<lparr>global_deny_row := Some new_state\<rparr>))) (\<lambda>_.
         ret \<lparr> mz_cidrs = cidrs, mz_digest = new_digest, mz_changed = changed,
                mz_desired_revision = gd_desired_revision new_state \<rparr>))"

definition persist_overlaps :: "uuid \<Rightarrow> net list \<Rightarrow> nat \<Rightarrow> unit dbprog" where
  "persist_overlaps run_id candidates overlaps =
     whenever (overlaps \<noteq> 0) (modify (\<lambda>db. db\<lparr>feed_sync_overlaps :=
       fold (\<lambda>(c, w) os.
         if list_ex (\<lambda>o'. fo_feed_sync_run_id o' = run_id \<and> fo_feed_source_cidr o' = c \<and>
              fo_whitelist_entry_id o' = wl_id w) os then os
         else os @ [\<lparr> fo_feed_sync_run_id = run_id, fo_feed_source_cidr = c,
                       fo_whitelist_entry_id = wl_id w, fo_service_id = wl_service_id w \<rparr>])
         (concat (batches (overlap_rows db candidates))) (feed_sync_overlaps db)\<rparr>))"

definition record_overlap_summary ::
  "timestamp \<Rightarrow> threat_feed_source \<Rightarrow> feed_sync_run \<Rightarrow> net list \<Rightarrow> nat \<Rightarrow> unit dbprog" where
  "record_overlap_summary now source run candidates overlaps =
     andThen (gets (\<lambda>db. list_ex (\<lambda>ev. ev_action ev = OVERLAP_AUDIT_ACTION \<and>
         ev_target_type ev = Some ''feed_sync_run'' \<and> ev_target_id ev = JUuid (fr_id run)) (audit_events db)))
       (\<lambda>already_recorded.
     if already_recorded then ret ()
     else andThen (gets (\<lambda>db. take OVERLAP_AUDIT_SAMPLE_LIMIT (overlap_rows db candidates))) (\<lambda>rows.
       record_event now None OVERLAP_AUDIT_ACTION (Some ''feed_sync_run'') (JUuid (fr_id run)) ''warning'' None
         (Some [(''source_id'', JUuid (fs_id source)), (''overlap_count'', JInt (int overlaps)),
           (''samples'', JList (map (\<lambda>(c, w). JObj [(''feed_cidr'', JNet c),
              (''whitelist_entry_id'', JUuid (wl_id w)), (''service_id'', JUuid (wl_service_id w))]) rows))])))"

definition store_run_stats ::
  "feed_sync_run \<Rightarrow> ParseResult \<Rightarrow> nat \<Rightarrow> nat \<Rightarrow> nat \<Rightarrow> bool \<Rightarrow> int option \<Rightarrow> unit dbprog" where
  "store_run_stats run parsed added removed overlaps global_changed desired_revision =
     modify (set_run (fr_id run) (\<lambda>r. r\<lparr>fr_valid := int (valid_distinct_count parsed),
       fr_duplicates := int (pr_duplicate_count parsed), fr_skipped_invalid := int (pr_invalid_count parsed),
       fr_added := int added, fr_removed := int removed, fr_overlap_count := int overlaps,
       fr_global_changed := global_changed, fr_desired_revision := desired_revision\<rparr>))"

section \<open>Reconciliation\<close>

definition noop_result :: ReconcileResult where
  "noop_result = \<lparr> rr_valid = 0, rr_added = 0, rr_removed = 0, rr_overlap_count = 0,
     rr_global_changed = False, rr_desired_revision = None, rr_noop = True \<rparr>"

text \<open>The branch \<open>if run.dry_run\<close> of \<open>reconcile\<close>, and what follows it.\<close>

definition reconcile_dry ::
  "(ustr \<Rightarrow> string) \<Rightarrow> (ustr list \<Rightarrow> ustr list) \<Rightarrow> threat_feed_source \<Rightarrow> feed_sync_run \<Rightarrow> ParseResult
   \<Rightarrow> net list \<Rightarrow> nat \<Rightarrow> nat \<Rightarrow> nat \<Rightarrow> ustr list \<Rightarrow> ReconcileResult dbprog" where
  "reconcile_dry sha256 collated source run parsed candidates added removed overlaps before_cidrs =
     andThen (gets (\<lambda>db. prospective_global_cidrs collated db candidates (fs_id source))) (\<lambda>effective_cidrs.
     andThen (enforce_capacity effective_cidrs) (\<lambda>_.
     andThen (store_run_stats run parsed added removed overlaps
       (digest sha256 before_cidrs \<noteq> digest sha256 effective_cidrs) None) (\<lambda>_.
     ret \<lparr> rr_valid = valid_distinct_count parsed, rr_added = added, rr_removed = removed,
            rr_overlap_count = overlaps,
            rr_global_changed = (digest sha256 before_cidrs \<noteq> digest sha256 effective_cidrs),
            rr_desired_revision = None, rr_noop = False \<rparr>)))"

definition reconcile_wet ::
  "(ustr \<Rightarrow> string) \<Rightarrow> (net \<Rightarrow> uuid) \<Rightarrow> timestamp \<Rightarrow> threat_feed_source \<Rightarrow> feed_sync_run \<Rightarrow> ParseResult
   \<Rightarrow> global_deny_state option \<Rightarrow> net list \<Rightarrow> nat \<Rightarrow> nat \<Rightarrow> nat \<Rightarrow> ustr list \<Rightarrow> ReconcileResult dbprog" where
  "reconcile_wet sha256 entry_id now source run parsed state candidates added removed overlaps before_cidrs =
     (case state of
        None \<Rightarrow> raise (RuntimeError ''Global deny state was not initialized'')
      | Some state \<Rightarrow>
     andThen (upsert_feed_entries entry_id (pr_cidrs parsed) now) (\<lambda>_.
     andThen (replace_source_assertions (fs_id source) candidates now) (\<lambda>_.
     andThen delete_orphaned_feed_entries (\<lambda>_.
     andThen (gets global_cidrs) (\<lambda>effective_cidrs.
     andThen (enforce_capacity effective_cidrs) (\<lambda>_.
     andThen (materialize_locked sha256 state effective_cidrs) (\<lambda>materialized.
     let global_changed = (digest sha256 before_cidrs \<noteq> mz_digest materialized) in
     andThen (persist_overlaps (fr_id run) candidates overlaps) (\<lambda>_.
     andThen (whenever (overlaps \<noteq> 0) (record_overlap_summary now source run candidates overlaps)) (\<lambda>_.
     let desired_revision = (if mz_changed materialized then Some (mz_desired_revision materialized) else None) in
     andThen (store_run_stats run parsed added removed overlaps global_changed desired_revision) (\<lambda>_.
     ret \<lparr> rr_valid = valid_distinct_count parsed, rr_added = added, rr_removed = removed,
            rr_overlap_count = overlaps, rr_global_changed = global_changed,
            rr_desired_revision = desired_revision, rr_noop = False \<rparr>))))))))))"

definition reconcile ::
  "(ustr \<Rightarrow> string) \<Rightarrow> (ustr list \<Rightarrow> ustr list) \<Rightarrow> (net \<Rightarrow> uuid) \<Rightarrow> timestamp \<Rightarrow> feed_sync_run \<Rightarrow> ParseResult
   \<Rightarrow> ReconcileResult dbprog" where
  "reconcile sha256 collated entry_id now run parsed =
     transaction (
       andThen (locked_source (fr_feed_source_id run)) (\<lambda>found.
       case found of
         None \<Rightarrow> ret noop_result
       | Some source \<Rightarrow>
       if fs_deleted_at source \<noteq> None \<and> fr_trigger run \<noteq> Trigger_feed_delete then ret noop_result
       else
       andThen (locked_global_state (\<not> fr_dry_run run)) (\<lambda>state.
       andThen (of_result (load_candidates (pr_cidrs parsed))) (\<lambda>candidates.
       andThen (gets (\<lambda>db. source_delta_counts db candidates (fs_id source))) (\<lambda>delta.
       andThen (gets (\<lambda>db. overlap_count db candidates)) (\<lambda>overlaps.
       andThen (gets global_cidrs) (\<lambda>before_cidrs.
       if fr_dry_run run
       then reconcile_dry sha256 collated source run parsed candidates (fst delta) (snd delta) overlaps before_cidrs
       else reconcile_wet sha256 entry_id now source run parsed state candidates (fst delta) (snd delta)
              overlaps before_cidrs)))))))"

definition materialize_global_union :: "(ustr \<Rightarrow> string) \<Rightarrow> MaterializeResult dbprog" where
  "materialize_global_union sha256 =
     transaction (
       andThen (locked_global_state True) (\<lambda>state.
       case state of
         None \<Rightarrow> raise (RuntimeError ''Global deny state was not initialized'')
       | Some state \<Rightarrow>
       andThen (gets global_cidrs) (\<lambda>cidrs.
       andThen (enforce_capacity cidrs) (\<lambda>_.
       materialize_locked sha256 state cidrs))))"

definition load_global_snapshot :: "(ustr \<Rightarrow> string) \<Rightarrow> int \<Rightarrow> GlobalDenySnapshot dbprog" where
  "load_global_snapshot sha256 expected_revision =
     andThen (locked_global_state False) (\<lambda>state.
     case state of
       None \<Rightarrow> raise GlobalDenyRevisionMismatch
     | Some state \<Rightarrow>
     andThen (ensure (gd_desired_revision state = expected_revision) GlobalDenyRevisionMismatch) (\<lambda>_.
     andThen (gets global_cidrs) (\<lambda>cidrs.
     andThen (ensure (gd_desired_digest state = Some (digest sha256 cidrs)) GlobalDenyRevisionMismatch) (\<lambda>_.
     ret \<lparr> sn_revision = gd_desired_revision state, sn_digest = digest sha256 cidrs, sn_cidrs = cidrs \<rparr>))))"

section \<open>The deny list as sets\<close>

definition global_nets :: "db \<Rightarrow> net set" where
  "global_nets db = {bl_source_cidr e | e. e \<in> set (blacklist_entries db) \<and> is_global e}"

definition manual_nets :: "db \<Rightarrow> net set" where
  "manual_nets db = {bl_source_cidr e | e. e \<in> set (blacklist_entries db) \<and> is_global e \<and>
     bl_source e = BlacklistSource_manual}"

definition fa_key :: "feed_blacklist_assertion \<Rightarrow> uuid \<times> uuid" where
  "fa_key a = (fa_feed_source_id a, fa_blacklist_entry_id a)"

definition links :: "feed_blacklist_assertion list \<Rightarrow> (uuid \<times> uuid) set" where
  "links as = set (map fa_key as)"

definition asserted_nets :: "blacklist_entry list \<Rightarrow> (uuid \<times> uuid) set \<Rightarrow> uuid \<Rightarrow> net set" where
  "asserted_nets es ls s = {bl_source_cidr e | e. e \<in> set es \<and> is_global e \<and> (s, bl_id e) \<in> ls}"

definition feed_nets :: "db \<Rightarrow> uuid \<Rightarrow> net set" where
  "feed_nets db = asserted_nets (blacklist_entries db) (links (feed_blacklist_assertions db))"

text \<open>
  The invariant of the two tables: keys are unique, networks have no host bits,
  an assertion names a global entry, and a feed-managed global entry is asserted
  by some feed.
\<close>

definition entries_ok :: "blacklist_entry list \<Rightarrow> bool" where
  "entries_ok es \<longleftrightarrow> distinct (map bl_id es) \<and> distinct (map bl_source_cidr (filter is_global es)) \<and>
     (\<forall>e \<in> set es. valid_net (bl_source_cidr e))"

definition linked_ok :: "blacklist_entry list \<Rightarrow> (uuid \<times> uuid) set \<Rightarrow> bool" where
  "linked_ok es ls \<longleftrightarrow> (\<forall>(s, i) \<in> ls. \<exists>e \<in> set es. is_global e \<and> bl_id e = i) \<and>
     (\<forall>e \<in> set es. is_global e \<and> bl_source e = BlacklistSource_feed \<longrightarrow> (\<exists>s. (s, bl_id e) \<in> ls))"

definition assertions_ok :: "feed_blacklist_assertion list \<Rightarrow> bool" where
  "assertions_ok as \<longleftrightarrow> distinct (map fa_key as)"

definition deny_tables_ok :: "db \<Rightarrow> bool" where
  "deny_tables_ok db \<longleftrightarrow> entries_ok (blacklist_entries db) \<and> assertions_ok (feed_blacklist_assertions db) \<and>
     linked_ok (blacklist_entries db) (links (feed_blacklist_assertions db))"

definition deny_synced :: "(ustr \<Rightarrow> string) \<Rightarrow> db \<Rightarrow> bool" where
  "deny_synced sha256 db \<longleftrightarrow> length (filter is_global (blacklist_entries db)) \<le> MAX_GLOBAL_DENY_ENTRIES \<and>
     (\<exists>st. global_deny_row db = Some st \<and> gd_desired_digest st = Some (digest sha256 (global_cidrs db)))"

section \<open>Lemmas\<close>

subsection \<open>Batches, digests\<close>

lemma concat_batches: "concat (batches xs) = xs"
proof (induction xs rule: batches.induct)
  case (1 xs)
  then show ?case by (subst batches.simps) simp
qed

lemma batches_map: "batches (map f xs) = map (map f) (batches xs)"
proof (induction xs rule: batches.induct)
  case (1 xs)
  then show ?case
    by (subst (1 2) batches.simps) (simp add: take_map drop_map)
qed

lemma batch_size: "b \<in> set (batches xs) \<Longrightarrow> length b \<le> CANDIDATE_BATCH_SIZE"
proof (induction xs rule: batches.induct)
  case (1 xs)
  then show ?case by (subst (asm) (2) batches.simps) (auto split: if_splits)
qed

lemma traverse_map_str_net:
  "\<forall>n \<in> set ns. valid_net n \<Longrightarrow> traverse cidr_literal (map str_net ns) = Inr ns"
  by (induction ns) (simp_all add: cidr_literal_def parse_str_net)

lemma traverse_batches:
  "\<forall>b \<in> set bs. \<forall>n \<in> set b. valid_net n \<Longrightarrow> traverse (traverse cidr_literal) (map (map str_net) bs) = Inr bs"
  by (induction bs) (simp_all add: traverse_map_str_net)

lemma fold_fold_concat: "fold (\<lambda>xs. fold f xs) xss = fold f (concat xss)"
  by (induction xss) auto

lemma fold_add_candidate: "fold (\<lambda>n t. if n \<in> set t then t else t @ [n]) ns (firsts ms) = firsts (ms @ ns)"
proof (induction ns arbitrary: ms)
  case (Cons n ns)
  then show ?case using Cons.IH [of "ms @ [n]"] by (simp add: firsts_snoc)
qed simp

lemma load_candidates_nets:
  assumes "\<forall>n \<in> set ns. valid_net n"
  shows "load_candidates (map str_net ns) = Inr (firsts ns)"
proof -
  have "\<forall>b \<in> set (batches ns). \<forall>n \<in> set b. valid_net n"
    using assms concat_batches [of ns] by (metis UN_iff set_concat)
  then show ?thesis
    using fold_add_candidate [of ns "[]"]
    by (simp add: load_candidates_def batches_map traverse_batches fold_fold_concat concat_batches firsts_def)
qed

lemma insert_entries_append:
  "insert_entries entry_id now (xs @ ys) es =
     (case insert_entries entry_id now xs es of Inl e \<Rightarrow> Inl e | Inr es' \<Rightarrow> insert_entries entry_id now ys es')"
  by (induction xs arbitrary: es) simp_all

lemma wp_upsert_batches:
  assumes "\<forall>b \<in> set bs. \<forall>n \<in> set b. valid_net n"
    and "\<And>es. insert_entries entry_id now (concat bs) (blacklist_entries db) = Inr es \<Longrightarrow>
      Q () (db\<lparr>blacklist_entries := es\<rparr>)"
    and "\<And>e d. insert_entries entry_id now (concat bs) (blacklist_entries db) = Inl e \<Longrightarrow> E e d"
  shows "wp (for_each (map (map str_net) bs) (\<lambda>batch.
       andThen (of_result (traverse cidr_literal batch)) (\<lambda>ns.
       andThen (gets (\<lambda>db. insert_entries entry_id now ns (blacklist_entries db))) (\<lambda>r.
       andThen (of_result r) (\<lambda>es.
       modify (\<lambda>db. db\<lparr>blacklist_entries := es\<rparr>)))))) Q E db"
  using assms
proof (induction bs arbitrary: db)
  case Nil
  then show ?case by (simp add: wp_def)
next
  case (Cons b bs)
  show ?case
    unfolding list.map for_each_Cons_andThen
    using Cons.prems
    by (auto simp: wp_simps traverse_map_str_net insert_entries_append split: sum.splits intro!: Cons.IH)
qed

lemma wp_upsert:
  assumes "\<forall>n \<in> set ns. valid_net n"
    and "\<And>es. insert_entries entry_id now ns (blacklist_entries db) = Inr es \<Longrightarrow>
      Q () (db\<lparr>blacklist_entries := es\<rparr>)"
    and "\<And>e d. insert_entries entry_id now ns (blacklist_entries db) = Inl e \<Longrightarrow> E e d"
  shows "wp (upsert_feed_entries entry_id (map str_net ns) now) Q E db"
proof -
  have "\<forall>b \<in> set (batches ns). \<forall>n \<in> set b. valid_net n"
    using assms(1) concat_batches [of ns] by (metis UN_iff set_concat)
  then show ?thesis
    unfolding upsert_feed_entries_def batches_map
    by (rule wp_upsert_batches) (simp_all add: concat_batches assms(2,3))
qed

subsection \<open>The three statements of a synchronisation\<close>

text \<open>The inserted entries: feed-managed, global, of the given networks, under new keys.\<close>

lemma insert_entries_adds:
  assumes "insert_entries entry_id now ns es = Inr es'" "entries_ok es" "\<forall>n \<in> set ns. valid_net n"
  shows "\<exists>new. es' = es @ new \<and> entries_ok es' \<and>
    (\<forall>e \<in> set new. is_global e \<and> bl_source e = BlacklistSource_feed \<and> bl_source_cidr e \<in> set ns \<and>
       bl_id e \<notin> bl_id ` set es) \<and>
    (\<forall>n \<in> set ns. \<exists>e \<in> set es'. is_global e \<and> bl_source_cidr e = n)"
  using assms
proof (induction ns arbitrary: es)
  case Nil
  then show ?case by simp
next
  case (Cons n ns)
  show ?case
  proof (cases "list_ex (\<lambda>e. is_global e \<and> bl_source_cidr e = n) es")
    case True
    then show ?thesis using Cons by (fastforce simp: list_ex_iff)
  next
    case False
    let ?e = "\<lparr> bl_id = entry_id n, bl_scope = BlacklistScope_global, bl_source = BlacklistSource_feed,
                  bl_source_cidr = n, bl_created_by = None, bl_created_at = now \<rparr>"
    have g: "is_global ?e" by (simp add: is_global_def)
    have new: "entry_id n \<notin> bl_id ` set es" and rest: "insert_entries entry_id now ns (es @ [?e]) = Inr es'"
      using Cons.prems(1) False by (auto split: if_splits)
    have "entries_ok (es @ [?e])"
      using Cons.prems(2,3) False new by (auto simp: entries_ok_def list_ex_iff is_global_def)
    then obtain new' where *: "es' = (es @ [?e]) @ new'" "entries_ok es'"
        "\<forall>e \<in> set new'. is_global e \<and> bl_source e = BlacklistSource_feed \<and> bl_source_cidr e \<in> set ns \<and>
           bl_id e \<notin> bl_id ` set (es @ [?e])"
        "\<forall>n \<in> set ns. \<exists>e \<in> set es'. is_global e \<and> bl_source_cidr e = n"
      using Cons.IH [OF rest] Cons.prems(3) by auto
    then show ?thesis using new g by (intro exI [of _ "?e # new'"]) auto
  qed
qed

lemma fa_key_assert_entry:
  "map fa_key (assert_entry s now e as) =
     (if (s, bl_id e) \<in> links as then map fa_key as else map fa_key as @ [(s, bl_id e)])"
  by (auto simp: links_def assert_entry_def list_ex_iff update_where_def fa_key_def)

lemma links_assert_entry: "links (assert_entry s now e as) = insert (s, bl_id e) (links as)"
  using fa_key_assert_entry [of s now e as] by (auto simp: links_def split: if_splits)

lemma links_fold_assert: "links (fold (assert_entry s now) es as) = links as \<union> {(s, bl_id e) | e. e \<in> set es}"
  by (induction es arbitrary: as) (auto simp: links_assert_entry)

lemma assertions_ok_assert_entry: "assertions_ok as \<Longrightarrow> assertions_ok (assert_entry s now e as)"
  by (simp add: assertions_ok_def fa_key_assert_entry links_def)

lemma assertions_ok_fold: "assertions_ok as \<Longrightarrow> assertions_ok (fold (assert_entry s now) es as)"
  by (induction es arbitrary: as) (simp_all add: assertions_ok_assert_entry)

lemma assertions_ok_filter: "assertions_ok as \<Longrightarrow> assertions_ok (filter p as)"
  by (auto simp: assertions_ok_def distinct_map inj_on_def)

text \<open>The links after the second statement and the entries after the third.\<close>

definition relinked :: "uuid \<Rightarrow> net set \<Rightarrow> blacklist_entry list \<Rightarrow> (uuid \<times> uuid) set \<Rightarrow> (uuid \<times> uuid) set" where
  "relinked s ns es ls =
     {l \<in> ls. \<not> (fst l = s \<and> (\<exists>e \<in> set es. bl_id e = snd l \<and> is_global e \<and> bl_source_cidr e \<notin> ns))} \<union>
     {(s, bl_id e) | e. e \<in> set es \<and> is_global e \<and> bl_source_cidr e \<in> ns}"

definition pruned :: "blacklist_entry list \<Rightarrow> (uuid \<times> uuid) set \<Rightarrow> blacklist_entry list" where
  "pruned es ls = filter (\<lambda>e. \<not> (is_global e \<and> bl_source e = BlacklistSource_feed \<and> (\<forall>s. (s, bl_id e) \<notin> ls))) es"

lemma links_reassert: "links (reassert s candidates now es as) = relinked s (set candidates) es (links as)"
  unfolding reassert_def links_fold_assert relinked_def by (auto simp: links_def list_ex_iff fa_key_def)

lemma assertions_ok_reassert: "assertions_ok as \<Longrightarrow> assertions_ok (reassert s candidates now es as)"
  unfolding reassert_def by (intro assertions_ok_fold assertions_ok_filter)

lemma orphans_pruned:
  "filter (\<lambda>e. \<not> (is_global e \<and> bl_source e = BlacklistSource_feed \<and>
         \<not> list_ex (\<lambda>a. fa_blacklist_entry_id a = bl_id e) as)) es = pruned es (links as)"
proof -
  have "list_ex (\<lambda>a. fa_blacklist_entry_id a = i) as \<longleftrightarrow> (\<exists>s. (s, i) \<in> links as)" for i
    by (auto simp: links_def list_ex_iff fa_key_def image_iff)
  then show ?thesis by (simp add: pruned_def)
qed

lemma entries_ok_filter: "entries_ok es \<Longrightarrow> entries_ok (filter p es)"
  by (auto simp: entries_ok_def distinct_map inj_on_def)

lemma entries_ok_id:
  "entries_ok es \<Longrightarrow> e \<in> set es \<Longrightarrow> e' \<in> set es \<Longrightarrow> bl_id e = bl_id e' \<Longrightarrow> e = e'"
  by (auto simp: entries_ok_def distinct_map inj_on_def)

definition feed_managed :: "blacklist_entry \<Rightarrow> bool" where
  "feed_managed e \<longleftrightarrow> is_global e \<and> bl_source e = BlacklistSource_feed"

lemma not_feed_managed: "is_global e \<Longrightarrow> \<not> feed_managed e \<longleftrightarrow> bl_source e = BlacklistSource_manual"
  by (cases "bl_source e") (simp_all add: feed_managed_def)

lemma in_pruned: "e \<in> set (pruned es ls) \<longleftrightarrow> e \<in> set es \<and> (feed_managed e \<longrightarrow> (\<exists>s. (s, bl_id e) \<in> ls))"
  by (auto simp: pruned_def feed_managed_def)

lemma in_relinked:
  "(s', i) \<in> relinked s N es ls \<longleftrightarrow>
     (s', i) \<in> ls \<and> (s' = s \<longrightarrow> (\<forall>e \<in> set es. bl_id e = i \<and> is_global e \<longrightarrow> bl_source_cidr e \<in> N)) \<or>
     s' = s \<and> (\<exists>e \<in> set es. is_global e \<and> bl_source_cidr e \<in> N \<and> bl_id e = i)"
  by (auto simp: relinked_def)

lemma relinked_other: "s' \<noteq> s \<Longrightarrow> (s', i) \<in> relinked s N es ls \<longleftrightarrow> (s', i) \<in> ls"
  by (simp add: in_relinked)

lemma relinked_self:
  assumes "entries_ok es" "e \<in> set es" "is_global e"
  shows "(s, bl_id e) \<in> relinked s N es ls \<longleftrightarrow> bl_source_cidr e \<in> N"
  using assms entries_ok_id [OF assms(1)] by (auto simp: in_relinked)

text \<open>What the statements do to tables that satisfy the invariant.\<close>

lemma sync_tables:
  fixes s :: uuid
  assumes ok: "entries_ok es1" "linked_ok es ls" "es1 = es @ new"
    and new: "\<forall>e \<in> set new. feed_managed e \<and> bl_source_cidr e \<in> N \<and> bl_id e \<notin> bl_id ` set es"
    and cover: "\<forall>n \<in> N. \<exists>e \<in> set es1. is_global e \<and> bl_source_cidr e = n"
  defines "ls' \<equiv> relinked s N es1 ls" and "es' \<equiv> pruned es1 (relinked s N es1 ls)"
  shows "entries_ok es'" and "linked_ok es' ls'"
    and "asserted_nets es' ls' s = N"
    and "s' \<noteq> s \<Longrightarrow> asserted_nets es' ls' s' = asserted_nets es ls s'"
    and "filter (\<lambda>e. \<not> feed_managed e) es' = filter (\<lambda>e. \<not> feed_managed e) es"
proof -
  note self = relinked_self [OF ok(1), where s = s and N = N and ls = ls]
  have old: "e \<in> set es" if e: "e \<in> set es1" and l: "(s', bl_id e) \<in> ls" for e s'
  proof -
    obtain e' where "e' \<in> set es" "bl_id e' = bl_id e"
      using l ok(2) unfolding linked_ok_def by fast
    then have "bl_id e \<in> bl_id ` set es" by (metis image_eqI)
    then show ?thesis using new e ok(3) by auto
  qed
  show "entries_ok es'"
    unfolding es'_def pruned_def by (rule entries_ok_filter [OF ok(1)])
  have "\<exists>e \<in> set es'. is_global e \<and> bl_id e = i" if l: "(s', i) \<in> ls'" for s' i
  proof -
    obtain e where "e \<in> set es1" "is_global e" "bl_id e = i"
      using l ok(2,3) unfolding ls'_def in_relinked linked_ok_def by fastforce
    then show ?thesis using l by (auto simp: es'_def ls'_def in_pruned intro!: bexI [of _ e])
  qed
  then show "linked_ok es' ls'"
    by (auto simp: linked_ok_def es'_def ls'_def in_pruned feed_managed_def)
  have "n \<in> asserted_nets es' ls' s" if n: "n \<in> N" for n
  proof -
    obtain e where e: "e \<in> set es1" "is_global e" "bl_source_cidr e = n" using cover n by blast
    then have "(s, bl_id e) \<in> ls'" using n by (simp add: ls'_def self)
    then show ?thesis using e by (auto simp: asserted_nets_def es'_def ls'_def in_pruned)
  qed
  then show "asserted_nets es' ls' s = N"
    by (auto simp: asserted_nets_def es'_def ls'_def in_pruned self)
  show "asserted_nets es' ls' s' = asserted_nets es ls s'" if "s' \<noteq> s"
  proof -
    have "e \<in> set es' \<and> (s', bl_id e) \<in> ls' \<longleftrightarrow> e \<in> set es \<and> (s', bl_id e) \<in> ls" for e
      unfolding es'_def ls'_def in_pruned relinked_other [OF that]
      using old [of e s'] relinked_other [OF that] ok(3) by (auto intro: exI [of _ s'])
    then show ?thesis unfolding asserted_nets_def by auto
  qed
  show "filter (\<lambda>e. \<not> feed_managed e) es' = filter (\<lambda>e. \<not> feed_managed e) es"
    using new ok(3)
    by (auto simp: es'_def pruned_def filter_filter feed_managed_def filter_empty_conv intro!: filter_cong)
qed

text \<open>The query of the dry run yields the networks that the synchronisation leaves.\<close>

lemma prospective_effective:
  fixes s :: uuid
  assumes ok: "entries_ok es1" "linked_ok (blacklist_entries db) (links (feed_blacklist_assertions db))"
      "es1 = blacklist_entries db @ new"
    and new: "\<forall>e \<in> set new. feed_managed e \<and> bl_source_cidr e \<in> set ns \<and>
      bl_id e \<notin> bl_id ` set (blacklist_entries db)"
    and cover: "\<forall>n \<in> set ns. \<exists>e \<in> set es1. is_global e \<and> bl_source_cidr e = n"
  defines "ls' \<equiv> relinked s (set ns) es1 (links (feed_blacklist_assertions db))"
  shows "set (prospective_nets db ns s) = bl_source_cidr ` set (filter is_global (pruned es1 ls'))"
proof -
  let ?as = "feed_blacklist_assertions db" and ?es = "blacklist_entries db"
  note self = relinked_self [OF ok(1), where s = s and N = "set ns" and ls = "links ?as"]
  have link: "list_ex (\<lambda>a. fa_blacklist_entry_id a = i \<and> fa_feed_source_id a = s \<and> P) ?as \<longleftrightarrow> (s, i) \<in> links ?as \<and> P"
      "list_ex (\<lambda>a. fa_blacklist_entry_id a = i \<and> fa_feed_source_id a \<noteq> s) ?as \<longleftrightarrow> (\<exists>s'. s' \<noteq> s \<and> (s', i) \<in> links ?as)"
    for i P by (auto simp: links_def fa_key_def list_ex_iff image_iff)
  have kept: "(\<exists>s'. (s', bl_id e) \<in> ls') \<longleftrightarrow> bl_source_cidr e \<in> set ns \<or> (\<exists>s'. s' \<noteq> s \<and> (s', bl_id e) \<in> links ?as)"
    if "e \<in> set es1" "is_global e" for e
  proof -
    have "(s', bl_id e) \<in> ls' \<longleftrightarrow> (if s' = s then bl_source_cidr e \<in> set ns else (s', bl_id e) \<in> links ?as)" for s'
      using self [OF that] by (simp add: ls'_def relinked_other)
    then show ?thesis by auto
  qed
  have some: "\<exists>s'. (s', bl_id e) \<in> links ?as" if "e \<in> set ?es" "feed_managed e" for e
    using that ok(2) by (auto simp: linked_ok_def feed_managed_def)
  have a: "bl_source_cidr e \<in> bl_source_cidr ` set (filter is_global (pruned es1 ls'))"
    if e: "e \<in> set ?es" "is_global e"
      and k: "\<not> (feed_managed e \<and> (s, bl_id e) \<in> links ?as \<and> bl_source_cidr e \<notin> set ns \<and>
        (\<forall>s'. s' \<noteq> s \<longrightarrow> (s', bl_id e) \<notin> links ?as))" for e
  proof -
    have e1: "e \<in> set es1" using e(1) ok(3) by simp
    have "\<exists>s'. (s', bl_id e) \<in> ls'" if f: "feed_managed e"
    proof -
      obtain s' where "(s', bl_id e) \<in> links ?as" using some [OF e(1) f] by blast
      then show ?thesis unfolding kept [OF e1 e(2)] using f k by (cases "s' = s") auto
    qed
    then show ?thesis using e(2) e1 by (auto simp: in_pruned)
  qed
  have b: "n \<in> bl_source_cidr ` set (filter is_global (pruned es1 ls'))" if n: "n \<in> set ns" for n
  proof -
    obtain e where "e \<in> set es1" "is_global e" "bl_source_cidr e = n" using cover n by blast
    then show ?thesis using n kept [of e] by (auto simp: in_pruned)
  qed
  have c: "bl_source_cidr e \<in> set (prospective_nets db ns s)"
    if "e \<in> set (pruned es1 ls')" "is_global e" for e
    using that new kept [of e] ok(3) by (auto simp: prospective_nets_def link in_pruned feed_managed_def)
  show ?thesis
  proof (intro equalityI subsetI)
    fix n assume "n \<in> set (prospective_nets db ns s)"
    then consider "n \<in> set ns" | e where "e \<in> set ?es" "is_global e" "n = bl_source_cidr e"
        "\<not> (feed_managed e \<and> (s, bl_id e) \<in> links ?as \<and> bl_source_cidr e \<notin> set ns \<and>
          (\<forall>s'. s' \<noteq> s \<longrightarrow> (s', bl_id e) \<notin> links ?as))"
      by (auto simp: prospective_nets_def link feed_managed_def)
    then show "n \<in> bl_source_cidr ` set (filter is_global (pruned es1 ls'))"
    proof cases
      case 1
      then show ?thesis by (rule b)
    next
      case (2 e)
      show ?thesis unfolding 2(3) by (rule a [OF 2(1,2,4)])
    qed
  next
    fix n assume "n \<in> bl_source_cidr ` set (filter is_global (pruned es1 ls'))"
    then show "n \<in> set (prospective_nets db ns s)" using c by auto
  qed
qed

subsection \<open>The operations\<close>

text \<open>The entries of the deny tables that an operation leaves alone when it only writes elsewhere.\<close>

lemma deny_frames [simp]:
  "blacklist_entries (set_run i f db) = blacklist_entries db"
  "feed_blacklist_assertions (set_run i f db) = feed_blacklist_assertions db"
  "global_deny_row (set_run i f db) = global_deny_row db"
  by (simp_all add: set_run_def)

lemma length_global_cidrs [simp]: "length (global_cidrs db) = length (filter is_global (blacklist_entries db))"
  by (simp add: global_cidrs_def)

lemma global_cidrs_cong: "blacklist_entries db' = blacklist_entries db \<Longrightarrow> global_cidrs db' = global_cidrs db"
  by (simp add: global_cidrs_def)

lemma global_cidrs_frames [simp]:
  "global_cidrs (db\<lparr>global_deny_row := st\<rparr>) = global_cidrs db"
  "global_cidrs (db\<lparr>audit_events := es\<rparr>) = global_cidrs db"
  "global_cidrs (db\<lparr>feed_sync_overlaps := os\<rparr>) = global_cidrs db"
  "global_cidrs (set_run i f db) = global_cidrs db"
  by (rule global_cidrs_cong; simp)+

text \<open>The state row, as it is after it has been created where it was missing.\<close>

definition deny_state :: "db \<Rightarrow> global_deny_state" where
  "deny_state db = (case global_deny_row db of None \<Rightarrow> initial_deny_state | Some st \<Rightarrow> st)"

lemma wp_locked_global_state [wp_simps]:
  "wp (locked_global_state create) Q E db =
     (if create then Q (Some (deny_state db)) (db\<lparr>global_deny_row := Some (deny_state db)\<rparr>)
      else Q (global_deny_row db) db)"
proof -
  have same: "db\<lparr>global_deny_row := Some st\<rparr> = db" if "global_deny_row db = Some st" for st
    using that by (cases db) simp
  show ?thesis
    by (cases "global_deny_row db") (simp_all add: locked_global_state_def deny_state_def wp_simps same)
qed

text \<open>
  What \<open>materialize_locked\<close> leaves: the digest of the list, and one revision
  more exactly when the digest is a new one.
\<close>

definition materialized :: "(ustr \<Rightarrow> string) \<Rightarrow> global_deny_state \<Rightarrow> ustr list \<Rightarrow> global_deny_state" where
  "materialized sha256 st cidrs =
     (if gd_desired_digest st = Some (digest sha256 cidrs) then st
      else st\<lparr>gd_desired_digest := Some (digest sha256 cidrs), gd_desired_revision := gd_desired_revision st + 1,
              gd_apply_status := ApplyStatus_pending\<rparr>)"

lemma materialized_digest [simp]: "gd_desired_digest (materialized sha256 st cidrs) = Some (digest sha256 cidrs)"
  by (simp add: materialized_def)

lemma materialized_revision:
  "gd_desired_revision (materialized sha256 st cidrs) = gd_desired_revision st +
     (if gd_desired_digest st = Some (digest sha256 cidrs) then 0 else 1)"
  by (simp add: materialized_def)

lemma wp_materialize_locked [wp_simps]:
  assumes "global_deny_row db = Some st"
  shows "wp (materialize_locked sha256 st cidrs) Q E db =
    Q \<lparr> mz_cidrs = cidrs, mz_digest = digest sha256 cidrs,
        mz_changed = (gd_desired_digest st \<noteq> Some (digest sha256 cidrs)),
        mz_desired_revision = gd_desired_revision (materialized sha256 st cidrs) \<rparr>
      (db\<lparr>global_deny_row := Some (materialized sha256 st cidrs)\<rparr>)"
proof -
  have "db\<lparr>global_deny_row := Some st\<rparr> = db" using assms by (cases db) simp
  then show ?thesis by (simp add: materialize_locked_def materialized_def wp_simps Let_def)
qed

text \<open>What a synchronisation of feed \<open>s\<close> with the networks \<open>N\<close> does to the deny list.\<close>

definition synced_feed :: "uuid \<Rightarrow> net set \<Rightarrow> db \<Rightarrow> db \<Rightarrow> bool" where
  "synced_feed s N db db' \<longleftrightarrow> feed_nets db' = (feed_nets db)(s := N) \<and>
     filter (\<lambda>e. \<not> feed_managed e) (blacklist_entries db') = filter (\<lambda>e. \<not> feed_managed e) (blacklist_entries db)"

lemma wp_persist_overlaps:
  assumes "Q () db" "\<And>os. Q () (db\<lparr>feed_sync_overlaps := os\<rparr>)"
  shows "wp (persist_overlaps i cs k) Q E db"
  using assms by (simp add: persist_overlaps_def wp_simps)

lemma wp_overlap_summary:
  assumes "Q () db" "\<And>es. Q () (db\<lparr>audit_events := es\<rparr>)"
  shows "wp (record_overlap_summary now s run cs k) Q E db"
  using assms by (simp add: record_overlap_summary_def wp_simps record_event_def)

lemma feed_nets_cong:
  "blacklist_entries db' = blacklist_entries db \<Longrightarrow> feed_blacklist_assertions db' = feed_blacklist_assertions db \<Longrightarrow>
     feed_nets db' = feed_nets db"
  by (simp add: feed_nets_def)

lemma deny_congs:
  assumes "blacklist_entries db' = blacklist_entries db" "feed_blacklist_assertions db' = feed_blacklist_assertions db"
  shows "deny_tables_ok db' = deny_tables_ok db" "synced_feed s N d db' = synced_feed s N d db"
    "global_nets db' = global_nets db" "manual_nets db' = manual_nets db"
  using assms
  by (simp_all add: deny_tables_ok_def synced_feed_def feed_nets_def global_nets_def manual_nets_def)

lemma deny_synced_cong:
  assumes "blacklist_entries db' = blacklist_entries db" "global_deny_row db' = global_deny_row db"
  shows "deny_synced sha256 db' = deny_synced sha256 db"
  using assms by (simp add: deny_synced_def global_cidrs_cong [OF assms(1)])

text \<open>The three statements together.\<close>

lemma wp_sync_statements:
  assumes ok: "deny_tables_ok db" and ns: "\<forall>n \<in> set ns. valid_net n"
    and Q: "\<And>db'. deny_tables_ok db' \<Longrightarrow> synced_feed s (set ns) db db' \<Longrightarrow>
      global_nets db' = set (prospective_nets db ns s) \<Longrightarrow> global_deny_row db' = global_deny_row db \<Longrightarrow> Q () db'"
    and E: "\<And>e d. insert_entries entry_id now ns (blacklist_entries db) = Inl e \<Longrightarrow> E e d"
  shows "wp (andThen (upsert_feed_entries entry_id (map str_net ns) now) (\<lambda>_.
     andThen (replace_source_assertions s ns now) (\<lambda>_. delete_orphaned_feed_entries))) Q E db"
  unfolding wp_simps
proof (rule wp_upsert [OF ns _ E])
  fix es1 assume ins: "insert_entries entry_id now ns (blacklist_entries db) = Inr es1"
  note t = ok [unfolded deny_tables_ok_def]
  obtain new where es1: "es1 = blacklist_entries db @ new" "entries_ok es1"
      and new: "\<forall>e \<in> set new. feed_managed e \<and> bl_source_cidr e \<in> set ns \<and> bl_id e \<notin> bl_id ` set (blacklist_entries db)"
      and cover: "\<forall>n \<in> set ns. \<exists>e \<in> set es1. is_global e \<and> bl_source_cidr e = n"
    using insert_entries_adds [OF ins _ ns] t unfolding feed_managed_def by blast
  define as' where "as' = reassert s ns now es1 (feed_blacklist_assertions db)"
  define db' where "db' = db\<lparr>feed_blacklist_assertions := as', blacklist_entries := pruned es1 (links as')\<rparr>"
  have ls: "links as' = relinked s (set ns) es1 (links (feed_blacklist_assertions db))"
    unfolding as'_def by (rule links_reassert)
  note sync = sync_tables [OF es1(2) conjunct2 [OF conjunct2 [OF t]] es1(1) new cover, where s = s, folded ls]
  have "feed_nets db' = (feed_nets db)(s := set ns)"
    using sync(3,4) by (auto simp: feed_nets_def db'_def fun_eq_iff)
  moreover have "assertions_ok as'"
    unfolding as'_def using t by (intro assertions_ok_reassert) simp
  moreover have "global_nets db' = set (prospective_nets db ns s)"
    using prospective_effective [OF es1(2) conjunct2 [OF conjunct2 [OF t]] es1(1) new cover, of s, folded ls]
    by (auto simp: global_nets_def db'_def)
  ultimately have "Q () db'"
    using sync(1,2,5) by (intro Q) (simp_all add: deny_tables_ok_def synced_feed_def db'_def)
  then show "wp (replace_source_assertions s ns now) (\<lambda>_. wp delete_orphaned_feed_entries Q E) E
      (db\<lparr>blacklist_entries := es1\<rparr>)"
    unfolding replace_source_assertions_def delete_orphaned_feed_entries_def wp_modify orphans_pruned
    by (simp add: as'_def db'_def)
qed

text \<open>The networks of a parse result.\<close>

definition parsed_as :: "ParseResult \<Rightarrow> net list \<Rightarrow> bool" where
  "parsed_as parsed ns \<longleftrightarrow> pr_cidrs parsed = map str_net ns \<and> distinct ns \<and> (\<forall>n \<in> set ns. valid_net n)"

lemma parsed_as_candidates: "parsed_as parsed ns \<Longrightarrow> load_candidates (pr_cidrs parsed) = Inr ns"
  by (simp add: parsed_as_def load_candidates_nets firsts_distinct)

lemma deny_synced_materialized:
  assumes "length (filter is_global (blacklist_entries db)) \<le> MAX_GLOBAL_DENY_ENTRIES"
    "global_deny_row db = Some (materialized sha256 st (global_cidrs db))"
  shows "deny_synced sha256 db"
  using assms by (simp add: deny_synced_def)

text \<open>The part of a reconciliation that writes.\<close>

definition reconciled :: "(ustr \<Rightarrow> string) \<Rightarrow> uuid \<Rightarrow> net list \<Rightarrow> db \<Rightarrow> db \<Rightarrow> bool" where
  "reconciled sha256 s ns db db' \<longleftrightarrow> deny_tables_ok db' \<and> deny_synced sha256 db' \<and> synced_feed s (set ns) db db' \<and>
     global_nets db' = set (prospective_nets db ns s)"

lemma reconciled_cong:
  assumes "blacklist_entries db' = blacklist_entries d" "feed_blacklist_assertions db' = feed_blacklist_assertions d"
    "global_deny_row db' = global_deny_row d"
  shows "reconciled sha256 s ns db db' = reconciled sha256 s ns db d"
  unfolding reconciled_def deny_congs [OF assms(1,2)] deny_synced_cong [OF assms(1,3)] ..

lemma reconciled_frames [simp]:
  "reconciled sha256 s ns db (d\<lparr>feed_sync_overlaps := os\<rparr>) = reconciled sha256 s ns db d"
  "reconciled sha256 s ns db (d\<lparr>audit_events := es\<rparr>) = reconciled sha256 s ns db d"
  "reconciled sha256 s ns db (set_run i f d) = reconciled sha256 s ns db d"
  by (rule reconciled_cong; simp)+

text \<open>When it refuses: two rows get one identifier, or the list would be too long.\<close>

definition sync_refused :: "(net \<Rightarrow> uuid) \<Rightarrow> uuid \<Rightarrow> net list \<Rightarrow> db \<Rightarrow> exc \<Rightarrow> bool" where
  "sync_refused entry_id s ns db e \<longleftrightarrow>
     e = IntegrityError ''blacklist_entry_pkey'' \<and>
       (\<not> inj_on entry_id (set ns) \<or> entry_id ` set ns \<inter> bl_id ` set (blacklist_entries db) \<noteq> {}) \<or>
     e = GlobalDenyLimitError \<and> MAX_GLOBAL_DENY_ENTRIES < card (set (prospective_nets db ns s))"

lemma insert_entries_Inl:
  assumes "insert_entries entry_id now ns es = Inl e" "distinct ns"
  shows "e = IntegrityError ''blacklist_entry_pkey'' \<and>
    (\<not> inj_on entry_id (set ns) \<or> entry_id ` set ns \<inter> bl_id ` set es \<noteq> {})"
  using assms
proof (induction ns arbitrary: es)
  case (Cons n ns)
  show ?case
  proof (cases "list_ex (\<lambda>e. is_global e \<and> bl_source_cidr e = n) es \<or> entry_id n \<in> bl_id ` set es")
    case True
    then show ?thesis using Cons by (auto split: if_splits)
  next
    case False
    then obtain new where "insert_entries entry_id now ns (es @ [new]) = Inl e" "bl_id new = entry_id n"
      using Cons.prems(1) by auto
    then show ?thesis using Cons.IH [of "es @ [new]"] Cons.prems(2) by (auto simp: inj_on_def)
  qed
qed simp

lemma card_global_nets: "entries_ok (blacklist_entries db) \<Longrightarrow>
    card (global_nets db) = length (filter is_global (blacklist_entries db))"
proof -
  assume "entries_ok (blacklist_entries db)"
  then have "distinct (map bl_source_cidr (filter is_global (blacklist_entries db)))"
    by (simp add: entries_ok_def)
  moreover have "global_nets db = set (map bl_source_cidr (filter is_global (blacklist_entries db)))"
    by (auto simp: global_nets_def)
  ultimately show ?thesis using distinct_card by fastforce
qed

lemma wp_reconcile_wet:
  assumes ok: "deny_tables_ok db" and parsed: "parsed_as parsed ns" and st: "global_deny_row db = Some st"
  shows "wp (reconcile_wet sha256 entry_id now source run parsed (Some st) ns added removed overlaps before)
    (\<lambda>r db'. r = \<lparr> rr_valid = length ns, rr_added = added, rr_removed = removed, rr_overlap_count = overlaps,
         rr_global_changed = (digest sha256 before \<noteq> digest sha256 (global_cidrs db')),
         rr_desired_revision = (if gd_desired_digest st = Some (digest sha256 (global_cidrs db')) then None
           else Some (gd_desired_revision st + 1)), rr_noop = False \<rparr> \<and>
       global_deny_row db' = Some (materialized sha256 st (global_cidrs db')) \<and>
       reconciled sha256 (fs_id source) ns db db')
    (\<lambda>e _. sync_refused entry_id (fs_id source) ns db e) db"
proof -
  have cidrs: "pr_cidrs parsed = map str_net ns" and ns: "\<forall>n \<in> set ns. valid_net n"
      and valid: "valid_distinct_count parsed = length ns"
    using parsed by (simp_all add: parsed_as_def valid_distinct_count_def)
  have "wp (andThen (upsert_feed_entries entry_id (map str_net ns) now) (\<lambda>_.
     andThen (replace_source_assertions (fs_id source) ns now) (\<lambda>_. delete_orphaned_feed_entries)))
    (\<lambda>_ d. deny_tables_ok d \<and> synced_feed (fs_id source) (set ns) db d \<and>
       global_nets d = set (prospective_nets db ns (fs_id source)) \<and> global_deny_row d = Some st)
    (\<lambda>e _. sync_refused entry_id (fs_id source) ns db e) db"
    by (rule wp_sync_statements [OF ok ns])
      (use parsed insert_entries_Inl in \<open>simp_all add: st sync_refused_def parsed_as_def\<close>)
  then show ?thesis
    unfolding reconcile_wet_def cidrs option.case wp_andThen
  proof (elim wp_mono, goal_cases)
    case (1 _ _ _ _ _ d)
    let ?d = "d\<lparr>global_deny_row := Some (materialized sha256 st (global_cidrs d))\<rparr>"
    have len: "length (filter is_global (blacklist_entries d)) = card (set (prospective_nets db ns (fs_id source)))"
      using 1 card_global_nets [of d] by (simp add: deny_tables_ok_def)
    have "reconciled sha256 (fs_id source) ns db ?d" if "length (global_cidrs d) \<le> MAX_GLOBAL_DENY_ENTRIES"
      using that 1 deny_congs [of ?d d] by (simp add: reconciled_def deny_synced_def)
    then show ?case
      using 1 len
      by (auto simp: wp_simps enforce_capacity_def store_run_stats_def sync_refused_def valid materialized_revision
          intro!: wp_persist_overlaps wp_overlap_summary)
  qed simp_all
qed

text \<open>The two counters are the sizes of the differences.\<close>

lemma join_product: "[(a, e). a \<leftarrow> as, e \<leftarrow> es, P a e] = filter (\<lambda>(a, e). P a e) (List.product as es)"
proof (induction as)
  case (Cons a as)
  have "concat (map (\<lambda>e. if P a e then [(a, e)] else []) es) = filter (\<lambda>(a, e). P a e) (map (Pair a) es)"
    by (induction es) simp_all
  then show ?case using Cons by simp
qed simp

lemma source_delta_counts_eq:
  assumes ok: "deny_tables_ok db" and ns: "distinct ns"
  shows "source_delta_counts db ns s = (card (set ns - feed_nets db s), card (feed_nets db s - set ns))"
proof -
  let ?as = "feed_blacklist_assertions db" and ?es = "blacklist_entries db"
  let ?join = "filter (\<lambda>(a, e). bl_id e = fa_blacklist_entry_id a) (List.product ?as ?es)"
  note t = ok [unfolded deny_tables_ok_def entries_ok_def assertions_ok_def]
  have feed: "feed_nets db s = {bl_source_cidr e | a e. (a, e) \<in> set ?join \<and> fa_feed_source_id a = s \<and> is_global e}"
    unfolding feed_nets_def asserted_nets_def links_def fa_key_def by auto
  have "length (filter (\<lambda>c. \<not> list_ex (\<lambda>(a, e). fa_feed_source_id a = s \<and> is_global e \<and> bl_source_cidr e = c) ?join) ns)
      = card (set ns - feed_nets db s)"
  proof -
    have "filter (\<lambda>c. \<not> list_ex (\<lambda>(a, e). fa_feed_source_id a = s \<and> is_global e \<and> bl_source_cidr e = c) ?join) ns
        = filter (\<lambda>c. c \<notin> feed_nets db s) ns"
      unfolding feed by (rule filter_cong) (auto simp: list_ex_iff)
    then show ?thesis using distinct_card [OF distinct_filter [OF ns]] by (simp add: set_diff_eq)
  qed
  moreover have "length (filter (\<lambda>(a, e). fa_feed_source_id a = s \<and> is_global e \<and> bl_source_cidr e \<notin> set ns) ?join)
      = card (feed_nets db s - set ns)"
  proof -
    let ?rs = "filter (\<lambda>(a, e). fa_feed_source_id a = s \<and> is_global e \<and> bl_source_cidr e \<notin> set ns) ?join"
    have "distinct ?as" "distinct ?es" and ia: "inj_on fa_key (set ?as)"
      and ie: "inj_on bl_source_cidr (set (filter is_global ?es))"
      using t by (simp_all add: distinct_map)
    then have "distinct ?rs" by (intro distinct_filter distinct_product)
    moreover have "inj_on (bl_source_cidr \<circ> snd) (set ?rs)"
    proof (rule inj_onI)
      fix r r' assume r: "r \<in> set ?rs" "r' \<in> set ?rs" and eq: "(bl_source_cidr \<circ> snd) r = (bl_source_cidr \<circ> snd) r'"
      have e: "snd r \<in> set (filter is_global ?es)" "snd r' \<in> set (filter is_global ?es)" using r by auto
      then have "snd r = snd r'" using eq by (intro inj_onD [OF ie]) simp_all
      moreover have "fa_key (fst r) = fa_key (fst r')" using r calculation by (auto simp: fa_key_def)
      moreover have "fst r \<in> set ?as" "fst r' \<in> set ?as" using r by auto
      ultimately show "r = r'" using inj_onD [OF ia] by (simp add: prod_eq_iff)
    qed
    moreover have "(bl_source_cidr \<circ> snd) ` set ?rs = feed_nets db s - set ns"
      unfolding feed by (auto simp: image_iff) blast+
    ultimately show ?thesis using distinct_card [of ?rs] card_image [of "bl_source_cidr \<circ> snd" "set ?rs"] by simp
  qed
  ultimately show ?thesis by (simp add: source_delta_counts_def join_product)
qed

text \<open>The whole operation, when the feed exists.\<close>

definition feed_live :: "db \<Rightarrow> feed_sync_run \<Rightarrow> bool" where
  "feed_live db run \<longleftrightarrow> (\<exists>source. get_source db (fr_feed_source_id run) = Some source \<and>
     (fs_deleted_at source = None \<or> fr_trigger run = Trigger_feed_delete))"

lemma get_source_id: "get_source db i = Some source \<Longrightarrow> fs_id source = i"
  by (auto simp: get_source_def dest: row_SomeD)

lemma reconciled_base: "reconciled sha256 s ns (db\<lparr>global_deny_row := st\<rparr>) d = reconciled sha256 s ns db d"
  by (simp add: reconciled_def synced_feed_def feed_nets_def prospective_nets_def)

lemma wp_reconcile:
  assumes ok: "deny_tables_ok db" and parsed: "parsed_as parsed ns" and live: "feed_live db run"
    and wet: "\<not> fr_dry_run run"
  defines "s \<equiv> fr_feed_source_id run" and "st \<equiv> deny_state db"
  shows "wp (reconcile sha256 collated entry_id now run parsed)
    (\<lambda>r db'. r = \<lparr> rr_valid = length ns, rr_added = card (set ns - feed_nets db s),
         rr_removed = card (feed_nets db s - set ns), rr_overlap_count = overlap_count db ns,
         rr_global_changed = (digest sha256 (global_cidrs db) \<noteq> digest sha256 (global_cidrs db')),
         rr_desired_revision = (if gd_desired_digest st = Some (digest sha256 (global_cidrs db')) then None
           else Some (gd_desired_revision st + 1)), rr_noop = False \<rparr> \<and>
       global_deny_row db' = Some (materialized sha256 st (global_cidrs db')) \<and>
       reconciled sha256 s ns db db')
    (\<lambda>e db'. db' = db \<and> sync_refused entry_id s ns db e) db"
proof -
  obtain source where src: "get_source db (fr_feed_source_id run) = Some source"
      "fs_deleted_at source = None \<or> fr_trigger run = Trigger_feed_delete"
    using live by (auto simp: feed_live_def)
  have id: "fs_id source = s" using get_source_id [OF src(1)] by (simp add: s_def)
  let ?db = "db\<lparr>global_deny_row := Some st\<rparr>"
  have dt: "deny_tables_ok ?db" using ok by (simp add: deny_tables_ok_def)
  have delta: "source_delta_counts ?db ns s = (card (set ns - feed_nets db s), card (feed_nets db s - set ns))"
    using source_delta_counts_eq [OF dt, of ns s] parsed by (simp add: parsed_as_def feed_nets_def)
  have refused: "sync_refused entry_id s ns ?db e = sync_refused entry_id s ns db e" for e
    by (simp add: sync_refused_def prospective_nets_def)
  have overlap: "overlap_count ?db ns = overlap_count db ns" by (simp add: overlap_count_def)
  show ?thesis
    using src(2) wet wp_reconcile_wet [OF dt parsed, of st sha256 entry_id now source run "fst (source_delta_counts ?db ns s)"
      "snd (source_delta_counts ?db ns s)" "overlap_count ?db ns" "global_cidrs ?db"]
    by (elim disjE; simp add: reconcile_def locked_source_def wp_simps src(1) id parsed_as_candidates [OF parsed] delta
        overlap refused reconciled_base st_def [symmetric])
qed

text \<open>What is relied on of the database's text order: it rearranges the rows.\<close>

definition rearranges :: "(ustr list \<Rightarrow> ustr list) \<Rightarrow> bool" where
  "rearranges collated \<longleftrightarrow> (\<forall>xs. length (collated xs) = length xs \<and> set (collated xs) = set xs)"

lemma length_prospective:
  assumes perm: "rearranges collated" and valid: "\<forall>n \<in> set (prospective_nets db ns s). valid_net n"
  shows "length (prospective_global_cidrs collated db ns s) = card (set (prospective_nets db ns s))"
    and "set (prospective_global_cidrs collated db ns s) = str_net ` set (prospective_nets db ns s)"
proof -
  have "inj_on str_net (set (prospective_nets db ns s))"
    using valid by (auto simp: inj_on_def intro: str_net_inj)
  moreover have "length (collated xs) = length xs" "set (collated xs) = set xs" for xs
    using perm by (simp_all add: rearranges_def)
  ultimately show "length (prospective_global_cidrs collated db ns s) = card (set (prospective_nets db ns s))"
    "set (prospective_global_cidrs collated db ns s) = str_net ` set (prospective_nets db ns s)"
    by (simp_all add: prospective_global_cidrs_def length_remdups_card_conv card_image)
qed

lemma prospective_valid:
  assumes "deny_tables_ok db" "\<forall>n \<in> set ns. valid_net n"
  shows "\<forall>n \<in> set (prospective_nets db ns s). valid_net n"
  using assms by (auto simp: prospective_nets_def deny_tables_ok_def entries_ok_def)

lemma wp_reconcile_dry:
  assumes ok: "deny_tables_ok db" and parsed: "parsed_as parsed ns" and live: "feed_live db run"
    and dry: "fr_dry_run run" and perm: "rearranges collated"
  defines "s \<equiv> fr_feed_source_id run"
  shows "wp (reconcile sha256 collated entry_id now run parsed)
    (\<lambda>r db'. r = \<lparr> rr_valid = length ns, rr_added = card (set ns - feed_nets db s),
         rr_removed = card (feed_nets db s - set ns), rr_overlap_count = overlap_count db ns,
         rr_global_changed = (digest sha256 (global_cidrs db) \<noteq>
           digest sha256 (prospective_global_cidrs collated db ns s)),
         rr_desired_revision = None, rr_noop = False \<rparr> \<and>
       snd (store_run_stats run parsed (rr_added r) (rr_removed r) (rr_overlap_count r) (rr_global_changed r) None db) = db')
    (\<lambda>e db'. db' = db \<and> e = GlobalDenyLimitError \<and> MAX_GLOBAL_DENY_ENTRIES < card (set (prospective_nets db ns s))) db"
proof -
  obtain source where src: "get_source db (fr_feed_source_id run) = Some source"
      "fs_deleted_at source = None \<or> fr_trigger run = Trigger_feed_delete"
    using live by (auto simp: feed_live_def)
  have id: "fs_id source = s" using get_source_id [OF src(1)] by (simp add: s_def)
  have delta: "source_delta_counts db ns s = (card (set ns - feed_nets db s), card (feed_nets db s - set ns))"
    using source_delta_counts_eq [OF ok, of ns s] parsed by (simp add: parsed_as_def)
  have len: "length (prospective_global_cidrs collated db ns s) = card (set (prospective_nets db ns s))"
    using length_prospective [OF perm prospective_valid [OF ok]] parsed by (simp add: parsed_as_def)
  have valid: "valid_distinct_count parsed = length ns"
    using parsed by (simp add: parsed_as_def valid_distinct_count_def)
  show ?thesis
    using src(2) dry
    by (elim disjE; simp add: reconcile_def reconcile_dry_def locked_source_def wp_simps src(1) id valid
        parsed_as_candidates [OF parsed] delta enforce_capacity_def store_run_stats_def len run_simps)
qed

text \<open>The union is what the manual entries and the feeds make it.\<close>

lemma global_nets_union:
  assumes "deny_tables_ok db"
  shows "global_nets db = manual_nets db \<union> (\<Union>s. feed_nets db s)"
proof -
  have "bl_source_cidr e \<in> manual_nets db \<union> (\<Union>s. feed_nets db s)"
    if e: "e \<in> set (blacklist_entries db)" "is_global e" for e
  proof (cases "bl_source e")
    case BlacklistSource_manual
    then show ?thesis using e by (auto simp: manual_nets_def)
  next
    case BlacklistSource_feed
    then obtain s where "(s, bl_id e) \<in> links (feed_blacklist_assertions db)"
      using assms e by (auto simp: deny_tables_ok_def linked_ok_def)
    then have "bl_source_cidr e \<in> feed_nets db s" using e by (auto simp: feed_nets_def asserted_nets_def)
    then show ?thesis by blast
  qed
  then show ?thesis
    by (auto simp: global_nets_def manual_nets_def feed_nets_def asserted_nets_def)
qed

lemma manual_nets_unmanaged:
  "manual_nets db = {bl_source_cidr e | e. e \<in> set (filter (\<lambda>e. \<not> feed_managed e) (blacklist_entries db)) \<and> is_global e}"
  unfolding manual_nets_def using not_feed_managed by auto

lemma synced_manual: "synced_feed s N db db' \<Longrightarrow> manual_nets db' = manual_nets db"
  by (simp add: manual_nets_unmanaged synced_feed_def)

lemma set_global_cidrs: "set (global_cidrs db) = str_net ` global_nets db"
  by (auto simp: global_cidrs_def global_nets_def)

lemma parse_line_list_nets: "\<exists>ns. parsed_as (parse_line_list data) ns"
proof (cases "utf8_sig_decode data")
  case None
  then show ?thesis by (simp add: parse_line_list_def parsed_as_def exI [of _ "[]"])
next
  case (Some content)
  define cs where "cs = line_cidrs (enumerate 1 (splitlines content))"
  have "\<exists>n. valid_net n \<and> c = str_net n" if "c \<in> set cs" for c
    using that normalize_cidr_canonical
    by (fastforce simp: cs_def set_line_cidrs line_item_def Let_def split: if_splits)
  then obtain f where f: "valid_net (f c) \<and> c = str_net (f c)" if "c \<in> set cs" for c by metis
  have "str_net (f c) = c" if "c \<in> set cs" for c using f [OF that] by simp
  then have "map str_net (map f (firsts cs)) = firsts cs"
    unfolding map_map by (intro map_idI) simp
  moreover have "distinct (map f (firsts cs))"
    by (auto simp: distinct_map inj_on_def) (metis f)
  ultimately show ?thesis
    using parse_line_list_spec [OF Some] f by (auto simp: parsed_as_def cs_def intro!: exI [of _ "map f (firsts cs)"])
qed

section \<open>Properties\<close>

text \<open>
  A deployment with one manual entry (9.0.0.0/8) and one feed, which asserts
  10.0.0.0/8, and a run of that feed.
\<close>

definition sample_feed :: threat_feed_source where
  "sample_feed = \<lparr> fs_id = 60, fs_name = ''feed'', fs_url = ''https://feed.example/list'',
     fs_format = FeedFormat_line_list, fs_enabled = True, fs_sync_interval_seconds = 3600,
     fs_credential_env_var = None, fs_sync_sequence = 3, fs_last_status = None, fs_last_error = None,
     fs_last_sync_at = None, fs_next_sync_at = Some 0, fs_deleted_at = None, fs_created_at = 0 \<rparr>"

definition sample_run :: "bool \<Rightarrow> feed_sync_run" where
  "sample_run dry_run = \<lparr> fr_id = 80, fr_feed_source_id = 60, fr_source_name = ''feed'', fr_sequence = 3,
     fr_trigger = Trigger_feed_manual, fr_dry_run = dry_run, fr_status = FeedSync_running,
     fr_started_at = None, fr_finished_at = None, fr_duration_ms = None, fr_error = None,
     fr_fetched_lines = 0, fr_valid = 0, fr_duplicates = 0, fr_added = 0, fr_removed = 0,
     fr_skipped_invalid = 0, fr_overlap_count = 0, fr_global_changed = False,
     fr_desired_revision = None, fr_node_map_version = None \<rparr>"

definition sample_deny :: db where
  "sample_deny = sample_db\<lparr>threat_feed_sources := [sample_feed],
     blacklist_entries := [
       \<lparr> bl_id = 70, bl_scope = BlacklistScope_global, bl_source = BlacklistSource_manual,
          bl_source_cidr = Net 150994944 8, bl_created_by = None, bl_created_at = 0 \<rparr>,
       \<lparr> bl_id = 71, bl_scope = BlacklistScope_global, bl_source = BlacklistSource_feed,
          bl_source_cidr = Net 167772160 8, bl_created_by = None, bl_created_at = 0 \<rparr>],
     feed_blacklist_assertions := [
       \<lparr> fa_feed_source_id = 60, fa_blacklist_entry_id = 71, fa_first_seen_at = 0, fa_last_seen_at = 0 \<rparr>]\<rparr>"

definition parsed_nets :: "net list \<Rightarrow> ParseResult" where
  "parsed_nets ns = \<lparr> pr_physical_line_count = length ns, pr_cidrs = map str_net ns, pr_invalid_count = 0,
     pr_duplicate_count = 0, pr_invalid_line_diagnostics = [], pr_outcome = ParseOutcome_success \<rparr>"

lemma sample_deny_ok: "deny_tables_ok sample_deny"
  by (simp add: deny_tables_ok_def entries_ok_def assertions_ok_def linked_ok_def links_def fa_key_def
      sample_deny_def is_global_def valid_net_def net_size_def)

lemma sample_feed_live: "feed_live sample_deny (sample_run dry_run)"
  by (simp add: feed_live_def get_source_def sample_deny_def sample_feed_def sample_run_def table_simps)

lemma sample_feed_nets: "feed_nets sample_deny 60 = {Net 167772160 8}"
  by (simp add: feed_nets_def asserted_nets_def links_def fa_key_def sample_deny_def is_global_def
      conj_disj_distribL conj_disj_distribR ex_disj_distrib)

lemma sample_parsed: "parsed_as (parsed_nets [Net 134217728 8]) [Net 134217728 8]"
  by (simp add: parsed_as_def parsed_nets_def valid_net_def net_size_def)

text \<open>
  C10 A synchronisation replaces what its feed asserts and nothing else.  From
  tables that satisfy the invariant, with the networks of a parsed feed, a
  run that returns leaves: the feed asserting exactly these networks, every
  other feed and every manual or service entry as before, the effective list equal
  to the union of manual entries and feeds, the invariant, the digest of the list
  recorded with at most 1,048,576 entries, counters equal to the sizes of the
  differences, and the revision advanced by one exactly when the digest is new.
  It fails only if generated identifiers collide or the list would be too
  long, and then changes nothing.
\<close>

theorem feed_sync_replaces_one_feed:
  assumes "deny_tables_ok db" "parsed_as parsed ns" "feed_live db run" "\<not> fr_dry_run run"
  defines "s \<equiv> fr_feed_source_id run"
  shows "case reconcile sha256 collated entry_id now run parsed db of
      (Inr r, db') \<Rightarrow>
        feed_nets db' = (feed_nets db)(s := set ns) \<and>
        filter (\<lambda>e. \<not> feed_managed e) (blacklist_entries db') = filter (\<lambda>e. \<not> feed_managed e) (blacklist_entries db) \<and>
        global_nets db' = manual_nets db \<union> (\<Union>i. ((feed_nets db)(s := set ns)) i) \<and>
        deny_tables_ok db' \<and> deny_synced sha256 db' \<and>
        rr_added r = card (set ns - feed_nets db s) \<and> rr_removed r = card (feed_nets db s - set ns) \<and>
        gd_desired_revision (deny_state db') = gd_desired_revision (deny_state db) +
          (if gd_desired_digest (deny_state db) = Some (digest sha256 (global_cidrs db')) then 0 else 1)
    | (Inl e, db') \<Rightarrow> db' = db \<and> sync_refused entry_id s ns db e"
proof -
  note wp = wp_reconcile [OF assms(1-4), of sha256 collated entry_id now, folded s_def]
  show ?thesis
  proof (cases "reconcile sha256 collated entry_id now run parsed db")
    case (Pair res db')
    show ?thesis
    proof (cases res)
      case (Inl e)
      then show ?thesis using wp Pair by (simp add: wp_def)
    next
      case (Inr r)
      then have rec: "reconciled sha256 s ns db db'" and r: "rr_added r = card (set ns - feed_nets db s)"
          "rr_removed r = card (feed_nets db s - set ns)"
          and st: "global_deny_row db' = Some (materialized sha256 (deny_state db) (global_cidrs db'))"
        using wp Pair by (simp_all add: wp_def)
      have "deny_tables_ok db'" "synced_feed s (set ns) db db'" using rec by (simp_all add: reconciled_def)
      then show ?thesis
        using Inr Pair rec r st global_nets_union [of db'] synced_manual [of s "set ns" db db']
        by (simp add: reconciled_def synced_feed_def materialized_revision deny_state_def)
    qed
  qed
qed

theorem feed_sync_replaces_one_feed_witness:
  "case reconcile (map char_of) (\<lambda>xs. xs) (\<lambda>_. 90) 5 (sample_run False) (parsed_nets [Net 134217728 8]) sample_deny of
     (Inr r, db') \<Rightarrow> feed_nets db' 60 = {Net 134217728 8} \<and> rr_added r = 1 \<and> rr_removed r = 1
   | (Inl e, db') \<Rightarrow> False"
proof -
  have "\<not> sync_refused (\<lambda>_. 90) 60 [Net 134217728 8] sample_deny e" for e
    by (simp add: sync_refused_def prospective_nets_def sample_deny_def is_global_def MAX_GLOBAL_DENY_ENTRIES_def)
  then show ?thesis
    using feed_sync_replaces_one_feed [OF sample_deny_ok sample_parsed sample_feed_live [of False],
      where entry_id = "\<lambda>_. 90" and now = 5 and ?sha256.0 = "map char_of" and collated = "\<lambda>xs. xs"]
    by (simp add: sample_run_def sample_feed_nets split: prod.splits sum.splits)
qed

text \<open>
  C25 A dry run foretells the synchronisation.  The numbers of
  valid, added, removed and overlapping networks it reports are those the real run with the same
  input reports, and the list it computes holds exactly the networks that the real run
  leaves in force.  All it writes is those numbers, the duplicate and invalid counts of the
  parse and its own \<open>global_changed\<close> into the row of its run, whose revision is
  cleared: the state of the run, the entries, the assertions and the global list stay.  Nothing is
  claimed of \<open>global_changed\<close> itself.
\<close>

theorem dry_run_foretells_sync:
  assumes "deny_tables_ok db" "parsed_as parsed ns" "feed_live db run" "fr_dry_run run" "rearranges collated"
    and "reconcile sha256 collated entry_id now run parsed db = (Inr dry, db1)"
    and "reconcile sha256 collated entry_id now (run\<lparr>fr_dry_run := False\<rparr>) parsed db = (Inr wet, db2)"
  shows "rr_valid dry = rr_valid wet \<and> rr_added dry = rr_added wet \<and> rr_removed dry = rr_removed wet \<and>
    rr_overlap_count dry = rr_overlap_count wet \<and> rr_noop dry = rr_noop wet \<and> rr_desired_revision dry = None \<and>
    set (prospective_global_cidrs collated db ns (fr_feed_source_id run)) = set (global_cidrs db2) \<and>
    db1 = db\<lparr>feed_sync_runs := update_row fr_id (fr_id run) (\<lambda>r. r\<lparr>fr_valid := int (rr_valid wet),
      fr_duplicates := int (pr_duplicate_count parsed), fr_skipped_invalid := int (pr_invalid_count parsed),
      fr_added := int (rr_added wet), fr_removed := int (rr_removed wet), fr_overlap_count := int (rr_overlap_count wet),
      fr_global_changed := rr_global_changed dry, fr_desired_revision := None\<rparr>) (feed_sync_runs db)\<rparr>"
proof -
  have live: "feed_live db (run\<lparr>fr_dry_run := False\<rparr>)" using assms(3) by (simp add: feed_live_def)
  note d = wp_okD [OF wp_reconcile_dry [OF assms(1-5)] assms(6)]
  note w = wp_okD [OF wp_reconcile [OF assms(1,2) live] assms(7)]
  have ns: "\<forall>n \<in> set ns. valid_net n" "valid_distinct_count parsed = length ns"
    using assms(2) by (simp_all add: parsed_as_def valid_distinct_count_def)
  show ?thesis
    using d w length_prospective(2) [OF assms(5) prospective_valid [OF assms(1) ns(1)]] ns(2)
    by (auto simp: reconciled_def set_global_cidrs store_run_stats_def run_simps set_run_def)
qed

lemma sample_sync_returns:
  assumes "rearranges collated"
  shows "\<exists>r db'. reconcile sha256 collated (\<lambda>_. 90) 5 (sample_run dry) (parsed_nets [Net 134217728 8]) sample_deny = (Inr r, db')"
proof -
  have "\<not> sync_refused (\<lambda>_. 90) 60 [Net 134217728 8] sample_deny e"
      "\<not> MAX_GLOBAL_DENY_ENTRIES < card (set (prospective_nets sample_deny [Net 134217728 8] 60))" for e
    by (simp_all add: sync_refused_def prospective_nets_def sample_deny_def is_global_def MAX_GLOBAL_DENY_ENTRIES_def)
  then show ?thesis
    using wp_reconcile [OF sample_deny_ok sample_parsed sample_feed_live, of dry sha256 collated "\<lambda>_. 90" 5]
      wp_reconcile_dry [OF sample_deny_ok sample_parsed sample_feed_live _ assms, of dry sha256 "\<lambda>_. 90" 5]
    by (cases dry) (auto simp: wp_def sample_run_def split: prod.splits sum.splits)
qed

theorem dry_run_foretells_sync_witness:
  "\<exists>dry db1 wet db2.
     reconcile (map char_of) (\<lambda>xs. xs) (\<lambda>_. 90) 5 (sample_run True) (parsed_nets [Net 134217728 8]) sample_deny = (Inr dry, db1) \<and>
     reconcile (map char_of) (\<lambda>xs. xs) (\<lambda>_. 90) 5 (sample_run False) (parsed_nets [Net 134217728 8]) sample_deny = (Inr wet, db2) \<and>
     rr_added dry = rr_added wet \<and> rr_removed dry = rr_removed wet"
proof -
  have c: "rearranges (\<lambda>xs. xs)" by (simp add: rearranges_def)
  have wet: "(sample_run True)\<lparr>fr_dry_run := False\<rparr> = sample_run False" by (simp add: sample_run_def)
  obtain dry db1 wet db2 where
    "reconcile (map char_of) (\<lambda>xs. xs) (\<lambda>_. 90) 5 (sample_run True) (parsed_nets [Net 134217728 8]) sample_deny = (Inr dry, db1)"
    "reconcile (map char_of) (\<lambda>xs. xs) (\<lambda>_. 90) 5 (sample_run False) (parsed_nets [Net 134217728 8]) sample_deny = (Inr wet, db2)"
    using sample_sync_returns [OF c, of "map char_of"] by metis
  moreover have "fr_dry_run (sample_run True)" by (simp add: sample_run_def)
  ultimately show ?thesis
    using dry_run_foretells_sync [OF sample_deny_ok sample_parsed sample_feed_live [of True] _ c, unfolded wet] by blast
qed

text \<open>
  C33 Its \<open>global_changed\<close> is another matter.  The dry run digests the list in the
  order of the text, the stored digest follows the order of the networks, so where
  the two differ (10.0.0.0/8 sorts before 9.0.0.0/8 as text) and the
  digest tells the two lists apart, a dry run of an unchanged feed reports that
  the global list would change although nothing is added or removed.
\<close>

theorem dry_run_reports_spurious_change:
  fixes sha256 :: "ustr \<Rightarrow> string" and collated :: "ustr list \<Rightarrow> ustr list"
  defines "nine \<equiv> str_net (Net 150994944 8)" and "ten \<equiv> str_net (Net 167772160 8)"
  assumes "rearranges collated" "collated [nine, ten] = [ten, nine]"
    and "sha256 (nine @ 10 # ten) \<noteq> sha256 (ten @ 10 # nine)"
  shows "\<exists>r db'. reconcile sha256 collated entry_id now (sample_run True) (parsed_nets [Net 167772160 8]) sample_deny = (Inr r, db') \<and>
    rr_added r = 0 \<and> rr_removed r = 0 \<and> rr_global_changed r"
proof -
  have p: "parsed_as (parsed_nets [Net 167772160 8]) [Net 167772160 8]"
    by (simp add: parsed_as_def parsed_nets_def valid_net_def net_size_def)
  have dry: "fr_dry_run (sample_run True)" by (simp add: sample_run_def)
  have before: "global_cidrs sample_deny = [nine, ten]"
    by (simp add: global_cidrs_def sample_deny_def is_global_def nine_def ten_def less_eq_net_def net_less_eq_def)
  have nets: "prospective_nets sample_deny [Net 167772160 8] 60 = [Net 150994944 8, Net 167772160 8, Net 167772160 8]"
    by (simp add: prospective_nets_def sample_deny_def is_global_def)
  have "nine \<noteq> ten" by (simp add: nine_def ten_def str_net_def str_ipv4_def dec.simps)
  then have after: "prospective_global_cidrs collated sample_deny [Net 167772160 8] 60 = [ten, nine]"
    using assms(4) by (simp add: prospective_global_cidrs_def nets nine_def [symmetric] ten_def [symmetric])
  have "card (set (prospective_nets sample_deny [Net 167772160 8] 60)) \<le> MAX_GLOBAL_DENY_ENTRIES"
    by (simp add: nets MAX_GLOBAL_DENY_ENTRIES_def)
  then show ?thesis
    using wp_reconcile_dry [OF sample_deny_ok p sample_feed_live dry assms(3), of sha256 entry_id now] before after assms(5)
    by (auto simp: wp_def sample_run_def sample_feed_nets digest_def split: prod.splits sum.splits)
qed

theorem dry_run_reports_spurious_change_witness:
  "\<exists>r db'. reconcile (map char_of) (sort_key (\<lambda>s. s ! 0)) (\<lambda>_. 90) 5 (sample_run True) (parsed_nets [Net 167772160 8]) sample_deny
     = (Inr r, db') \<and> rr_added r = 0 \<and> rr_removed r = 0 \<and> rr_global_changed r"
proof -
  have "rearranges (sort_key (\<lambda>s. s ! 0))" by (simp add: rearranges_def)
  moreover have "sort_key (\<lambda>s. s ! 0) [str_net (Net 150994944 8), str_net (Net 167772160 8)] =
      [str_net (Net 167772160 8), str_net (Net 150994944 8)]"
    by (simp add: str_net_def str_ipv4_def dec.simps)
  moreover have "(map char_of (str_net (Net 150994944 8) @ 10 # str_net (Net 167772160 8)) :: string) \<noteq>
      map char_of (str_net (Net 167772160 8) @ 10 # str_net (Net 150994944 8))"
    by (simp add: str_net_def str_ipv4_def dec.simps char_of_eq_iff)
  ultimately show ?thesis by (rule dry_run_reports_spurious_change)
qed

text \<open>
  The snapshot handed to the node is the current list.  Once the list has been
  materialized, loading the snapshot of the desired revision succeeds and gives
  that revision, the stored digest and the sorted effective networks; any other
  revision is refused; and loading changes nothing.
\<close>

theorem snapshot_is_current:
  assumes "deny_synced sha256 db"
  shows "load_global_snapshot sha256 revision db =
    (if revision = gd_desired_revision (deny_state db)
     then (Inr \<lparr> sn_revision = revision, sn_digest = digest sha256 (global_cidrs db), sn_cidrs = global_cidrs db \<rparr>, db)
     else (Inl GlobalDenyRevisionMismatch, db))"
  using assms
  by (auto simp: deny_synced_def deny_state_def load_global_snapshot_def locked_global_state_def run_simps)

theorem snapshot_is_current_witness:
  "let db = sample_deny\<lparr>global_deny_row := Some (materialized (map char_of) initial_deny_state (global_cidrs sample_deny))\<rparr>
   in load_global_snapshot (map char_of) 1 db = (Inr \<lparr> sn_revision = 1, sn_digest = digest (map char_of) (global_cidrs db),
        sn_cidrs = global_cidrs db \<rparr>, db)"
proof -
  let ?db = "sample_deny\<lparr>global_deny_row := Some (materialized (map char_of) initial_deny_state (global_cidrs sample_deny))\<rparr>"
  have "deny_synced (map char_of) ?db"
    by (simp add: deny_synced_def sample_deny_def MAX_GLOBAL_DENY_ENTRIES_def)
  moreover have "gd_desired_revision (deny_state ?db) = 1"
    by (simp add: deny_state_def materialized_def initial_deny_state_def)
  ultimately show ?thesis using snapshot_is_current [of "map char_of" ?db 1] by (simp add: Let_def)
qed

end
