(* ===== verification/DenyConvergence.thy ===== *)
theory DenyConvergence
  imports FeedReconcile Processor
begin

text \<open>
  From the desired deny list to the node: the job that \<open>app/worker/feed_scheduler.py\<close>
  queues (\<open>_enqueue_global_convergence\<close>), and the three steps of
  \<open>FeedRunner._converge_desired_revision\<close> in \<open>app/worker/feed_runner.py\<close> (load
  a snapshot, hand it to the node, record the outcome), with the node's answer
  \<open>apply_global\<close> and the commits of other sessions in between (\<open>concurrent\<close>) as
  parameters.
\<close>

section \<open>Definitions\<close>

definition GLOBAL_DENY_TARGET_TYPE :: string where
  "GLOBAL_DENY_TARGET_TYPE = ''global_deny''"

definition state_needs_apply :: "global_deny_state \<Rightarrow> bool" where
  "state_needs_apply state \<longleftrightarrow>
     gd_desired_revision state \<noteq> gd_active_revision state \<or> gd_desired_digest state \<noteq> gd_active_digest state"

definition scheduler_register_dispatch :: "uuid \<Rightarrow> unit dbprog" where
  "scheduler_register_dispatch job_id = modify (\<lambda>db. db\<lparr>post_commit := post_commit db @ [job_id]\<rparr>)"

definition is_deny_job :: "agent_job \<Rightarrow> bool" where
  "is_deny_job j \<longleftrightarrow> jb_job_type j = JobType_global_deny_apply"

definition is_active_job :: "agent_job \<Rightarrow> bool" where
  "is_active_job j \<longleftrightarrow> jb_status j = JobStatus_queued \<or> jb_status j = JobStatus_applying"

definition new_deny_job :: "uuid \<Rightarrow> timestamp \<Rightarrow> int \<Rightarrow> agent_job" where
  "new_deny_job job_id now version =
     \<lparr> jb_id = job_id, jb_target_type = GLOBAL_DENY_TARGET_TYPE, jb_target_id = None,
        jb_feed_sync_run_id = None, jb_version = version, jb_job_type = JobType_global_deny_apply,
        jb_trigger = Trigger_global_deny_retry, jb_status = JobStatus_queued, jb_error = None,
        jb_attempts = 0, jb_dispatched_at = None, jb_created_at = now, jb_started_at = None,
        jb_finished_at = None \<rparr>"

text \<open>
  \<open>row_free\<close> tells whether the state row can be locked: a row that another
  transaction holds is skipped (\<open>skip_locked\<close>).
\<close>

definition enqueue_global_convergence :: "bool \<Rightarrow> uuid \<Rightarrow> timestamp \<Rightarrow> bool dbprog" where
  "enqueue_global_convergence row_free job_id now =
     andThen (gets (\<lambda>db. if row_free then global_deny_row db else None)) (\<lambda>found.
     case found of
       None \<Rightarrow> ret False
     | Some state \<Rightarrow>
     if \<not> state_needs_apply state then ret False
     else
     andThen (gets (\<lambda>db. list_ex (\<lambda>j. is_deny_job j \<and> is_active_job j) (agent_jobs db))) (\<lambda>active_job.
     if active_job then ret False
     else
     andThen (gets (\<lambda>db. filter (\<lambda>j. is_deny_job j \<and> jb_version j = gd_desired_revision state) (agent_jobs db)))
       (\<lambda>js.
     andThen (one_or_none js) (\<lambda>found.
     andThen (case found of
         None \<Rightarrow> andThen (insert_job (new_deny_job job_id now (gd_desired_revision state))) (\<lambda>_. ret job_id)
       | Some job \<Rightarrow> andThen (modify (set_job (jb_id job) (\<lambda>j. j\<lparr>jb_status := JobStatus_queued,
           jb_error := None, jb_started_at := None, jb_finished_at := None, jb_dispatched_at := None\<rparr>)))
           (\<lambda>_. ret (jb_id job))) (\<lambda>id.
     andThen (scheduler_register_dispatch id) (\<lambda>_.
     ret True))))))"

record GlobalDenyApplyResult =
  ga_active_slot :: int
  ga_node_map_version :: int

definition snapshot_current :: "global_deny_state option \<Rightarrow> GlobalDenySnapshot \<Rightarrow> bool" where
  "snapshot_current state snapshot =
     (case state of
        None \<Rightarrow> False
      | Some st \<Rightarrow> gd_desired_revision st = sn_revision snapshot \<and> gd_desired_digest st = Some (sn_digest snapshot))"

definition mark_global_apply_failed :: "(exc \<Rightarrow> string) \<Rightarrow> GlobalDenySnapshot \<Rightarrow> exc \<Rightarrow> unit dbprog" where
  "mark_global_apply_failed describe snapshot error =
     andThen (gets global_deny_row) (\<lambda>state.
     if \<not> snapshot_current state snapshot then ret ()
     else modify (\<lambda>db. db\<lparr>global_deny_row := map_option (\<lambda>st. st\<lparr>gd_apply_status := ApplyStatus_failed,
       gd_last_error := Some (take 2000 (describe error))\<rparr>) (global_deny_row db)\<rparr>))"

definition mark_global_active :: "GlobalDenySnapshot \<Rightarrow> GlobalDenyApplyResult \<Rightarrow> unit dbprog" where
  "mark_global_active snapshot result =
     andThen (gets global_deny_row) (\<lambda>state.
     if \<not> snapshot_current state snapshot then ret ()
     else modify (\<lambda>db. db\<lparr>global_deny_row := map_option (\<lambda>st. st\<lparr>gd_active_revision := sn_revision snapshot,
       gd_active_digest := Some (sn_digest snapshot), gd_apply_status := ApplyStatus_active, gd_last_error := None,
       gd_last_node_map_version := Some (ga_node_map_version result)\<rparr>) (global_deny_row db)\<rparr>))"

definition load_pending_snapshot :: "(ustr \<Rightarrow> string) \<Rightarrow> int \<Rightarrow> GlobalDenySnapshot option dbprog" where
  "load_pending_snapshot sha256 expected_revision =
     andThen (gets global_deny_row) (\<lambda>state.
     case state of
       None \<Rightarrow> ret None
     | Some st \<Rightarrow>
         if gd_desired_revision st \<noteq> expected_revision \<or> \<not> state_needs_apply st then ret None
         else andThen (load_global_snapshot sha256 expected_revision) (\<lambda>snapshot. ret (Some snapshot)))"

definition converge_desired_revision ::
  "(ustr \<Rightarrow> string) \<Rightarrow> (uuid \<Rightarrow> db \<Rightarrow> db) \<Rightarrow> (exc \<Rightarrow> string) \<Rightarrow> (GlobalDenySnapshot \<Rightarrow> exc + GlobalDenyApplyResult)
   \<Rightarrow> (db \<Rightarrow> db) \<Rightarrow> int option \<Rightarrow> GlobalDenyApplyResult option dbprog" where
  "converge_desired_revision sha256 cb describe apply_global concurrent expected =
     (case expected of
        None \<Rightarrow> ret None
      | Some expected_revision \<Rightarrow>
      andThen (session_scope cb (load_pending_snapshot sha256 expected_revision)) (\<lambda>loaded.
      case loaded of
        None \<Rightarrow> ret None
      | Some snapshot \<Rightarrow>
      andThen (modify concurrent) (\<lambda>_.
      case apply_global snapshot of
        Inl e \<Rightarrow>
          andThen (session_scope cb (mark_global_apply_failed describe snapshot e)) (\<lambda>_. raise e)
      | Inr result \<Rightarrow>
          andThen (session_scope cb (mark_global_active snapshot result)) (\<lambda>_. ret (Some result)))))"

definition handle_global_deny_apply ::
  "(ustr \<Rightarrow> string) \<Rightarrow> (uuid \<Rightarrow> db \<Rightarrow> db) \<Rightarrow> (exc \<Rightarrow> string) \<Rightarrow> (GlobalDenySnapshot \<Rightarrow> exc + GlobalDenyApplyResult)
   \<Rightarrow> (db \<Rightarrow> db) \<Rightarrow> agent_job \<Rightarrow> unit dbprog" where
  "handle_global_deny_apply sha256 cb describe apply_global concurrent job =
     andThen (converge_desired_revision sha256 cb describe apply_global concurrent (Some (jb_version job)))
       (\<lambda>_. ret ())"

section \<open>Lemmas\<close>

text \<open>The jobs that carry the deny list: one per revision, at most one of them under way.\<close>

definition deny_jobs_ok :: "db \<Rightarrow> bool" where
  "deny_jobs_ok db \<longleftrightarrow> distinct (map jb_id (agent_jobs db)) \<and>
     distinct (map jb_version (filter is_deny_job (agent_jobs db))) \<and>
     length (filter (\<lambda>j. is_deny_job j \<and> is_active_job j) (agent_jobs db)) \<le> 1"

definition deny_job_pending :: "db \<Rightarrow> bool" where
  "deny_job_pending db \<longleftrightarrow> list_ex (\<lambda>j. is_deny_job j \<and> is_active_job j) (agent_jobs db)"

lemma deny_job_of_revision:
  assumes "deny_jobs_ok db"
  shows "filter (\<lambda>j. is_deny_job j \<and> jb_version j = v) (agent_jobs db) = [] \<or>
    (\<exists>job. filter (\<lambda>j. is_deny_job j \<and> jb_version j = v) (agent_jobs db) = [job])"
  using filter_key_cases [of jb_version "filter is_deny_job (agent_jobs db)" v] assms
  by (simp add: deny_jobs_ok_def conj_commute)

lemma deny_jobs_ok_requeue:
  assumes "deny_jobs_ok db" "\<not> deny_job_pending db" "filter (\<lambda>j. is_deny_job j \<and> jb_version j = v) (agent_jobs db) = [job]"
    "f = (\<lambda>j. j\<lparr>jb_status := JobStatus_queued, jb_error := None, jb_started_at := None, jb_finished_at := None,
       jb_dispatched_at := None\<rparr>)"
  shows "deny_jobs_ok (set_job (jb_id job) f db)" "deny_job_pending (set_job (jb_id job) f db)"
proof -
  let ?js = "agent_jobs db" and ?g = "\<lambda>j. if jb_id j = jb_id job then f j else j"
  have job: "job \<in> set ?js" "is_deny_job job" using filter_singleD [OF assms(3)] by simp_all
  have keep: "jb_id (?g j) = jb_id j" "is_deny_job (?g j) = is_deny_job j" "jb_version (?g j) = jb_version j" for j
    by (simp_all add: assms(4) is_deny_job_def)
  have inj: "j = job" if "j \<in> set ?js" "jb_id j = jb_id job" for j
    using that job assms(1) by (auto simp: deny_jobs_ok_def distinct_map inj_on_def)
  have act: "is_deny_job (?g j) \<and> is_active_job (?g j) \<longleftrightarrow> j = job" if "j \<in> set ?js" for j
    using that inj [OF that] job assms(2) by (auto simp: assms(4) is_active_job_def is_deny_job_def deny_job_pending_def list_ex_iff)
  have "filter (\<lambda>j. is_deny_job (?g j) \<and> is_active_job (?g j)) ?js = filter (\<lambda>j. j = job) ?js"
    using act by (intro filter_cong refl)
  then have "filter (\<lambda>j. is_deny_job j \<and> is_active_job j) (map ?g ?js) = map ?g (filter (\<lambda>j. j = job) ?js)"
    by (simp only: filter_map comp_def)
  moreover have "length (filter (\<lambda>j. j = job) ?js) \<le> 1"
    using assms(1) filter_key_cases [of "\<lambda>j. j" ?js job] by (auto simp: deny_jobs_ok_def distinct_map)
  ultimately show "deny_jobs_ok (set_job (jb_id job) f db)"
    using assms(1)
    by (simp add: deny_jobs_ok_def set_job_def update_row_def filter_map [of is_deny_job] comp_def keep)
  show "deny_job_pending (set_job (jb_id job) f db)"
    using act [OF job(1)] job(1) by (auto simp: deny_job_pending_def set_job_def update_row_def list_ex_iff)
qed

lemma deny_jobs_ok_insert:
  assumes "deny_jobs_ok db" "\<not> deny_job_pending db" "filter (\<lambda>j. is_deny_job j \<and> jb_version j = v) (agent_jobs db) = []"
    "get_job db k = None"
  shows "deny_jobs_ok (db\<lparr>agent_jobs := agent_jobs db @ [new_deny_job k now v]\<rparr>)"
proof -
  have none: "filter (\<lambda>j. is_deny_job j \<and> is_active_job j) (agent_jobs db) = []"
    using assms(2) by (auto simp: deny_job_pending_def list_ex_iff filter_empty_conv)
  have fresh: "k \<notin> set (map jb_id (agent_jobs db))"
    using assms(4) by (auto simp: get_job_def row_None_iff)
  have "v \<notin> set (map jb_version (filter is_deny_job (agent_jobs db)))"
    using assms(3) by (auto simp: filter_empty_conv)
  then show ?thesis
    using assms(1) fresh none by (simp add: deny_jobs_ok_def new_deny_job_def is_deny_job_def)
qed

lemma deny_jobs_post_commit [simp]:
  "deny_jobs_ok (db\<lparr>post_commit := ps\<rparr>) = deny_jobs_ok db"
  "deny_job_pending (db\<lparr>post_commit := ps\<rparr>) = deny_job_pending db"
  by (simp_all add: deny_jobs_ok_def deny_job_pending_def)

text \<open>Only the jobs and the registered dispatches change.\<close>

definition only_jobs :: "db \<Rightarrow> db \<Rightarrow> bool" where
  "only_jobs db db' \<longleftrightarrow> (\<exists>js ps. db' = db\<lparr>agent_jobs := js, post_commit := ps\<rparr>)"

lemma only_jobs_refl: "only_jobs db db"
  unfolding only_jobs_def by (intro exI [of _ "agent_jobs db"] exI [of _ "post_commit db"]) (cases db, simp)

lemma wp_enqueue_global_convergence:
  assumes "deny_jobs_ok db"
  shows "wp (enqueue_global_convergence row_free k now)
    (\<lambda>enqueued db'. deny_jobs_ok db' \<and> only_jobs db db' \<and>
       (row_free \<longrightarrow> (\<forall>st. global_deny_row db = Some st \<longrightarrow> state_needs_apply st \<longrightarrow> deny_job_pending db')))
    (\<lambda>e _. e = IntegrityError ''agent_job_pkey'') db"
proof (cases "row_free \<and> (\<exists>st. global_deny_row db = Some st \<and> state_needs_apply st) \<and> \<not> deny_job_pending db")
  case False
  then show ?thesis
    using assms by (auto simp: enqueue_global_convergence_def wp_simps only_jobs_refl deny_job_pending_def)
next
  case True
  then obtain st where st: "row_free" "global_deny_row db = Some st" "state_needs_apply st" "\<not> deny_job_pending db" by blast
  have "\<not> list_ex (\<lambda>j. is_deny_job j \<and> is_active_job j) (agent_jobs db)"
    using st(4) by (simp add: deny_job_pending_def)
  from deny_job_of_revision [OF assms, of "gd_desired_revision st"] show ?thesis
  proof
    assume none: "filter (\<lambda>j. is_deny_job j \<and> jb_version j = gd_desired_revision st) (agent_jobs db) = []"
    have "deny_job_pending (db\<lparr>agent_jobs := agent_jobs db @ [new_deny_job k now (gd_desired_revision st)]\<rparr>)"
      by (simp add: deny_job_pending_def new_deny_job_def is_deny_job_def is_active_job_def)
    then show ?thesis
      using st none deny_jobs_ok_insert [OF assms st(4) none, of k now] \<open>\<not> list_ex _ _\<close>
      by (auto simp: enqueue_global_convergence_def wp_simps one_or_none_def insert_job_def
          scheduler_register_dispatch_def new_deny_job_def [of k] only_jobs_def)
  next
    assume "\<exists>job. filter (\<lambda>j. is_deny_job j \<and> jb_version j = gd_desired_revision st) (agent_jobs db) = [job]"
    then obtain job where one: "filter (\<lambda>j. is_deny_job j \<and> jb_version j = gd_desired_revision st) (agent_jobs db) = [job]" ..
    then show ?thesis
      using st deny_jobs_ok_requeue [OF assms st(4) one refl] \<open>\<not> list_ex _ _\<close>
      by (auto simp: enqueue_global_convergence_def wp_simps one_or_none_def scheduler_register_dispatch_def
          only_jobs_def set_job_def)
  qed
qed

text \<open>The only active deny job, queued for a revision, and due to be dispatched.\<close>

definition queued_for :: "int \<Rightarrow> db \<Rightarrow> db \<Rightarrow> bool" where
  "queued_for revision db db' \<longleftrightarrow> (\<exists>job. filter (\<lambda>j. is_deny_job j \<and> is_active_job j) (agent_jobs db') = [job] \<and>
     jb_version job = revision \<and> jb_status job = JobStatus_queued \<and> jb_dispatched_at job = None \<and>
     post_commit db' = post_commit db @ [jb_id job] \<and>
     filter (\<lambda>j. jb_id j \<noteq> jb_id job) (agent_jobs db') = filter (\<lambda>j. jb_id j \<noteq> jb_id job) (agent_jobs db))"

lemma queued_insert:
  assumes "\<not> deny_job_pending db" "get_job db k = None"
  shows "queued_for v db (db\<lparr>agent_jobs := agent_jobs db @ [new_deny_job k now v], post_commit := post_commit db @ [k]\<rparr>)"
proof -
  have none: "filter (\<lambda>j. is_deny_job j \<and> is_active_job j) (agent_jobs db) = []"
    using assms(1) by (auto simp: deny_job_pending_def list_ex_iff filter_empty_conv)
  then show ?thesis
    by (simp add: queued_for_def new_deny_job_def is_deny_job_def is_active_job_def)
qed

lemma filter_only: "distinct xs \<Longrightarrow> x \<in> set xs \<Longrightarrow> filter (\<lambda>y. y = x) xs = [x]"
  by (induction xs) (auto simp: filter_empty_conv)

lemma filter_untouched: "(\<And>x. key (f x) = key x) \<Longrightarrow>
  filter (\<lambda>x. key x \<noteq> k) (map (\<lambda>x. if key x = k then f x else x) xs) = filter (\<lambda>x. key x \<noteq> k) xs"
  by (induction xs) simp_all

lemma queued_requeue:
  assumes "deny_jobs_ok db" "\<not> deny_job_pending db" "filter (\<lambda>j. is_deny_job j \<and> jb_version j = v) (agent_jobs db) = [job]"
    "f = (\<lambda>j. j\<lparr>jb_status := JobStatus_queued, jb_error := None, jb_started_at := None, jb_finished_at := None,
       jb_dispatched_at := None\<rparr>)"
  shows "queued_for v db (set_job (jb_id job) f db\<lparr>post_commit := post_commit db @ [jb_id job]\<rparr>)"
proof -
  let ?js = "agent_jobs db" and ?g = "\<lambda>j. if jb_id j = jb_id job then f j else j"
  have job: "job \<in> set ?js" "is_deny_job job" "jb_version job = v" using filter_singleD [OF assms(3)] by simp_all
  have inj: "j = job" if "j \<in> set ?js" "jb_id j = jb_id job" for j
    using that job assms(1) by (auto simp: deny_jobs_ok_def distinct_map inj_on_def)
  have act: "is_deny_job (?g j) \<and> is_active_job (?g j) \<longleftrightarrow> j = job" if "j \<in> set ?js" for j
    using that inj [OF that] job assms(2) by (auto simp: assms(4) is_active_job_def is_deny_job_def deny_job_pending_def list_ex_iff)
  have "filter (\<lambda>j. is_deny_job (?g j) \<and> is_active_job (?g j)) ?js = filter (\<lambda>j. j = job) ?js"
    using act by (intro filter_cong refl)
  moreover have "filter (\<lambda>j. j = job) ?js = [job]"
    using filter_only [of ?js job] assms(1) job(1) by (simp add: deny_jobs_ok_def distinct_map)
  ultimately have "filter (\<lambda>j. is_deny_job j \<and> is_active_job j) (map ?g ?js) = [f job]"
    by (simp only: filter_map comp_def) simp
  moreover have "filter (\<lambda>j. jb_id j \<noteq> jb_id job) (map ?g ?js) = filter (\<lambda>j. jb_id j \<noteq> jb_id job) ?js"
    by (rule filter_untouched) (simp add: assms(4))
  moreover have "jb_version (f job) = v" "jb_status (f job) = JobStatus_queued" "jb_dispatched_at (f job) = None"
      "jb_id (f job) = jb_id job"
    using job(3) by (simp_all add: assms(4))
  ultimately show ?thesis by (simp add: queued_for_def set_job_def update_row_def)
qed

lemma wp_enqueue_exact:
  assumes "deny_jobs_ok db"
  shows "wp (enqueue_global_convergence row_free k now)
    (\<lambda>enqueued db'. if row_free \<and> \<not> deny_job_pending db \<and> (\<exists>st. global_deny_row db = Some st \<and> state_needs_apply st)
       then enqueued \<and> queued_for (gd_desired_revision (the (global_deny_row db))) db db' else \<not> enqueued \<and> db' = db)
    (\<lambda>_ _. True) db"
proof (cases "row_free \<and> (\<exists>st. global_deny_row db = Some st \<and> state_needs_apply st) \<and> \<not> deny_job_pending db")
  case False
  then show ?thesis by (auto simp: enqueue_global_convergence_def wp_simps deny_job_pending_def)
next
  case True
  then obtain st where st: "row_free" "global_deny_row db = Some st" "state_needs_apply st" "\<not> deny_job_pending db" by blast
  have idle: "\<not> list_ex (\<lambda>j. is_deny_job j \<and> is_active_job j) (agent_jobs db)"
    using st(4) by (simp add: deny_job_pending_def)
  from deny_job_of_revision [OF assms, of "gd_desired_revision st"] show ?thesis
  proof
    assume none: "filter (\<lambda>j. is_deny_job j \<and> jb_version j = gd_desired_revision st) (agent_jobs db) = []"
    then show ?thesis
      using st idle queued_insert [OF st(4), of k "gd_desired_revision st" now]
      by (simp add: enqueue_global_convergence_def wp_simps one_or_none_def insert_job_def
          scheduler_register_dispatch_def) (simp add: new_deny_job_def)
  next
    assume "\<exists>job. filter (\<lambda>j. is_deny_job j \<and> jb_version j = gd_desired_revision st) (agent_jobs db) = [job]"
    then obtain job where one: "filter (\<lambda>j. is_deny_job j \<and> jb_version j = gd_desired_revision st) (agent_jobs db) = [job]" ..
    then show ?thesis
      using st idle queued_requeue [OF assms st(4) one refl]
      by (simp add: enqueue_global_convergence_def wp_simps one_or_none_def scheduler_register_dispatch_def set_job_def)
  qed
qed

lemma load_pending_ok:
  assumes "deny_synced sha256 db" "global_deny_row db = Some st" "state_needs_apply st"
  shows "load_pending_snapshot sha256 (gd_desired_revision st) db =
    (Inr (Some \<lparr> sn_revision = gd_desired_revision st, sn_digest = digest sha256 (global_cidrs db),
       sn_cidrs = global_cidrs db \<rparr>), db)"
  using assms
  by (auto simp: load_pending_snapshot_def load_global_snapshot_def locked_global_state_def deny_synced_def run_simps)

lemma load_pending_loaded:
  assumes "load_pending_snapshot sha256 revision db = (res, db')"
  shows "db' = db" and "res = Inr (Some snapshot) \<Longrightarrow>
    sn_cidrs snapshot = global_cidrs db \<and> sn_digest snapshot = digest sha256 (global_cidrs db) \<and> sn_revision snapshot = revision"
  using assms
  by (auto simp: load_pending_snapshot_def load_global_snapshot_def locked_global_state_def run_simps
      split: option.splits if_splits)

definition active_list :: "db \<Rightarrow> (int \<times> string option) option" where
  "active_list db = map_option (\<lambda>st. (gd_active_revision st, gd_active_digest st)) (global_deny_row db)"

lemma active_list_frames [simp]: "active_list (db\<lparr>post_commit := ps\<rparr>) = active_list db"
  by (simp add: active_list_def)

lemma mark_failed_keeps_active: "\<exists>db'. mark_global_apply_failed describe snapshot e db = (Inr (), db') \<and>
    active_list db' = active_list db \<and> post_commit db' = post_commit db"
  by (auto simp: mark_global_apply_failed_def run_simps active_list_def snapshot_current_def split: option.splits)

lemma mark_active_sets_active: "\<exists>db'. mark_global_active snapshot result db = (Inr (), db') \<and> post_commit db' = post_commit db \<and>
    (active_list db' = active_list db \<or> active_list db' = Some (sn_revision snapshot, Some (sn_digest snapshot)))"
  by (auto simp: mark_global_active_def run_simps active_list_def snapshot_current_def split: option.splits)

section \<open>Properties\<close>

lemma converge_activates:
  assumes "deny_synced sha256 db" "global_deny_row db = Some st" "state_needs_apply st"
    and "apply_global \<lparr> sn_revision = gd_desired_revision st, sn_digest = digest sha256 (global_cidrs db),
           sn_cidrs = global_cidrs db \<rparr> = Inr result"
  shows "\<exists>st'. converge_desired_revision sha256 cb describe apply_global (\<lambda>db. db) (Some (gd_desired_revision st)) db =
      (Inr (Some result), db\<lparr>post_commit := [], global_deny_row := Some st'\<rparr>) \<and>
    \<not> state_needs_apply st' \<and> gd_desired_revision st' = gd_desired_revision st \<and>
    gd_desired_digest st' = gd_desired_digest st \<and> gd_apply_status st' = ApplyStatus_active \<and> gd_last_error st' = None \<and>
    gd_last_node_map_version st' = Some (ga_node_map_version result)"
proof -
  let ?db = "db\<lparr>post_commit := []\<rparr>"
  have cidrs: "global_cidrs ?db = global_cidrs db" by (rule global_cidrs_cong) simp
  have sync: "deny_synced sha256 ?db" using assms(1) by (simp add: deny_synced_def cidrs)
  have d: "gd_desired_digest st = Some (digest sha256 (global_cidrs db))"
    using assms(1,2) by (auto simp: deny_synced_def)
  show ?thesis
    using assms(2,4) d load_pending_ok [OF sync, of st] assms(3)
    by (intro exI [of _ "st\<lparr>gd_active_revision := gd_desired_revision st, gd_active_digest := gd_desired_digest st,
          gd_apply_status := ApplyStatus_active, gd_last_error := None,
          gd_last_node_map_version := Some (ga_node_map_version result)\<rparr>"])
      (simp add: converge_desired_revision_def session_scope_def run_simps cidrs mark_global_active_def
        snapshot_current_def state_needs_apply_def)
qed

text \<open>
  C18 The deny list reaches the node.  When the list is materialized and not yet
  active, and the node accepts the snapshot it is handed, a convergence of the
  desired revision records that revision and digest as active with the node's map
  version, so that nothing is left to apply.  The snapshot is the effective list.
\<close>

theorem deny_list_converges:
  assumes "deny_synced sha256 db" "global_deny_row db = Some st" "state_needs_apply st"
    and "apply_global \<lparr> sn_revision = gd_desired_revision st, sn_digest = digest sha256 (global_cidrs db),
           sn_cidrs = global_cidrs db \<rparr> = Inr result"
  shows "\<exists>st'. converge_desired_revision sha256 cb describe apply_global (\<lambda>db. db) (Some (gd_desired_revision st)) db =
      (Inr (Some result), db\<lparr>post_commit := [], global_deny_row := Some st'\<rparr>) \<and>
    \<not> state_needs_apply st' \<and> gd_desired_revision st' = gd_desired_revision st \<and>
    gd_desired_digest st' = gd_desired_digest st \<and> gd_apply_status st' = ApplyStatus_active \<and> gd_last_error st' = None \<and>
    gd_last_node_map_version st' = Some (ga_node_map_version result)"
  by (rule converge_activates [OF assms(1-3), where apply_global = apply_global, OF assms(4)])

text \<open>
  C17 Nothing is recorded as active that the node has not accepted.  Whatever
  other sessions commit while the node works, and whatever the node answers, the
  active revision and digest that a convergence leaves are those it found, those
  the other sessions left, or those of a snapshot of the list it read which the
  node accepted.
\<close>

theorem active_list_was_accepted:
  "active_list (snd (converge_desired_revision sha256 cb describe apply_global concurrent expected db)) =
     active_list db \<or>
   active_list (snd (converge_desired_revision sha256 cb describe apply_global concurrent expected db)) =
     active_list (concurrent (db\<lparr>post_commit := []\<rparr>)) \<or>
   (\<exists>snapshot result. apply_global snapshot = Inr result \<and> sn_cidrs snapshot = global_cidrs db \<and>
      sn_digest snapshot = digest sha256 (sn_cidrs snapshot) \<and> expected = Some (sn_revision snapshot) \<and>
      active_list (snd (converge_desired_revision sha256 cb describe apply_global concurrent expected db)) =
        Some (sn_revision snapshot, Some (sn_digest snapshot)))"
proof (cases expected)
  case None
  then show ?thesis by (simp add: converge_desired_revision_def run_simps)
next
  case (Some revision)
  let ?db = "db\<lparr>post_commit := []\<rparr>"
  have cidrs: "global_cidrs ?db = global_cidrs db" by (rule global_cidrs_cong) simp
  obtain res where load: "load_pending_snapshot sha256 revision ?db = (res, ?db)"
    using load_pending_loaded(1) by (metis surj_pair)
  show ?thesis
  proof (cases "\<exists>snapshot. res = Inr (Some snapshot)")
    case False
    then have "active_list (snd (converge_desired_revision sha256 cb describe apply_global concurrent expected db)) = active_list db"
      using Some load by (auto simp: converge_desired_revision_def session_scope_def run_simps split: sum.splits option.splits)
    then show ?thesis ..
  next
    case True
    then obtain snapshot where snap: "res = Inr (Some snapshot)" ..
    note s = load_pending_loaded(2) [OF load snap, unfolded cidrs]
    show ?thesis
    proof (cases "apply_global snapshot")
      case (Inl e)
      then show ?thesis
        using Some load snap mark_failed_keeps_active [of describe snapshot e "concurrent ?db\<lparr>post_commit := []\<rparr>"]
        by (auto simp: converge_desired_revision_def session_scope_def run_simps)
    next
      case (Inr result)
      then show ?thesis
        using Some load snap s mark_active_sets_active [of snapshot result "concurrent ?db\<lparr>post_commit := []\<rparr>"]
        by (auto simp: converge_desired_revision_def session_scope_def run_simps)
    qed
  qed
qed

text \<open>
  C19 A pending deny list gets its job.  Queueing the convergence says yes
  exactly when the state row is free, its list differs from the active one and
  no deny job is queued or being applied.  Then there is exactly one such job
  afterwards: it is queued, it is for the desired revision, it will be dispatched
  at commit, and every other job is as before, so one job per revision remains.
  Otherwise nothing is written.
\<close>

theorem pending_list_gets_its_job:
  assumes "deny_jobs_ok db" "enqueue_global_convergence row_free k now db = (Inr enqueued, db')"
  shows "deny_jobs_ok db' \<and> only_jobs db db' \<and>
    (enqueued \<longleftrightarrow> row_free \<and> (\<exists>st. global_deny_row db = Some st \<and> state_needs_apply st) \<and>
       \<not> list_ex (\<lambda>j. is_deny_job j \<and> is_active_job j) (agent_jobs db)) \<and>
    (\<not> enqueued \<longrightarrow> db' = db) \<and>
    (enqueued \<longrightarrow> (\<exists>st job. global_deny_row db = Some st \<and>
       filter (\<lambda>j. is_deny_job j \<and> is_active_job j) (agent_jobs db') = [job] \<and>
       jb_version job = gd_desired_revision st \<and> jb_status job = JobStatus_queued \<and> jb_dispatched_at job = None \<and>
       post_commit db' = post_commit db @ [jb_id job] \<and>
       filter (\<lambda>j. jb_id j \<noteq> jb_id job) (agent_jobs db') = filter (\<lambda>j. jb_id j \<noteq> jb_id job) (agent_jobs db)))"
proof -
  note ok = wp_okD [OF wp_enqueue_global_convergence [OF assms(1)] assms(2)]
  note exact = wp_okD [OF wp_enqueue_exact [OF assms(1)] assms(2)]
  show ?thesis
    using ok exact unfolding deny_job_pending_def queued_for_def by (auto split: if_splits)
qed

definition pending_deny :: db where
  "pending_deny = sample_deny\<lparr>global_deny_row :=
     Some (materialized (map char_of) initial_deny_state (global_cidrs sample_deny))\<rparr>"

lemma pending_deny_synced: "deny_synced (map char_of) pending_deny"
  by (simp add: deny_synced_def pending_deny_def sample_deny_def MAX_GLOBAL_DENY_ENTRIES_def)

lemma pending_deny_row:
  "global_deny_row pending_deny = Some (materialized (map char_of) initial_deny_state (global_cidrs sample_deny))"
  by (simp add: pending_deny_def)

lemma pending_needs_apply:
  "state_needs_apply (materialized (map char_of) initial_deny_state (global_cidrs sample_deny))"
  by (simp add: state_needs_apply_def materialized_def initial_deny_state_def)

theorem deny_list_converges_witness:
  "\<exists>st'. converge_desired_revision (map char_of) (\<lambda>_ db. db) (\<lambda>_. ''error'')
      (\<lambda>_. Inr \<lparr> ga_active_slot = 1, ga_node_map_version = 7 \<rparr>) (\<lambda>db. db)
      (Some (gd_desired_revision (materialized (map char_of) initial_deny_state (global_cidrs sample_deny)))) pending_deny =
    (Inr (Some \<lparr> ga_active_slot = 1, ga_node_map_version = 7 \<rparr>),
     pending_deny\<lparr>post_commit := [], global_deny_row := Some st'\<rparr>) \<and> \<not> state_needs_apply st'"
  using deny_list_converges [OF pending_deny_synced pending_deny_row pending_needs_apply,
    of "\<lambda>_. Inr \<lparr> ga_active_slot = 1, ga_node_map_version = 7 \<rparr>" "\<lparr> ga_active_slot = 1, ga_node_map_version = 7 \<rparr>"
      "\<lambda>_ db. db" "\<lambda>_. ''error''"] by auto

theorem pending_list_gets_its_job_witness:
  "\<exists>db' job. enqueue_global_convergence True 41 5 pending_deny = (Inr True, db') \<and>
     filter (\<lambda>j. is_deny_job j \<and> is_active_job j) (agent_jobs db') = [job] \<and> jb_status job = JobStatus_queued"
proof -
  have ok: "deny_jobs_ok pending_deny"
    by (simp add: deny_jobs_ok_def pending_deny_def sample_deny_def sample_defs is_deny_job_def)
  have jobs: "agent_jobs pending_deny = [sample_job]" by (simp add: pending_deny_def sample_deny_def sample_db_def)
  have "\<exists>db'. enqueue_global_convergence True 41 5 pending_deny = (Inr True, db')"
    using pending_needs_apply
    by (simp add: enqueue_global_convergence_def run_simps pending_deny_row jobs is_deny_job_def sample_job_def
        one_or_none_def insert_job_def scheduler_register_dispatch_def get_job_def table_simps new_deny_job_def)
  then obtain db' where run: "enqueue_global_convergence True 41 5 pending_deny = (Inr True, db')" by blast
  then show ?thesis using pending_list_gets_its_job [OF ok run] by blast
qed

end
