(* ===== verification/Lists.thy ===== *)
theory Lists
  imports Rules DenyConvergence
begin

text \<open>
  Whitelists of services and the global blacklist, \<open>app/services/lists.py\<close>.  A
  whitelist change publishes a new version of its service; a blacklist change
  materializes the global deny list and queues its convergence.  The lemmas show
  the blacklist operations as operations on the set of manual networks.
\<close>

section \<open>Definitions\<close>

definition parse_source :: "ustr \<Rightarrow> exc + net" where
  "parse_source value =
     (case parse_ipv4_cidr value of
        Inl e \<Rightarrow> Inl (HTTPException 422 (JStr (chars (cidr_message e))))
      | Inr source \<Rightarrow>
          (case reject_reserved source of
             Inl e \<Rightarrow> Inl (HTTPException 422 (JStr (chars (cidr_message e))))
           | Inr _ \<Rightarrow> Inr source))"

definition list_authorize_actor :: "user option \<Rightarrow> protected_service \<Rightarrow> unit dbprog" where
  "list_authorize_actor actor service =
     (case actor of
        None \<Rightarrow> ret ()
      | Some u \<Rightarrow>
          if us_role u = Role_admin then ret ()
          else ensure (us_tenant_id u = Some (sv_tenant_id service)) (HTTPException 403 (JStr ''Forbidden'')))"

definition list_require_admin_actor :: "user option \<Rightarrow> unit dbprog" where
  "list_require_admin_actor actor =
     ensure (case actor of None \<Rightarrow> False | Some u \<Rightarrow> us_role u = Role_admin) (HTTPException 403 (JStr ''Forbidden''))"

definition list_require_service :: "uuid \<Rightarrow> protected_service dbprog" where
  "list_require_service service_id =
     fetch (\<lambda>db. get_service_row db service_id) (HTTPException 404 (JStr ''Service not found''))"

definition require_whitelist_entry :: "uuid \<Rightarrow> net \<Rightarrow> whitelist_entry dbprog" where
  "require_whitelist_entry service_id source =
     andThen (gets (\<lambda>db. filter (\<lambda>w. wl_service_id w = service_id \<and> wl_source_cidr w = source) (whitelist_entries db)))
       (\<lambda>ws. andThen (one_or_none ws) (\<lambda>found.
     case found of None \<Rightarrow> raise (HTTPException 404 (JStr ''Whitelist entry not found'')) | Some w \<Rightarrow> ret w))"

definition global_blacklist_entries :: "net \<Rightarrow> db \<Rightarrow> blacklist_entry list" where
  "global_blacklist_entries source db =
     filter (\<lambda>e. is_global e \<and> bl_source_cidr e = source) (blacklist_entries db)"

definition global_blacklist_entry_for_update :: "net \<Rightarrow> blacklist_entry option dbprog" where
  "global_blacklist_entry_for_update source = andThen (gets (global_blacklist_entries source)) one_or_none"

definition require_blacklist_entry :: "net \<Rightarrow> blacklist_entry dbprog" where
  "require_blacklist_entry source =
     andThen (gets (global_blacklist_entries source)) (\<lambda>es.
     andThen (one_or_none es) (\<lambda>found.
     case found of None \<Rightarrow> raise (HTTPException 404 (JStr ''Blacklist entry not found'')) | Some e \<Rightarrow> ret e))"

definition has_feed_assertions :: "db \<Rightarrow> uuid \<Rightarrow> bool" where
  "has_feed_assertions db entry_id =
     list_ex (\<lambda>a. fa_blacklist_entry_id a = entry_id) (feed_blacklist_assertions db)"

definition list_integrity_error :: "exc \<Rightarrow> 'a dbprog" where
  "list_integrity_error e =
     (if e = IntegrityError ''uq_whitelist_service_source_cidr'' \<or> e = IntegrityError ''uq_blacklist_service_source_cidr'' \<or>
         e = IntegrityError ''uq_blacklist_global_source_cidr''
      then raise (HTTPException 409 (JStr ''List entry exists'')) else raise e)"

definition materialize_global_deny_and_enqueue ::
  "(ustr \<Rightarrow> string) \<Rightarrow> bool \<Rightarrow> uuid \<Rightarrow> timestamp \<Rightarrow> unit dbprog" where
  "materialize_global_deny_and_enqueue sha256 row_free job_id now =
     andThen (materialize_global_union sha256) (\<lambda>m.
     whenever (mz_changed m) (andThen (enqueue_global_convergence row_free job_id now) (\<lambda>_. ret ())))"

text \<open>The flush of a new entry against the constraints of its table.\<close>

definition insert_whitelist :: "whitelist_entry \<Rightarrow> unit dbprog" where
  "insert_whitelist w =
     andThen (gets whitelist_entries) (\<lambda>ws.
     andThen (ensure (wl_id w \<notin> wl_id ` set ws) (IntegrityError ''whitelist_entry_pkey'')) (\<lambda>_.
     andThen (ensure (\<not> list_ex (\<lambda>v. wl_service_id v = wl_service_id w \<and> wl_source_cidr v = wl_source_cidr w) ws)
       (IntegrityError ''uq_whitelist_service_source_cidr'')) (\<lambda>_.
     modify (\<lambda>db. db\<lparr>whitelist_entries := whitelist_entries db @ [w]\<rparr>))))"

definition insert_blacklist :: "blacklist_entry \<Rightarrow> unit dbprog" where
  "insert_blacklist e =
     andThen (gets blacklist_entries) (\<lambda>es.
     andThen (ensure (bl_id e \<notin> bl_id ` set es) (IntegrityError ''blacklist_entry_pkey'')) (\<lambda>_.
     andThen (ensure (\<not> list_ex (\<lambda>f. is_global f \<and> bl_source_cidr f = bl_source_cidr e) es)
       (IntegrityError ''uq_blacklist_global_source_cidr'')) (\<lambda>_.
     modify (\<lambda>db. db\<lparr>blacklist_entries := blacklist_entries db @ [e]\<rparr>))))"

text \<open>Deleting an entry deletes what refers to it (\<open>ondelete="CASCADE"\<close>).\<close>

definition delete_whitelist_row :: "uuid \<Rightarrow> db \<Rightarrow> db" where
  "delete_whitelist_row i db =
     db\<lparr>whitelist_entries := delete_row wl_id i (whitelist_entries db),
        feed_sync_overlaps := filter (\<lambda>f. fo_whitelist_entry_id f \<noteq> i) (feed_sync_overlaps db)\<rparr>"

definition delete_blacklist_row :: "uuid \<Rightarrow> db \<Rightarrow> db" where
  "delete_blacklist_row i db =
     db\<lparr>blacklist_entries := delete_row bl_id i (blacklist_entries db),
        feed_blacklist_assertions := filter (\<lambda>a. fa_blacklist_entry_id a \<noteq> i) (feed_blacklist_assertions db)\<rparr>"

section \<open>Operations\<close>

definition add_whitelist ::
  "uuid \<Rightarrow> uuid \<Rightarrow> timestamp \<Rightarrow> uuid \<Rightarrow> ustr \<Rightarrow> user option \<Rightarrow> string option \<Rightarrow> whitelist_entry dbprog" where
  "add_whitelist new_id job_id now service_id source_cidr actor ip =
     andThen (list_require_service service_id) (\<lambda>service.
     andThen (list_authorize_actor actor service) (\<lambda>_.
     andThen (of_result (parse_source source_cidr)) (\<lambda>source.
     let entry = \<lparr> wl_id = new_id, wl_service_id = sv_id service, wl_source_cidr = source,
           wl_created_by = map_option us_id actor, wl_created_at = now \<rparr> in
     andThen (catch (insert_whitelist entry) list_integrity_error) (\<lambda>_.
     andThen (bump_version now (sv_id service)) (\<lambda>_.
     andThen (enqueue_service_update job_id now (sv_id service) Trigger_whitelist) (\<lambda>_.
     andThen (record_event now actor ''list.whitelist.add'' (Some ''whitelist_entry'') (JUuid new_id) ''success''
       ip (Some [(''service_id'', JUuid (sv_id service)), (''source_cidr'', JNet source)])) (\<lambda>_.
     ret entry)))))))"

definition remove_whitelist ::
  "uuid \<Rightarrow> timestamp \<Rightarrow> uuid \<Rightarrow> ustr \<Rightarrow> user option \<Rightarrow> string option \<Rightarrow> protected_service dbprog" where
  "remove_whitelist job_id now service_id source_cidr actor ip =
     andThen (list_require_service service_id) (\<lambda>service.
     andThen (list_authorize_actor actor service) (\<lambda>_.
     andThen (of_result (parse_source source_cidr)) (\<lambda>source.
     andThen (require_whitelist_entry (sv_id service) source) (\<lambda>entry.
     andThen (modify (delete_whitelist_row (wl_id entry))) (\<lambda>_.
     andThen (bump_version now (sv_id service)) (\<lambda>_.
     andThen (enqueue_service_update job_id now (sv_id service) Trigger_whitelist) (\<lambda>_.
     andThen (record_event now actor ''list.whitelist.remove'' (Some ''whitelist_entry'') (JUuid (wl_id entry)) ''success''
       ip (Some [(''service_id'', JUuid (sv_id service)), (''source_cidr'', JNet source)])) (\<lambda>_.
     loaded_service (sv_id service)))))))))"

definition list_whitelist :: "uuid \<Rightarrow> user option \<Rightarrow> whitelist_entry list dbprog" where
  "list_whitelist service_id actor =
     andThen (list_require_service service_id) (\<lambda>service.
     andThen (list_authorize_actor actor service) (\<lambda>_.
     gets (\<lambda>db. sort_key wl_created_at (filter (\<lambda>w. wl_service_id w = sv_id service) (whitelist_entries db)))))"

definition add_blacklist ::
  "(ustr \<Rightarrow> string) \<Rightarrow> uuid \<Rightarrow> bool \<Rightarrow> uuid \<Rightarrow> timestamp \<Rightarrow> ustr \<Rightarrow> user option \<Rightarrow> string option
   \<Rightarrow> blacklist_entry dbprog" where
  "add_blacklist sha256 new_id row_free job_id now source_cidr actor ip =
     andThen (list_require_admin_actor actor) (\<lambda>_.
     andThen (of_result (parse_source source_cidr)) (\<lambda>source.
     andThen (global_blacklist_entry_for_update source) (\<lambda>found.
     andThen (case found of
         None \<Rightarrow>
           let entry = \<lparr> bl_id = new_id, bl_scope = BlacklistScope_global, bl_source = BlacklistSource_manual,
                 bl_source_cidr = source, bl_created_by = map_option us_id actor, bl_created_at = now \<rparr> in
           andThen (catch (insert_blacklist entry) list_integrity_error) (\<lambda>_. ret entry)
       | Some entry \<Rightarrow>
           if bl_source entry = BlacklistSource_feed then
             let promoted = entry\<lparr>bl_source := BlacklistSource_manual, bl_created_by := map_option us_id actor\<rparr> in
             andThen (modify (\<lambda>db. db\<lparr>blacklist_entries :=
               update_row bl_id (bl_id entry) (\<lambda>_. promoted) (blacklist_entries db)\<rparr>)) (\<lambda>_. ret promoted)
           else raise (HTTPException 409 (JStr ''List entry exists''))) (\<lambda>entry.
     andThen (materialize_global_deny_and_enqueue sha256 row_free job_id now) (\<lambda>_.
     andThen (record_event now actor ''list.blacklist.add'' (Some ''blacklist_entry'') (JUuid (bl_id entry)) ''success''
       ip (Some [(''scope'', JStr ''global''), (''service_id'', JNull), (''source_cidr'', JNet source)])) (\<lambda>_.
     ret entry))))))"

definition remove_blacklist ::
  "(ustr \<Rightarrow> string) \<Rightarrow> bool \<Rightarrow> uuid \<Rightarrow> timestamp \<Rightarrow> ustr \<Rightarrow> user option \<Rightarrow> string option \<Rightarrow> unit dbprog" where
  "remove_blacklist sha256 row_free job_id now source_cidr actor ip =
     andThen (list_require_admin_actor actor) (\<lambda>_.
     andThen (of_result (parse_source source_cidr)) (\<lambda>source.
     andThen (require_blacklist_entry source) (\<lambda>entry.
     andThen (ensure (bl_source entry \<noteq> BlacklistSource_feed)
       (HTTPException 409 (JStr ''Feed-managed blacklist entry cannot be deleted manually''))) (\<lambda>_.
     andThen (gets (\<lambda>db. has_feed_assertions db (bl_id entry))) (\<lambda>asserted.
     andThen (if asserted
       then modify (\<lambda>db. db\<lparr>blacklist_entries := update_row bl_id (bl_id entry)
              (\<lambda>e. e\<lparr>bl_source := BlacklistSource_feed, bl_created_by := None\<rparr>) (blacklist_entries db)\<rparr>)
       else modify (delete_blacklist_row (bl_id entry))) (\<lambda>_.
     andThen (materialize_global_deny_and_enqueue sha256 row_free job_id now) (\<lambda>_.
     record_event now actor ''list.blacklist.remove'' (Some ''blacklist_entry'') (JUuid (bl_id entry)) ''success''
       ip (Some [(''scope'', JStr ''global''), (''service_id'', JNull), (''source_cidr'', JNet source)]))))))))"

definition list_blacklist :: "user option \<Rightarrow> blacklist_entry list dbprog" where
  "list_blacklist actor =
     andThen (list_require_admin_actor actor) (\<lambda>_.
     gets (\<lambda>db. sort_key bl_created_at (filter is_global (blacklist_entries db))))"

section \<open>Lemmas on the blacklist\<close>

definition deny_lists_inv :: "db \<Rightarrow> bool" where
  "deny_lists_inv db \<longleftrightarrow> deny_tables_ok db \<and> deny_jobs_ok db"

lemma parse_source_valid: "parse_source value = Inr n \<Longrightarrow> valid_net n"
  by (auto simp: parse_source_def dest: parse_ipv4_cidr_valid split: sum.splits)

lemma only_jobs_frames:
  assumes "only_jobs db db'"
  shows "blacklist_entries db' = blacklist_entries db" "feed_blacklist_assertions db' = feed_blacklist_assertions db"
    "global_deny_row db' = global_deny_row db"
  using assms by (auto simp: only_jobs_def)

lemma deny_jobs_row [simp]: "deny_jobs_ok (db\<lparr>global_deny_row := st\<rparr>) = deny_jobs_ok db"
  "deny_jobs_ok (db\<lparr>blacklist_entries := es\<rparr>) = deny_jobs_ok db"
  "deny_jobs_ok (db\<lparr>audit_events := evs\<rparr>) = deny_jobs_ok db"
  by (simp_all add: deny_jobs_ok_def)

text \<open>How it can fail: the list is too long, or the identifier of the job is taken.\<close>

definition not_materialized :: "exc \<Rightarrow> bool" where
  "not_materialized e \<longleftrightarrow> e = GlobalDenyLimitError \<or> e = IntegrityError ''agent_job_pkey''"

lemma wp_materialize_and_enqueue:
  assumes "deny_lists_inv db"
    and Q: "\<And>db'. deny_lists_inv db' \<Longrightarrow> deny_synced sha256 db' \<Longrightarrow> blacklist_entries db' = blacklist_entries db \<Longrightarrow>
      feed_blacklist_assertions db' = feed_blacklist_assertions db \<Longrightarrow> Q () db'"
  shows "wp (materialize_global_deny_and_enqueue sha256 row_free k now) Q (\<lambda>e _. not_materialized e) db"
proof -
  define d where "d = db\<lparr>global_deny_row := Some (materialized sha256 (deny_state db) (global_cidrs db))\<rparr>"
  have d: "deny_tables_ok d" "deny_jobs_ok d" "blacklist_entries d = blacklist_entries db"
      "feed_blacklist_assertions d = feed_blacklist_assertions db" "global_cidrs d = global_cidrs db"
    using assms(1) by (simp_all add: d_def deny_lists_inv_def deny_tables_ok_def)
  have sync: "deny_synced sha256 d" if "length (global_cidrs db) \<le> MAX_GLOBAL_DENY_ENTRIES"
    using that by (simp add: deny_synced_def d_def)
  have fin: "Q () d" if "length (global_cidrs db) \<le> MAX_GLOBAL_DENY_ENTRIES"
    using d sync [OF that] by (intro Q) (simp_all add: deny_lists_inv_def)
  have enq: "wp (enqueue_global_convergence row_free k now) (\<lambda>_. Q ()) (\<lambda>e _. not_materialized e) d"
    if "length (global_cidrs db) \<le> MAX_GLOBAL_DENY_ENTRIES"
  proof (rule wp_mono [OF wp_enqueue_global_convergence [OF d(2)]], elim conjE)
    fix x db' assume j: "deny_jobs_ok db'" "only_jobs d db'"
    note f = only_jobs_frames [OF j(2)]
    show "Q () db'"
      using d(1,3,4) sync [OF that] j(1) f deny_congs(1) [OF f(1,2)] deny_synced_cong [OF f(1,3)]
      by (intro Q) (simp_all add: deny_lists_inv_def)
  qed (simp add: not_materialized_def)
  show ?thesis
    using fin enq
    by (auto simp: not_materialized_def materialize_global_deny_and_enqueue_def materialize_global_union_def enforce_capacity_def
        wp_simps d_def [symmetric])
qed

lemma has_feed_assertions_links:
  "has_feed_assertions db i \<longleftrightarrow> (\<exists>s. (s, i) \<in> links (feed_blacklist_assertions db))"
  by (auto simp: has_feed_assertions_def links_def list_ex_iff fa_key_def image_iff)

lemma asserted_nets_image:
  "asserted_nets es ls s = bl_source_cidr ` set (filter (\<lambda>e. is_global e \<and> (s, bl_id e) \<in> ls) es)"
  by (auto simp: asserted_nets_def)

lemma asserted_nets_map:
  assumes "\<And>x. bl_id (g x) = bl_id x" "\<And>x. is_global (g x) = is_global x" "\<And>x. bl_source_cidr (g x) = bl_source_cidr x"
  shows "asserted_nets (map g es) ls = asserted_nets es ls"
  unfolding asserted_nets_image fun_eq_iff by (simp add: filter_map comp_def image_image assms)

text \<open>A change of the columns that say who manages an entry.\<close>

lemma deny_tables_manage:
  assumes ok: "deny_tables_ok db" and e: "e \<in> set (blacklist_entries db)" "is_global e"
    and f: "\<And>x. bl_id (f x) = bl_id x" "\<And>x. bl_scope (f x) = bl_scope x" "\<And>x. bl_source_cidr (f x) = bl_source_cidr x"
    and asserted: "bl_source (f e) = BlacklistSource_feed \<Longrightarrow> has_feed_assertions db (bl_id e)"
  defines "db' \<equiv> db\<lparr>blacklist_entries := update_row bl_id (bl_id e) f (blacklist_entries db)\<rparr>"
  shows "deny_tables_ok db'" and "feed_nets db' = feed_nets db"
    and "manual_nets db' = (manual_nets db - {bl_source_cidr e}) \<union>
      (if bl_source (f e) = BlacklistSource_manual then {bl_source_cidr e} else {})"
proof -
  let ?es = "blacklist_entries db" and ?g = "\<lambda>x. if bl_id x = bl_id e then f x else x"
  have es: "blacklist_entries db' = map ?g ?es" by (simp add: db'_def update_row_def)
  have g: "bl_id (?g x) = bl_id x" "is_global (?g x) = is_global x" "bl_source_cidr (?g x) = bl_source_cidr x" for x
    by (simp_all add: f is_global_def)
  have eok: "entries_ok ?es" and lok: "linked_ok ?es (links (feed_blacklist_assertions db))"
    using ok by (simp_all add: deny_tables_ok_def)
  have same: "x = e" if "x \<in> set ?es" "bl_id x = bl_id e" for x
    using entries_ok_id [OF eok that(1) e(1) that(2)] .
  have "entries_ok (map ?g ?es)"
    using eok by (auto simp: entries_ok_def filter_map comp_def g f)
  moreover have "linked_ok (map ?g ?es) (links (feed_blacklist_assertions db))"
    unfolding linked_ok_def
  proof (intro conjI ballI impI)
    fix l assume "l \<in> links (feed_blacklist_assertions db)"
    then show "case l of (s, i) \<Rightarrow> \<exists>x\<in>set (map ?g ?es). is_global x \<and> bl_id x = i"
      using lok g unfolding linked_ok_def by (fastforce simp: split_beta)
  next
    fix y assume "y \<in> set (map ?g ?es)" and m: "is_global y \<and> bl_source y = BlacklistSource_feed"
    then obtain x where x: "x \<in> set ?es" "y = ?g x" by auto
    show "\<exists>s. (s, bl_id y) \<in> links (feed_blacklist_assertions db)"
    proof (cases "bl_id x = bl_id e")
      case True
      then have "has_feed_assertions db (bl_id e)" using same [OF x(1)] x(2) m asserted by simp
      then show ?thesis
        using True x(2) f(1) by (simp add: has_feed_assertions_links)
    next
      case False
      then show ?thesis using x m lok by (auto simp: linked_ok_def)
    qed
  qed
  ultimately show "deny_tables_ok db'" using ok es by (simp add: deny_tables_ok_def db'_def)
  show "feed_nets db' = feed_nets db"
    unfolding feed_nets_def es using asserted_nets_map [of ?g, OF g] by (simp add: db'_def)
  have uniq: "x = e" if "x \<in> set ?es" "is_global x" "bl_source_cidr x = bl_source_cidr e" for x
    using eok e that by (auto simp: entries_ok_def distinct_map inj_on_def)
  have src: "bl_source (?g x) = (if x = e then bl_source (f e) else bl_source x)" if "x \<in> set ?es" for x
    using same [OF that] by auto
  have "manual_nets db' = {bl_source_cidr (?g x) | x. x \<in> set ?es \<and> is_global (?g x) \<and>
      bl_source (?g x) = BlacklistSource_manual}"
    unfolding manual_nets_def es by (auto simp: image_iff)
  also have "\<dots> = {bl_source_cidr x | x. x \<in> set ?es \<and> is_global x \<and>
      (if x = e then bl_source (f e) else bl_source x) = BlacklistSource_manual}"
    using src by (auto simp only: g) 
  also have "\<dots> = (manual_nets db - {bl_source_cidr e}) \<union>
      (if bl_source (f e) = BlacklistSource_manual then {bl_source_cidr e} else {})"
    using e uniq by (auto simp: manual_nets_def) metis+
  finally show "manual_nets db' = (manual_nets db - {bl_source_cidr e}) \<union>
      (if bl_source (f e) = BlacklistSource_manual then {bl_source_cidr e} else {})" .
qed

lemma deny_tables_add:
  assumes ok: "deny_tables_ok db" and e: "is_global e" "bl_source e = BlacklistSource_manual" "valid_net (bl_source_cidr e)"
    and new: "bl_id e \<notin> bl_id ` set (blacklist_entries db)"
      "\<not> list_ex (\<lambda>f. is_global f \<and> bl_source_cidr f = bl_source_cidr e) (blacklist_entries db)"
  defines "db' \<equiv> db\<lparr>blacklist_entries := blacklist_entries db @ [e]\<rparr>"
  shows "deny_tables_ok db'" "feed_nets db' = feed_nets db" "manual_nets db' = insert (bl_source_cidr e) (manual_nets db)"
proof -
  have "(s, bl_id e) \<notin> links (feed_blacklist_assertions db)" for s
    using ok new(1) by (force simp: deny_tables_ok_def linked_ok_def)
  then show "feed_nets db' = feed_nets db"
    by (simp add: feed_nets_def asserted_nets_image fun_eq_iff db'_def)
  show "deny_tables_ok db'"
    using ok e new by (auto simp: deny_tables_ok_def entries_ok_def linked_ok_def list_ex_iff db'_def)
  show "manual_nets db' = insert (bl_source_cidr e) (manual_nets db)"
    using e by (auto simp: manual_nets_def db'_def)
qed

lemma deny_tables_delete:
  assumes ok: "deny_tables_ok db" and e: "e \<in> set (blacklist_entries db)" "is_global e"
    and free: "\<not> has_feed_assertions db (bl_id e)"
  shows "deny_tables_ok (delete_blacklist_row (bl_id e) db)"
    and "feed_nets (delete_blacklist_row (bl_id e) db) = feed_nets db"
    and "manual_nets (delete_blacklist_row (bl_id e) db) = manual_nets db - {bl_source_cidr e}"
proof -
  let ?es = "blacklist_entries db" and ?as = "feed_blacklist_assertions db" and ?db = "delete_blacklist_row (bl_id e) db"
  have none: "(s, bl_id e) \<notin> links ?as" for s using free by (simp add: has_feed_assertions_links)
  have as: "feed_blacklist_assertions ?db = ?as"
    using free by (auto simp: delete_blacklist_row_def has_feed_assertions_def list_ex_iff filter_id_conv)
  have es: "blacklist_entries ?db = filter (\<lambda>x. bl_id x \<noteq> bl_id e) ?es"
    by (simp add: delete_blacklist_row_def delete_row_def)
  have eok: "entries_ok ?es" and lok: "linked_ok ?es (links ?as)" using ok by (simp_all add: deny_tables_ok_def)
  have "linked_ok (filter (\<lambda>x. bl_id x \<noteq> bl_id e) ?es) (links ?as)"
    using lok none by (fastforce simp: linked_ok_def)
  then show "deny_tables_ok ?db"
    using ok by (simp add: deny_tables_ok_def as es entries_ok_filter)
  have "filter (\<lambda>x. is_global x \<and> (s, bl_id x) \<in> links ?as) (filter (\<lambda>x. bl_id x \<noteq> bl_id e) ?es) =
      filter (\<lambda>x. is_global x \<and> (s, bl_id x) \<in> links ?as) ?es" for s
    using none by (auto simp: filter_filter intro!: filter_cong)
  then show "feed_nets ?db = feed_nets db"
    by (simp add: feed_nets_def as es asserted_nets_image fun_eq_iff)
  have "bl_id x = bl_id e \<longleftrightarrow> bl_source_cidr x = bl_source_cidr e" if "x \<in> set ?es" "is_global x" for x
    using eok e that by (auto simp: entries_ok_def distinct_map inj_on_def)
  then show "manual_nets ?db = manual_nets db - {bl_source_cidr e}"
    by (auto simp: manual_nets_def es)
qed

text \<open>The entry that a query for a global network finds.\<close>

lemma global_entry_cases:
  assumes "deny_tables_ok db"
  shows "global_blacklist_entries n db = [] \<or> (\<exists>e. global_blacklist_entries n db = [e])"
  using filter_key_cases [of bl_source_cidr "filter is_global (blacklist_entries db)" n] assms
  by (simp add: global_blacklist_entries_def deny_tables_ok_def entries_ok_def conj_commute)

lemma global_entryD:
  "global_blacklist_entries n db = [e] \<Longrightarrow> e \<in> set (blacklist_entries db) \<and> is_global e \<and> bl_source_cidr e = n"
  unfolding global_blacklist_entries_def by (rule filter_singleD)

definition denies :: "(ustr \<Rightarrow> string) \<Rightarrow> net set \<Rightarrow> (uuid \<Rightarrow> net set) \<Rightarrow> db \<Rightarrow> bool" where
  "denies sha256 manual feeds db \<longleftrightarrow> deny_lists_inv db \<and> deny_synced sha256 db \<and>
     manual_nets db = manual \<and> feed_nets db = feeds"

lemma denies_record_event [simp]:
  "denies sha256 m f (snd (record_event now actor ac tt ti out ip md db)) = denies sha256 m f db"
proof -
  let ?db = "snd (record_event now actor ac tt ti out ip md db)"
  have "blacklist_entries ?db = blacklist_entries db" "feed_blacklist_assertions ?db = feed_blacklist_assertions db"
      "global_deny_row ?db = global_deny_row db" "agent_jobs ?db = agent_jobs db"
    by (simp_all add: record_event_def run_simps)
  note eq = this
  show ?thesis
    by (simp add: denies_def deny_lists_inv_def deny_congs(1) [OF eq(1,2)] deny_synced_cong [OF eq(1,3)]
        deny_jobs_ok_def eq(4) deny_congs(4) [OF eq(1,2)] feed_nets_cong [OF eq(1,2)])
qed

lemma wp_record_denies [simp]:
  "wp (record_event now actor ac tt ti out ip md) (\<lambda>_. denies sha256 m f) E = denies sha256 m f"
  by (rule ext) (simp add: wp_simps)

lemma wp_materialize_denies:
  assumes "deny_lists_inv db" "manual_nets db = m" "feed_nets db = f" "\<And>e d. not_materialized e \<Longrightarrow> E e d"
  shows "wp (materialize_global_deny_and_enqueue sha256 row_free k now) (\<lambda>_. denies sha256 m f) E db"
proof -
  have "wp (materialize_global_deny_and_enqueue sha256 row_free k now) (\<lambda>_. denies sha256 m f)
      (\<lambda>e _. not_materialized e) db"
  proof (rule wp_materialize_and_enqueue [OF assms(1)])
    fix db' assume d: "deny_lists_inv db'" "deny_synced sha256 db'" "blacklist_entries db' = blacklist_entries db"
      "feed_blacklist_assertions db' = feed_blacklist_assertions db"
    show "denies sha256 m f db'"
      using d(1,2) deny_congs(4) [OF d(3,4)] feed_nets_cong [OF d(3,4)] assms(2,3) by (simp add: denies_def)
  qed
  then show ?thesis by (rule wp_mono) (simp_all add: assms(4))
qed

text \<open>Why an operation on the blacklist is refused.\<close>

definition is_admin :: "user option \<Rightarrow> bool" where
  "is_admin actor \<longleftrightarrow> (\<exists>u. actor = Some u \<and> us_role u = Role_admin)"

definition blacklist_refused :: "db \<Rightarrow> ustr \<Rightarrow> user option \<Rightarrow> exc \<Rightarrow> bool" where
  "blacklist_refused db source_cidr actor e \<longleftrightarrow>
     e = HTTPException 403 (JStr ''Forbidden'') \<and> \<not> is_admin actor \<or>
     parse_source source_cidr = Inl e \<or>
     e = HTTPException 409 (JStr ''List entry exists'') \<and> (\<exists>n. parse_source source_cidr = Inr n \<and> n \<in> manual_nets db) \<or>
     e = IntegrityError ''blacklist_entry_pkey'' \<or> not_materialized e"

definition removal_refused :: "db \<Rightarrow> net \<Rightarrow> user option \<Rightarrow> exc \<Rightarrow> bool" where
  "removal_refused db n actor e \<longleftrightarrow>
     e = HTTPException 403 (JStr ''Forbidden'') \<and> \<not> is_admin actor \<or>
     e = HTTPException 404 (JStr ''Blacklist entry not found'') \<and> n \<notin> global_nets db \<or>
     e = HTTPException 409 (JStr ''Feed-managed blacklist entry cannot be deleted manually'') \<and>
       n \<in> global_nets db - manual_nets db \<or>
     not_materialized e"

lemma wp_list_require_admin [wp_simps]:
  "wp (list_require_admin_actor actor) Q E db =
     ((is_admin actor \<longrightarrow> Q () db) \<and> (\<not> is_admin actor \<longrightarrow> E (HTTPException 403 (JStr ''Forbidden'')) db))"
  by (auto simp: list_require_admin_actor_def is_admin_def wp_simps split: option.splits)

lemma manual_of_entry:
  assumes "deny_tables_ok db" "e \<in> set (blacklist_entries db)" "is_global e"
  shows "bl_source_cidr e \<in> manual_nets db \<longleftrightarrow> bl_source e = BlacklistSource_manual"
  using assms by (auto simp: manual_nets_def deny_tables_ok_def entries_ok_def distinct_map inj_on_def)

text \<open>Adding a network makes it manual, removing it leaves it to the feeds.\<close>

lemma wp_add_blacklist:
  assumes inv: "deny_lists_inv db"
  shows "wp (add_blacklist sha256 new_id row_free k now source_cidr actor ip)
    (\<lambda>e. denies sha256 (insert (bl_source_cidr e) (manual_nets db)) (feed_nets db))
    (\<lambda>e _. blacklist_refused db source_cidr actor e) db" (is "wp _ _ ?E _")
proof (cases "parse_source source_cidr")
  case (Inl e)
  then show ?thesis by (simp add: add_blacklist_def wp_simps blacklist_refused_def)
next
  case (Inr n)
  have ok: "deny_tables_ok db" and jobs: "deny_jobs_ok db" using inv by (simp_all add: deny_lists_inv_def)
  have refused: "not_materialized e \<Longrightarrow> blacklist_refused db source_cidr actor e" for e
    by (simp add: blacklist_refused_def)
  from global_entry_cases [OF ok, of n] show ?thesis
  proof
    assume none: "global_blacklist_entries n db = []"
    then have new: "\<not> list_ex (\<lambda>f. is_global f \<and> bl_source_cidr f = n) (blacklist_entries db)"
      by (auto simp: global_blacklist_entries_def filter_empty_conv list_ex_iff)
    let ?e = "\<lparr> bl_id = new_id, bl_scope = BlacklistScope_global, bl_source = BlacklistSource_manual,
                 bl_source_cidr = n, bl_created_by = map_option us_id actor, bl_created_at = now \<rparr>"
    let ?db = "db\<lparr>blacklist_entries := blacklist_entries db @ [?e]\<rparr>"
    have "wp (materialize_global_deny_and_enqueue sha256 row_free k now)
        (\<lambda>_. denies sha256 (insert n (manual_nets db)) (feed_nets db)) ?E ?db"
      if "new_id \<notin> bl_id ` set (blacklist_entries db)"
      using deny_tables_add [OF ok, of ?e] that new parse_source_valid [OF Inr] jobs refused
      by (intro wp_materialize_denies) (simp_all add: is_global_def deny_lists_inv_def)
    then show ?thesis
      using none Inr new
      by (simp add: add_blacklist_def global_blacklist_entry_for_update_def one_or_none_def
          insert_blacklist_def list_integrity_error_def wp_simps)
        (simp add: blacklist_refused_def)
  next
    assume "\<exists>e. global_blacklist_entries n db = [e]"
    then obtain e where one: "global_blacklist_entries n db = [e]" ..
    have e: "e \<in> set (blacklist_entries db)" "is_global e" "bl_source_cidr e = n" using global_entryD [OF one] by simp_all
    let ?f = "\<lambda>_. e\<lparr>bl_source := BlacklistSource_manual, bl_created_by := map_option us_id actor\<rparr>"
    let ?g = "\<lambda>x. x\<lparr>bl_source := BlacklistSource_manual, bl_created_by := map_option us_id actor\<rparr>"
    have rows: "update_row bl_id (bl_id e) ?f (blacklist_entries db) = update_row bl_id (bl_id e) ?g (blacklist_entries db)"
      using entries_ok_id [of "blacklist_entries db" _ e] ok e(1)
      by (auto simp: update_row_def deny_tables_ok_def)
    have "wp (materialize_global_deny_and_enqueue sha256 row_free k now)
        (\<lambda>_. denies sha256 (insert n (manual_nets db)) (feed_nets db)) ?E
        (db\<lparr>blacklist_entries := update_row bl_id (bl_id e) ?f (blacklist_entries db)\<rparr>)"
      unfolding rows using deny_tables_manage [OF ok e(1,2), of ?g] e(3) jobs refused
      by (intro wp_materialize_denies) (simp_all add: deny_lists_inv_def)
    moreover have "blacklist_refused db source_cidr actor (HTTPException 409 (JStr ''List entry exists''))"
      if "bl_source e \<noteq> BlacklistSource_feed"
      using that e(3) Inr manual_of_entry [OF ok e(1,2)] by (cases "bl_source e") (simp_all add: blacklist_refused_def)
    moreover have "\<not> is_admin actor \<Longrightarrow> blacklist_refused db source_cidr actor (HTTPException 403 (JStr ''Forbidden''))"
      by (simp add: blacklist_refused_def)
    ultimately show ?thesis
      using one Inr e(3)
      by (simp add: add_blacklist_def global_blacklist_entry_for_update_def one_or_none_def wp_simps)
  qed
qed

lemma wp_remove_blacklist:
  assumes inv: "deny_lists_inv db" and parse: "parse_source source_cidr = Inr n"
  shows "wp (remove_blacklist sha256 row_free k now source_cidr actor ip)
    (\<lambda>_. denies sha256 (manual_nets db - {n}) (feed_nets db)) (\<lambda>e _. removal_refused db n actor e) db" (is "wp _ _ ?E _")
proof -
  have ok: "deny_tables_ok db" and jobs: "deny_jobs_ok db" using inv by (simp_all add: deny_lists_inv_def)
  have refused: "not_materialized e \<Longrightarrow> removal_refused db n actor e"
      "\<not> is_admin actor \<Longrightarrow> removal_refused db n actor (HTTPException 403 (JStr ''Forbidden''))" for e
    by (simp_all add: removal_refused_def)
  from global_entry_cases [OF ok, of n] show ?thesis
  proof
    assume none: "global_blacklist_entries n db = []"
    then have "n \<notin> global_nets db"
      by (auto simp: global_blacklist_entries_def filter_empty_conv global_nets_def)
    then show ?thesis
      using parse none
      by (simp add: remove_blacklist_def require_blacklist_entry_def one_or_none_def wp_simps removal_refused_def)
  next
    assume "\<exists>e. global_blacklist_entries n db = [e]"
    then obtain e where one: "global_blacklist_entries n db = [e]" ..
    have e: "e \<in> set (blacklist_entries db)" "is_global e" "bl_source_cidr e = n" using global_entryD [OF one] by simp_all
    let ?g = "\<lambda>x. x\<lparr>bl_source := BlacklistSource_feed, bl_created_by := None\<rparr>"
    have "wp (materialize_global_deny_and_enqueue sha256 row_free k now)
        (\<lambda>_. denies sha256 (manual_nets db - {n}) (feed_nets db)) ?E
        (db\<lparr>blacklist_entries := update_row bl_id (bl_id e) ?g (blacklist_entries db)\<rparr>)"
      if "has_feed_assertions db (bl_id e)"
      using that deny_tables_manage [OF ok e(1,2), of ?g] e(3) jobs refused
      by (intro wp_materialize_denies) (simp_all add: deny_lists_inv_def)
    moreover have "wp (materialize_global_deny_and_enqueue sha256 row_free k now)
        (\<lambda>_. denies sha256 (manual_nets db - {n}) (feed_nets db)) ?E (delete_blacklist_row (bl_id e) db)"
      if free: "\<not> has_feed_assertions db (bl_id e)"
    proof -
      have "deny_jobs_ok (delete_blacklist_row (bl_id e) db)"
        using jobs by (simp add: deny_jobs_ok_def delete_blacklist_row_def)
      then show ?thesis
        using deny_tables_delete [OF ok e(1,2) free] e(3) refused
        by (intro wp_materialize_denies) (simp_all add: deny_lists_inv_def)
    qed
    moreover have "removal_refused db n actor
        (HTTPException 409 (JStr ''Feed-managed blacklist entry cannot be deleted manually''))"
      if "bl_source e = BlacklistSource_feed"
      using that e manual_of_entry [OF ok e(1,2)] by (auto simp: removal_refused_def global_nets_def)
    ultimately show ?thesis
      using one parse refused(2)
      by (simp add: remove_blacklist_def require_blacklist_entry_def one_or_none_def wp_simps)
  qed
qed

section \<open>Lemmas on whitelists\<close>

definition whitelist_ok :: "uuid list \<Rightarrow> whitelist_entry list \<Rightarrow> bool" where
  "whitelist_ok services ws \<longleftrightarrow> distinct (map wl_id ws) \<and>
     distinct (map (\<lambda>w. (wl_service_id w, wl_source_cidr w)) ws) \<and>
     (\<forall>w \<in> set ws. valid_net (wl_source_cidr w) \<and> reject_reserved (wl_source_cidr w) = Inr () \<and>
        wl_service_id w \<in> set services)"

definition whitelist_inv :: "db \<Rightarrow> bool" where
  "whitelist_inv db \<longleftrightarrow> config_inv db \<and> whitelist_ok (map sv_id (protected_services db)) (whitelist_entries db)"

lemma parse_source_ok:
  assumes "parse_source value = Inr n"
  shows "valid_net n" "reject_reserved n = Inr ()"
  using assms by (auto simp: parse_source_def dest: parse_ipv4_cidr_valid split: sum.splits)

lemma config_whitelist [simp]:
  "config_inv (db\<lparr>whitelist_entries := ws\<rparr>) = config_inv db"
  "config_inv (db\<lparr>whitelist_entries := ws, feed_sync_overlaps := os\<rparr>) = config_inv db"
proof -
  have "apply_inv (db\<lparr>whitelist_entries := ws\<rparr>) = apply_inv db"
      "apply_inv (db\<lparr>whitelist_entries := ws, feed_sync_overlaps := os\<rparr>) = apply_inv db"
    by (simp_all add: apply_inv_def)
  then show "config_inv (db\<lparr>whitelist_entries := ws\<rparr>) = config_inv db"
      "config_inv (db\<lparr>whitelist_entries := ws, feed_sync_overlaps := os\<rparr>) = config_inv db"
    using config_frame [of "db\<lparr>whitelist_entries := ws\<rparr>" db]
      config_frame [of "db\<lparr>whitelist_entries := ws, feed_sync_overlaps := os\<rparr>" db]
    by (simp_all add: config_inv_def draft_inv_def)
qed

lemma whitelist_ok_published:
  "published i db db' \<Longrightarrow> whitelist_ok (map sv_id (protected_services db')) (whitelist_entries db') =
     whitelist_ok (map sv_id (protected_services db)) (whitelist_entries db)"
  using same_configD(4,7) [of db db'] by (auto simp: published_def)

lemma wp_publish_whitelist:
  assumes "config_inv db" "whitelist_ok (map sv_id (protected_services db)) (whitelist_entries db)"
  shows "wp (bump_version now i) (\<lambda>_. wp (enqueue_service_update k now i tr)
      (\<lambda>_. wp (record_event t actor ac tt ti out ip md) (\<lambda>_. whitelist_inv) (\<lambda>_ _. True)) (\<lambda>_ _. True)) (\<lambda>_ _. True) db"
  using assms whitelist_ok_published
  by (intro wp_publish) (auto simp: config_draft wp_simps whitelist_inv_def)

lemma wp_list_authorize [wp_simps]:
  "wp (list_authorize_actor actor s) Q (\<lambda>_ _. True) db =
     ((case actor of None \<Rightarrow> True | Some u \<Rightarrow> us_role u = Role_admin \<or> us_tenant_id u = Some (sv_tenant_id s))
      \<longrightarrow> Q () db)"
  by (auto simp: list_authorize_actor_def wp_simps split: option.splits)

lemma whitelist_ok_add:
  assumes "whitelist_ok is ws" "wl_id w \<notin> wl_id ` set ws"
    "\<not> list_ex (\<lambda>v. wl_service_id v = wl_service_id w \<and> wl_source_cidr v = wl_source_cidr w) ws"
    "valid_net (wl_source_cidr w)" "reject_reserved (wl_source_cidr w) = Inr ()" "wl_service_id w \<in> set is"
  shows "whitelist_ok is (ws @ [w])"
  using assms by (auto simp: whitelist_ok_def list_ex_iff)

lemma whitelist_ok_delete: "whitelist_ok is ws \<Longrightarrow> whitelist_ok is (delete_row wl_id k ws)"
  by (auto simp: whitelist_ok_def delete_row_def distinct_map inj_on_def)

lemma wp_list_integrity: "wp (list_integrity_error e) Q (\<lambda>_ _. True) = (\<lambda>_. True)"
  by (auto simp: wp_simps list_integrity_error_def)

lemma commits_add_whitelist: "commits whitelist_inv (add_whitelist new_id job_id now i src actor ip)"
proof (rule commitsI)
  fix db assume inv: "whitelist_inv db"
  have "config_inv db" "whitelist_ok (map sv_id (protected_services db)) (whitelist_entries db)"
    using inv by (simp_all add: whitelist_inv_def)
  then show "wp (add_whitelist new_id job_id now i src actor ip) (\<lambda>_. whitelist_inv) (\<lambda>_ _. True) db"
    by (auto simp: add_whitelist_def list_require_service_def insert_whitelist_def get_service_row_def
        wp_simps wp_list_integrity parse_source_ok
        intro!: wp_publish_whitelist whitelist_ok_add dest!: row_SomeD split: sum.splits)
qed

lemma commits_remove_whitelist: "commits whitelist_inv (remove_whitelist job_id now i src actor ip)"
proof (rule commitsI)
  fix db assume inv: "whitelist_inv db"
  have "wp (bump_version now k) (\<lambda>_. wp (enqueue_service_update job_id now k tr)
      (\<lambda>_. wp (record_event t actor ac tt ti out ip md) (\<lambda>_. wp (loaded_service k) (\<lambda>_. whitelist_inv) (\<lambda>_ _. True)) (\<lambda>_ _. True)) (\<lambda>_ _. True)) (\<lambda>_ _. True)
      (delete_whitelist_row w db)" for k tr t ac tt ti out md w
  proof -
    have "whitelist_inv (delete_whitelist_row w db)"
      using inv by (simp add: whitelist_inv_def delete_whitelist_row_def whitelist_ok_delete)
    then show ?thesis
      using whitelist_ok_published
      by (intro wp_publish) (auto simp: config_draft wp_simps whitelist_inv_def loaded_service_def)
  qed
  then show "wp (remove_whitelist job_id now i src actor ip) (\<lambda>_. whitelist_inv) (\<lambda>_ _. True) db"
    by (auto simp: remove_whitelist_def list_require_service_def require_whitelist_entry_def one_or_none_def wp_simps
        split: sum.splits list.splits)
qed

section \<open>Properties\<close>

text \<open>
  C15 The blacklist is the set an administrator edits.  From tables and jobs that
  satisfy the invariant, adding a network that returns puts it among the manual
  networks and removing one takes it out; what the feeds assert is untouched, so a
  removed network that a feed asserts stays in force; the effective list is again
  the union, materialized under the invariant.  The operations are refused only for
  the reasons listed: a caller who is not an administrator, a text that is not an
  acceptable network, an entry that exists or does not, an entry that only feeds
  manage, a clash of identifiers, or a list that would be too long.
\<close>

theorem blacklist_edits_a_set:
  assumes "deny_lists_inv db"
  shows "(case add_blacklist sha256 new_id row_free k now source_cidr actor ip db of
       (Inr e, db') \<Rightarrow> manual_nets db' = insert (bl_source_cidr e) (manual_nets db) \<and> feed_nets db' = feed_nets db \<and>
         deny_lists_inv db' \<and> deny_synced sha256 db'
     | (Inl e, _) \<Rightarrow> blacklist_refused db source_cidr actor e) \<and>
    (parse_source source_cidr = Inr n \<longrightarrow>
     (case remove_blacklist sha256 row_free k now source_cidr actor ip db of
       (Inr _, db') \<Rightarrow> manual_nets db' = manual_nets db - {n} \<and> feed_nets db' = feed_nets db \<and>
         deny_lists_inv db' \<and> deny_synced sha256 db'
     | (Inl e, _) \<Rightarrow> removal_refused db n actor e))"
  using wp_add_blacklist [OF assms, of sha256 new_id row_free k now source_cidr actor ip]
    wp_remove_blacklist [OF assms, of source_cidr n sha256 row_free k now actor ip]
  by (auto simp: wp_def denies_def split: prod.splits sum.splits)

lemma pending_deny_inv: "deny_lists_inv pending_deny"
proof -
  have "deny_tables_ok pending_deny"
    using sample_deny_ok deny_congs(1) [of pending_deny sample_deny] by (simp add: pending_deny_def)
  then show ?thesis
    by (simp add: deny_lists_inv_def deny_jobs_ok_def pending_deny_def sample_deny_def sample_defs is_deny_job_def)
qed

theorem blacklist_edits_a_set_witness:
  "case add_blacklist (map char_of) 90 True 41 5 (str_net (Net 134217728 8)) (Some sample_admin) None pending_deny of
     (Inr e, db') \<Rightarrow> manual_nets db' = insert (bl_source_cidr e) (manual_nets pending_deny)
   | (Inl e, _) \<Rightarrow> blacklist_refused pending_deny (str_net (Net 134217728 8)) (Some sample_admin) e"
  using blacklist_edits_a_set [OF pending_deny_inv, where ?sha256.0 = "map char_of" and new_id = 90 and row_free = True
      and k = 41 and now = 5 and source_cidr = "str_net (Net 134217728 8)" and actor = "Some sample_admin" and ip = None
      and n = "Net 134217728 8"]
  by (auto split: prod.splits sum.splits)

text \<open>
  C32 Whitelists stay well formed: after every operation on them that commits,
  entries have distinct keys, no service lists a network twice, networks
  have no host bits and are not reserved, they belong to existing services, and
  the configuration is consistent.
\<close>

theorem whitelists_stay_well_formed:
  "commits whitelist_inv (add_whitelist new_id job_id now i src actor ip) \<and>
   commits whitelist_inv (remove_whitelist job_id now i src actor ip)"
  by (intro conjI commits_add_whitelist commits_remove_whitelist)

end
