(* ===== verification/Wire.thy ===== *)
theory Wire
  imports Models "HOL-Library.Word" "HOL-Library.List_Lexorder"
begin

unbundle bit_operations_syntax

text \<open>
  The apply snapshot on the wire, \<open>data-plane/src/apply_snapshot.h\<close>: what
  \<open>struct.pack\<close> writes for the control plane, and the reader of the apply helper
  (\<open>data-plane/tools/xdpgw-apply.c\<close>, the decoder \<open>parse_snapshot\<close>) at the
  widths of its C types.  A \<open>be32\<close> field is its four bytes as they lie in memory.
  The reader's allocations are taken to succeed.  The lemmas show that the
  reader inverts the packing, field by field and for repeated records.
\<close>

section \<open>Packing\<close>

type_synonym bytes = "8 word list"

fun le_bytes :: "nat \<Rightarrow> int \<Rightarrow> bytes" where
  "le_bytes 0 n = []"
| "le_bytes (Suc k) n = word_of_int n # le_bytes k (n div 256)"

text \<open>The formats \<open>B\<close>, \<open>H\<close>, \<open>I\<close> and \<open>Q\<close> of \<open>struct.pack("<...")\<close>: 1, 2, 4 and 8 bytes.\<close>

definition pack_uint :: "nat \<Rightarrow> int \<Rightarrow> exc + bytes" where
  "pack_uint k n = (if 0 \<le> n \<and> n < 256 ^ k then Inr (le_bytes k n) else Inl StructError)"

definition pack_fields :: "(exc + bytes) list \<Rightarrow> exc + bytes" where
  "pack_fields fs = map_sum id concat (traverse id fs)"

text \<open>The format \<open>4s\<close> of a value that has four bytes.\<close>

definition pack_4s :: "bytes \<Rightarrow> exc + bytes" where
  "pack_4s bs = Inr bs"

section \<open>The reader\<close>

type_synonym 'a reader = "(bytes, unit, 'a) prog"

definition rd_bytes :: "nat \<Rightarrow> bytes reader" where
  "rd_bytes n c = (if length c < n then (Inl (), c) else (Inr (take n c), drop n c))"

definition rd_u8 :: "8 word reader" where
  "rd_u8 c = (case c of [] \<Rightarrow> (Inl (), c) | b # rest \<Rightarrow> (Inr b, rest))"

definition rd_u16le :: "16 word reader" where
  "rd_u16le c =
     (if length c < 2 then (Inl (), c)
      else (Inr (ucast (c ! 0) OR push_bit 8 (ucast (c ! 1))), drop 2 c))"

definition rd_u32le :: "32 word reader" where
  "rd_u32le c =
     (if length c < 4 then (Inl (), c)
      else (Inr (ucast (c ! 0) OR push_bit 8 (ucast (c ! 1)) OR push_bit 16 (ucast (c ! 2)) OR
                 push_bit 24 (ucast (c ! 3))), drop 4 c))"

definition rd_u64le :: "64 word reader" where
  "rd_u64le c =
     (if length c < 8 then (Inl (), c)
      else (Inr (fold (\<lambda>i v. v OR push_bit (8 * i) (ucast (c ! i))) [0 ..< 8] 0), drop 8 c))"

definition rd_be32 :: "bytes reader" where
  "rd_be32 = rd_bytes 4"

fun rd_times :: "nat \<Rightarrow> 'a reader \<Rightarrow> 'a list reader" where
  "rd_times 0 m c = (Inr [], c)"
| "rd_times (Suc n) m c = andThen m (\<lambda>x. andThen (rd_times n m) (\<lambda>xs. ret (x # xs))) c"

record cfg_rule =
  cr_src_lo :: "16 word"
  cr_src_hi :: "16 word"
  cr_dst_lo :: "16 word"
  cr_dst_hi :: "16 word"
  cr_proto :: "8 word"
  cr_flags :: "8 word"

record cfg_source =
  cs_prefixlen :: "32 word"
  cs_addr :: bytes

record cfg_service =
  cf_dst_prefixlen :: "32 word"
  cf_dst_addr :: bytes
  cf_dp_id :: "32 word"
  cf_enabled :: "8 word"
  cf_wl_flags :: "8 word"
  cf_reserved0 :: "8 word"
  cf_committed_bps :: "64 word"
  cf_ceiling_bps :: "64 word"
  cf_vip_pps :: "64 word"
  cf_vip_bps :: "64 word"
  cf_vip_flags :: "8 word"
  cf_service_pps :: "64 word"
  cf_service_bps :: "64 word"
  cf_svc_rl_flags :: "8 word"
  cf_rules :: "cfg_rule list"
  cf_wl :: "cfg_source list"

record node_cfg =
  no_schema_version :: "32 word"
  no_snapshot_kind :: "32 word"
  no_services :: "cfg_service list"
  no_global_revision :: "64 word"
  no_global_entries :: "cfg_source list"

definition RULE_MAX :: nat where
  "RULE_MAX = 16"

definition APPLY_MAX_BYTES :: nat where
  "APPLY_MAX_BYTES = 64 * 1024 * 1024"

definition APPLY_MAX_SERVICES :: nat where
  "APPLY_MAX_SERVICES = 65536"

definition APPLY_MAX_LIST_ENTRIES :: nat where
  "APPLY_MAX_LIST_ENTRIES = 2 ^ 20"

definition GLOBAL_DENY_MAX_ENTRIES :: nat where
  "GLOBAL_DENY_MAX_ENTRIES = 1048576"

definition SNAPSHOT_MAGIC :: bytes where
  "SNAPSHOT_MAGIC = map of_char ''XDPGWAP1''"

definition rd_source :: "cfg_source reader" where
  "rd_source =
     andThen rd_u32le (\<lambda>prefixlen.
     andThen rd_be32 (\<lambda>addr. ret \<lparr> cs_prefixlen = prefixlen, cs_addr = addr \<rparr>))"

definition parse_source_list :: "cfg_source list reader" where
  "parse_source_list =
     andThen rd_u32le (\<lambda>count.
     andThen (ensure (unat count \<le> APPLY_MAX_LIST_ENTRIES) ()) (\<lambda>_.
     rd_times (unat count) rd_source))"

definition rd_rule :: "cfg_rule reader" where
  "rd_rule =
     andThen rd_u16le (\<lambda>src_lo. andThen rd_u16le (\<lambda>src_hi.
     andThen rd_u16le (\<lambda>dst_lo. andThen rd_u16le (\<lambda>dst_hi.
     andThen rd_u8 (\<lambda>proto. andThen rd_u8 (\<lambda>flags.
     ret \<lparr> cr_src_lo = src_lo, cr_src_hi = src_hi, cr_dst_lo = dst_lo, cr_dst_hi = dst_hi,
           cr_proto = proto, cr_flags = flags \<rparr>))))))"

definition parse_service :: "cfg_service reader" where
  "parse_service =
     andThen rd_u32le (\<lambda>dst_prefixlen. andThen rd_be32 (\<lambda>dst_addr. andThen rd_u32le (\<lambda>dp_id.
     andThen rd_u8 (\<lambda>enabled. andThen rd_u8 (\<lambda>wl_flags. andThen rd_u8 (\<lambda>reserved0.
     andThen rd_u64le (\<lambda>committed_bps. andThen rd_u64le (\<lambda>ceiling_bps.
     andThen rd_u64le (\<lambda>vip_pps. andThen rd_u64le (\<lambda>vip_bps. andThen rd_u8 (\<lambda>vip_flags.
     andThen rd_u64le (\<lambda>service_pps. andThen rd_u64le (\<lambda>service_bps.
     andThen rd_u8 (\<lambda>svc_rl_flags. andThen rd_u16le (\<lambda>rule_count.
     andThen (ensure (reserved0 = 0) ()) (\<lambda>_.
     andThen (ensure (unat rule_count \<le> RULE_MAX) ()) (\<lambda>_.
     andThen (rd_times (unat rule_count) rd_rule) (\<lambda>rules.
     andThen parse_source_list (\<lambda>wl.
     ret \<lparr> cf_dst_prefixlen = dst_prefixlen, cf_dst_addr = dst_addr, cf_dp_id = dp_id,
           cf_enabled = enabled, cf_wl_flags = wl_flags, cf_reserved0 = reserved0,
           cf_committed_bps = committed_bps, cf_ceiling_bps = ceiling_bps, cf_vip_pps = vip_pps,
           cf_vip_bps = vip_bps, cf_vip_flags = vip_flags, cf_service_pps = service_pps,
           cf_service_bps = service_bps, cf_svc_rl_flags = svc_rl_flags, cf_rules = rules,
           cf_wl = wl \<rparr>)))))))))))))))))))"

definition ntohl :: "bytes \<Rightarrow> 32 word" where
  "ntohl a = push_bit 24 (ucast (a ! 0)) OR push_bit 16 (ucast (a ! 1)) OR
     push_bit 8 (ucast (a ! 2)) OR ucast (a ! 3)"

definition global_entry_valid :: "cfg_source \<Rightarrow> bool" where
  "global_entry_valid entry =
     (if 32 < unat (cs_prefixlen entry) then False
      else
        let addr = ntohl (cs_addr entry);
            netmask = (if cs_prefixlen entry \<noteq> 0 then push_bit (32 - unat (cs_prefixlen entry)) (- 1) else 0)
        in addr AND NOT netmask = 0)"

definition global_entries_sorted :: "cfg_source \<Rightarrow> cfg_source \<Rightarrow> bool" where
  "global_entries_sorted previous current =
     (if cs_prefixlen previous \<noteq> cs_prefixlen current
      then cs_prefixlen previous < cs_prefixlen current
      else cs_addr previous < cs_addr current)"

fun rd_global_entries :: "nat \<Rightarrow> cfg_source option \<Rightarrow> cfg_source list reader" where
  "rd_global_entries 0 previous c = (Inr [], c)"
| "rd_global_entries (Suc n) previous c =
     andThen rd_source (\<lambda>e.
     andThen (ensure (global_entry_valid e) ()) (\<lambda>_.
     andThen (ensure (case previous of None \<Rightarrow> True | Some p \<Rightarrow> global_entries_sorted p e) ()) (\<lambda>_.
     andThen (rd_global_entries n (Some e)) (\<lambda>es. ret (e # es))))) c"

definition parse_global_deny :: "(64 word \<times> cfg_source list) reader" where
  "parse_global_deny =
     andThen rd_u64le (\<lambda>revision.
     andThen rd_u32le (\<lambda>count.
     andThen (ensure (unat count \<le> GLOBAL_DENY_MAX_ENTRIES) ()) (\<lambda>_.
     andThen (gets length) (\<lambda>left.
     andThen (ensure (unat count \<le> left div 8) ()) (\<lambda>_.
     andThen (rd_global_entries (unat count) None) (\<lambda>entries.
     ret (revision, entries)))))))"

definition rd_node :: "node_cfg reader" where
  "rd_node =
     andThen (rd_bytes 8) (\<lambda>magic.
     andThen (ensure (magic = SNAPSHOT_MAGIC) ()) (\<lambda>_.
     andThen rd_u32le (\<lambda>schema.
     andThen (ensure (schema = 4) ()) (\<lambda>_.
     andThen rd_u32le (\<lambda>kind.
     let node = \<lparr> no_schema_version = schema, no_snapshot_kind = kind, no_services = [],
           no_global_revision = 0, no_global_entries = [] \<rparr> in
     if kind = 1 then
       andThen rd_u32le (\<lambda>count.
       andThen (ensure (unat count \<le> APPLY_MAX_SERVICES) ()) (\<lambda>_.
       andThen (rd_times (unat count) parse_service) (\<lambda>services.
       ret (node\<lparr>no_services := services\<rparr>))))
     else if kind = 2 then
       andThen parse_global_deny (\<lambda>(revision, entries).
       ret (node\<lparr>no_global_revision := revision, no_global_entries := entries\<rparr>))
     else raise ())))))"

definition parse_snapshot :: "bytes \<Rightarrow> node_cfg option" where
  "parse_snapshot file =
     (if length file < 16 \<or> APPLY_MAX_BYTES < length file then None
      else case rd_node file of
        (Inr node, []) \<Rightarrow> Some node
      | _ \<Rightarrow> None)"

section \<open>The reader inverts the packing\<close>

text \<open>\<open>reads m bs x\<close>: from a stream that starts with \<open>bs\<close>, \<open>m\<close> takes exactly \<open>bs\<close> and gives \<open>x\<close>.\<close>

definition reads :: "'a reader \<Rightarrow> bytes \<Rightarrow> 'a \<Rightarrow> bool" where
  "reads m bs x \<longleftrightarrow> (\<forall>rest. m (bs @ rest) = (Inr x, rest))"

lemma reads_ret: "x = y \<Longrightarrow> reads (ret x) [] y"
  by (simp add: reads_def run_simps)

lemma reads_andThen: "reads m bs x \<Longrightarrow> reads (f x) bs' y \<Longrightarrow> reads (andThen m f) (bs @ bs') y"
  by (simp add: reads_def run_simps)

lemma reads_ensure: "b \<Longrightarrow> reads (f ()) bs y \<Longrightarrow> reads (andThen (ensure b ()) f) bs y"
  by (simp add: reads_def run_simps)

lemma reads_times:
  assumes "list_all2 (reads m) bss xs" "n = length xs"
  shows "reads (rd_times n m) (concat bss) xs"
  using assms
proof (induction arbitrary: n rule: list_all2_induct)
  case (Cons bs bss x xs)
  then show ?case by (simp add: reads_def run_simps)
qed (simp add: reads_def)

lemma reads_bytes: "length bs = n \<Longrightarrow> reads (rd_bytes n) bs bs"
  by (simp add: reads_def rd_bytes_def)

lemma reads_be32: "length bs = 4 \<Longrightarrow> reads rd_be32 bs bs"
  by (simp add: rd_be32_def reads_bytes)

text \<open>The value of little-endian bytes.\<close>

definition le_word :: "bytes \<Rightarrow> 'a::len word" where
  "le_word bs = foldr (\<lambda>b v. ucast b OR push_bit 8 v) bs 0"

lemma le_word_simps [simp]:
  "le_word [] = 0" "le_word (b # bs) = ucast b OR push_bit 8 (le_word bs)"
  by (simp_all add: le_word_def)

lemma length_le_bytes [simp]: "length (le_bytes k n) = k"
  by (induction k arbitrary: n) simp_all

lemma le_word_step:
  "(ucast (word_of_int n :: 8 word) :: 'a::len word) OR push_bit 8 (word_of_int (n div 256)) = word_of_int n"
proof (rule bit_word_eqI)
  fix i assume "i < LENGTH('a)"
  have "n div 256 = drop_bit 8 n" by (simp add: drop_bit_eq_div)
  then show "bit ((ucast (word_of_int n :: 8 word) :: 'a word) OR push_bit 8 (word_of_int (n div 256))) i
      = bit (word_of_int n :: 'a word) i"
    using \<open>i < LENGTH('a)\<close>
    by (auto simp: bit_or_iff bit_push_bit_iff bit_ucast_iff bit_of_int_iff bit_drop_bit_eq not_less
        bit_word_of_int_iff)
qed

lemma le_word_le_bytes:
  "0 \<le> n \<Longrightarrow> n < 256 ^ k \<Longrightarrow> (le_word (le_bytes k n) :: 'a::len word) = word_of_int n"
proof (induction k arbitrary: n)
  case 0
  then have "n = 0" by simp
  then show ?case by simp
next
  case (Suc k)
  have "n div 256 < 256 ^ k" using Suc.prems by simp
  then show ?case using Suc by (simp add: le_word_step)
qed

lemma reads_u8: "0 \<le> n \<Longrightarrow> n < 256 \<Longrightarrow> reads rd_u8 (le_bytes 1 n) (word_of_int n)"
  by (simp add: reads_def rd_u8_def)

lemma reads_u16:
  assumes "0 \<le> n" "n < 256 ^ 2"
  shows "reads rd_u16le (le_bytes 2 n) (word_of_int n)"
proof -
  have "(ucast (a :: 8 word) :: 16 word) OR push_bit 8 (ucast b) = le_word [a, b]" for a b
    by simp
  moreover obtain a b where "le_bytes 2 n = [a, b]" by (simp add: numeral_eq_Suc)
  ultimately show ?thesis
    using le_word_le_bytes [OF assms, where 'a = 16] by (simp add: reads_def rd_u16le_def)
qed

lemma reads_u32:
  assumes "0 \<le> n" "n < 256 ^ 4"
  shows "reads rd_u32le (le_bytes 4 n) (word_of_int n)"
proof -
  have "(ucast (a :: 8 word) :: 32 word) OR push_bit 8 (ucast b) OR push_bit 16 (ucast c) OR
      push_bit 24 (ucast d) = le_word [a, b, c, d]" for a b c d
    by (simp add: push_bit_or ac_simps)
  moreover obtain a b c d where "le_bytes 4 n = [a, b, c, d]" by (simp add: numeral_eq_Suc)
  ultimately show ?thesis
    using le_word_le_bytes [OF assms, where 'a = 32] by (simp add: reads_def rd_u32le_def)
qed

lemma reads_u64:
  assumes "0 \<le> n" "n < 256 ^ 8"
  shows "reads rd_u64le (le_bytes 8 n) (word_of_int n)"
proof -
  obtain a b c d e f g h where bs: "le_bytes 8 n = [a, b, c, d, e, f, g, h]"
    by (simp add: numeral_eq_Suc)
  have "fold (\<lambda>i v. v OR push_bit (8 * i) (ucast (([a, b, c, d, e, f, g, h] @ rest) ! i))) [0 ..< 8] 0
      = (le_word [a, b, c, d, e, f, g, h] :: 64 word)" for rest
    by (simp add: upt_rec push_bit_or ac_simps)
  then show ?thesis
    using le_word_le_bytes [OF assms, where 'a = 64] bs by (simp add: reads_def rd_u64le_def)
qed

lemma pack_uint_Inr: "pack_uint k n = Inr bs \<longleftrightarrow> 0 \<le> n \<and> n < 256 ^ k \<and> bs = le_bytes k n"
  by (auto simp: pack_uint_def)

lemma pack_fields_simps [simp]:
  "pack_fields [] = Inr []"
  "pack_fields (Inl e # fs) = Inl e"
  "pack_fields (Inr bs # fs) = map_sum id ((@) bs) (pack_fields fs)"
  by (auto simp: pack_fields_def map_sum_def split: sum.splits)

lemma pack_fields_Cons_Inr:
  "pack_fields (f # fs) = Inr bs \<longleftrightarrow> (\<exists>b c. f = Inr b \<and> pack_fields fs = Inr c \<and> bs = b @ c)"
  by (cases f; cases "pack_fields fs") auto

lemma pack_fields_Nil_Inr: "pack_fields [] = Inr bs \<longleftrightarrow> bs = []"
  by auto

lemmas pack_fields_Inr = pack_fields_Cons_Inr pack_fields_Nil_Inr

lemma reads_packed:
  "pack_uint 1 n = Inr b \<Longrightarrow> reads (f (word_of_int n)) bs y \<Longrightarrow> reads (andThen rd_u8 f) (b @ bs) y"
  "pack_uint 2 n = Inr b \<Longrightarrow> reads (g (word_of_int n)) bs y \<Longrightarrow> reads (andThen rd_u16le g) (b @ bs) y"
  "pack_uint 4 n = Inr b \<Longrightarrow> reads (h (word_of_int n)) bs y \<Longrightarrow> reads (andThen rd_u32le h) (b @ bs) y"
  "pack_uint 8 n = Inr b \<Longrightarrow> reads (k (word_of_int n)) bs y \<Longrightarrow> reads (andThen rd_u64le k) (b @ bs) y"
proof -
  show "pack_uint 1 n = Inr b \<Longrightarrow> reads (f (word_of_int n)) bs y \<Longrightarrow> reads (andThen rd_u8 f) (b @ bs) y"
    by (simp add: pack_uint_Inr reads_def rd_u8_def run_simps)
  show "pack_uint 2 n = Inr b \<Longrightarrow> reads (g (word_of_int n)) bs y \<Longrightarrow> reads (andThen rd_u16le g) (b @ bs) y"
    using reads_u16 [of n] by (auto simp: pack_uint_Inr intro: reads_andThen)
  show "pack_uint 4 n = Inr b \<Longrightarrow> reads (h (word_of_int n)) bs y \<Longrightarrow> reads (andThen rd_u32le h) (b @ bs) y"
    using reads_u32 [of n] by (auto simp: pack_uint_Inr intro: reads_andThen)
  show "pack_uint 8 n = Inr b \<Longrightarrow> reads (k (word_of_int n)) bs y \<Longrightarrow> reads (andThen rd_u64le k) (b @ bs) y"
    using reads_u64 [of n] by (auto simp: pack_uint_Inr intro: reads_andThen)
qed

lemma reads_packed_4s:
  "pack_4s a = Inr b \<Longrightarrow> length a = 4 \<Longrightarrow> reads (f a) bs y \<Longrightarrow> reads (andThen rd_be32 f) (b @ bs) y"
  by (auto simp: pack_4s_def intro: reads_andThen reads_be32)

section \<open>Addresses and deny entries\<close>

text \<open>\<open>IPv4Address.packed\<close>: the address in network byte order.\<close>

definition packed :: "nat \<Rightarrow> bytes" where
  "packed a = rev (le_bytes 4 (int a))"

lemma length_packed [simp]: "length (packed a) = 4"
  by (simp add: packed_def)

lemma ntohl_le_word: "length bs = 4 \<Longrightarrow> ntohl bs = le_word (rev bs)"
  by (auto simp: ntohl_def length_Suc_conv numeral_eq_Suc push_bit_or ac_simps)

lemma ntohl_packed: "a < 2 ^ 32 \<Longrightarrow> ntohl (packed a) = of_nat a"
proof -
  assume "a < 2 ^ 32"
  then have "int a < 256 ^ 4" by simp
  then show ?thesis
    using le_word_le_bytes [of "int a" 4, where 'a = 32] unfolding packed_def
    by (subst ntohl_le_word) simp_all
qed

lemma packed_inject: "a < 2 ^ 32 \<Longrightarrow> b < 2 ^ 32 \<Longrightarrow> packed a = packed b \<longleftrightarrow> a = b"
proof
  assume *: "a < 2 ^ 32" "b < 2 ^ 32" "packed a = packed b"
  have "(of_nat a :: 32 word) = ntohl (packed b)"
    unfolding *(3) [symmetric] by (rule ntohl_packed [OF *(1), symmetric])
  then have "(of_nat a :: 32 word) = of_nat b" by (simp only: ntohl_packed [OF *(2)])
  then have "take_bit 32 a = take_bit 32 b" by (simp add: word_of_nat_eq_iff)
  then show "a = b" using *(1,2) by (simp only: take_bit_nat_eq_self)
qed simp

text \<open>Four bytes in network order are an address, and their order is its order.\<close>

definition be_value :: "8 word \<Rightarrow> 8 word \<Rightarrow> 8 word \<Rightarrow> 8 word \<Rightarrow> nat" where
  "be_value a b c d = ((unat a * 256 + unat b) * 256 + unat c) * 256 + unat d"

lemma unat_byte: "unat (b :: 8 word) < 256"
  using unsigned_less [of b, where 'a = nat] by simp

lemma be_value_less: "be_value a b c d < 2 ^ 32"
  using unat_byte [of a] unat_byte [of b] unat_byte [of c] unat_byte [of d] by (simp add: be_value_def)

lemma le_bytes_step: "le_bytes (Suc k) (int (x * 256 + unat d)) = d # le_bytes k (int x)"
proof -
  have "int (x * 256 + unat d) div 256 = int ((x * 256 + unat d) div 256)" by (simp add: zdiv_int)
  also have "(x * 256 + unat d) div 256 = x" using unat_byte [of d] by simp
  finally have "int (x * 256 + unat d) div 256 = int x" .
  moreover have "(word_of_int (int (x * 256 + unat d)) :: 8 word) = of_nat x * 256 + d" by simp
  moreover have "(256 :: 8 word) = 0" by simp
  ultimately show ?thesis by (simp only: le_bytes.simps mult_zero_right add_0)
qed

lemma packed_be_value: "packed (be_value a b c d) = [a, b, c, d]"
proof -
  have "le_bytes (Suc 0) (int (unat a)) = [a]" using le_bytes_step [of 0 0 a] by simp
  moreover have "(4 :: nat) = Suc (Suc (Suc (Suc 0)))" by simp
  ultimately have "le_bytes 4 (int (be_value a b c d)) = [d, c, b, a]"
    unfolding be_value_def by (simp only: le_bytes_step)
  then show ?thesis by (simp add: packed_def)
qed

lemma four_bytes: "length bs = 4 \<Longrightarrow> \<exists>a b c d. bs = [a, b, c, d]"
  by (auto simp: length_Suc_conv numeral_eq_Suc)

lemma packed_less:
  assumes "v < 2 ^ 32" "w < 2 ^ 32"
  shows "packed v < packed w \<longleftrightarrow> v < w"
proof -
  obtain a b c d where v: "packed v = [a, b, c, d]" using four_bytes [of "packed v"] by auto
  obtain a' b' c' d' where w: "packed w = [a', b', c', d']" using four_bytes [of "packed w"] by auto
  have "v = be_value a b c d" "w = be_value a' b' c' d'"
    using packed_inject [OF assms(1) be_value_less] packed_inject [OF assms(2) be_value_less] v w packed_be_value by metis+
  moreover have "unat a < 256" "unat b < 256" "unat c < 256" "unat d < 256" "unat a' < 256" "unat b' < 256" "unat c' < 256" "unat d' < 256"
    by (rule unat_byte)+
  ultimately show ?thesis
    unfolding v w by (simp add: be_value_def word_less_nat_alt word_unat_eq_iff) linarith
qed

lemma not_netmask: "NOT (push_bit k (- 1) :: 32 word) = mask k"
  by (rule bit_word_eqI) (auto simp: bit_not_iff bit_push_bit_iff bit_mask_iff)

lemma valid_net_entry:
  assumes "valid_net n"
  shows "global_entry_valid \<lparr> cs_prefixlen = of_nat (prefixlen n), cs_addr = packed (net_addr n) \<rparr>"
proof -
  have p: "prefixlen n \<le> 32" and a: "net_addr n < 2 ^ 32" and d: "net_addr n mod 2 ^ (32 - prefixlen n) = 0"
    using assms by (simp_all add: valid_net_def net_size_def)
  have up: "unat (of_nat (prefixlen n) :: 32 word) = prefixlen n"
    using p by (simp add: unat_of_nat take_bit_nat_eq_self)
  have "take_bit (32 - prefixlen n) (net_addr n) = 0" using d by (simp only: take_bit_eq_mod)
  then have "take_bit (32 - prefixlen n) (of_nat (net_addr n) :: 32 word) = 0"
    by (simp only: take_bit_of_nat semiring_1_class.of_nat_0)
  then have m: "(of_nat (net_addr n) :: 32 word) AND mask (32 - prefixlen n) = 0"
    by (simp only: take_bit_eq_mask)
  show ?thesis
  proof (cases "prefixlen n = 0")
    case True
    then have "net_addr n = 0" using a d by simp
    then show ?thesis using True ntohl_packed [OF a] by (simp add: global_entry_valid_def)
  next
    case False
    then have "(of_nat (prefixlen n) :: 32 word) \<noteq> 0" using up by auto
    then show ?thesis
      using p up m by (simp add: global_entry_valid_def ntohl_packed [OF a] not_netmask del: of_nat_eq_0_iff)
  qed
qed

lemma reads_source:
  assumes "pack_fields [pack_uint 4 p, pack_4s a] = Inr bs" "length a = 4"
  shows "reads rd_source bs \<lparr> cs_prefixlen = word_of_int p, cs_addr = a \<rparr>"
  using assms(1) unfolding pack_fields_Inr rd_source_def
  by (elim exE conjE, hypsubst) (auto intro!: reads_packed reads_packed_4s assms(2) reads_ret simp del: append_Nil2)

lemma reads_global_entries:
  assumes "list_all2 (reads rd_source) bss es" "\<forall>e\<in>set es. global_entry_valid e"
    "successively global_entries_sorted (case previous of None \<Rightarrow> es | Some p \<Rightarrow> p # es)"
    "n = length es"
  shows "reads (rd_global_entries n previous) (concat bss) es"
  using assms
proof (induction arbitrary: previous n rule: list_all2_induct)
  case (Cons bs bss e es)
  then have "reads (rd_global_entries (length es) (Some e)) (concat bss) es"
    by (auto split: option.splits simp: successively_Cons)
  with Cons.hyps(1) Cons.prems show ?case
    by (auto simp: reads_def run_simps split: option.splits)
qed (simp add: reads_def)

lemma reads_parse_snapshot:
  assumes "reads rd_node bs node" "16 \<le> length bs" "length bs \<le> APPLY_MAX_BYTES"
  shows "parse_snapshot bs = Some node"
proof -
  have "rd_node bs = (Inr node, [])" using assms(1) unfolding reads_def by (metis append_Nil2)
  then show ?thesis using assms(2,3) by (simp add: parse_snapshot_def)
qed

lemma pack_fields_total: "(\<And>f. f \<in> set fs \<Longrightarrow> \<exists>b. f = Inr b) \<Longrightarrow> \<exists>bs. pack_fields fs = Inr bs"
proof (induction fs)
  case (Cons f fs)
  then obtain b c where "f = Inr b" "pack_fields fs = Inr c" by fastforce
  then show ?case by (auto simp: pack_fields_Inr)
qed simp

lemma pack_uint_total: "0 \<le> n \<Longrightarrow> n < 256 ^ k \<Longrightarrow> \<exists>b. pack_uint k n = Inr b"
  by (simp add: pack_uint_def)

lemma pack_fields_fails: "Inl e \<in> set fs \<Longrightarrow> \<exists>e. pack_fields fs = Inl e"
proof (induction fs)
  case (Cons f fs)
  then show ?case by (cases f) (auto split: sum.splits)
qed simp

lemma length_pack_uint: "pack_uint k n = Inr b \<Longrightarrow> length b = k"
  by (auto simp: pack_uint_Inr)

lemma length_pack_4s: "pack_4s a = Inr b \<Longrightarrow> length b = length a"
  by (simp add: pack_4s_def)

lemma reads_services:
  assumes "reads (rd_times n parse_service) bs services" "n \<le> APPLY_MAX_SERVICES"
    "pack_uint 4 4 = Inr b" "pack_uint 4 1 = Inr c" "pack_uint 4 (int n) = Inr d"
  shows "reads rd_node (SNAPSHOT_MAGIC @ b @ c @ d @ bs) \<lparr> no_schema_version = 4, no_snapshot_kind = 1,
    no_services = services, no_global_revision = 0, no_global_entries = [] \<rparr>"
proof -
  have n: "unat (word_of_int (int n) :: 32 word) = n"
    using assms(2) by (simp add: APPLY_MAX_SERVICES_def unat_of_nat take_bit_nat_eq_self)
  have "length SNAPSHOT_MAGIC = 8" by (simp add: SNAPSHOT_MAGIC_def)
  then show ?thesis
    unfolding rd_node_def
    apply (rule reads_andThen [OF reads_bytes])
    apply (rule reads_ensure, rule refl)
    apply (rule reads_packed(3) [OF assms(3)], rule reads_ensure, simp)
    apply (rule reads_packed(3) [OF assms(4)])
    apply (simp only: Let_def of_int_1 simp_thms if_True)
    apply (rule reads_packed(3) [OF assms(5)], rule reads_ensure, simp only: n assms(2), unfold n)
    apply (rule reads_andThen [OF assms(1), where bs' = "[]", simplified], rule reads_ret, simp)
    done
qed

lemma reads_global_deny:
  assumes "reads (rd_global_entries n None) bs entries" "n \<le> GLOBAL_DENY_MAX_ENTRIES" "length bs = 8 * n"
    "pack_uint 4 4 = Inr b" "pack_uint 4 2 = Inr c" "pack_uint 8 r = Inr d" "pack_uint 4 (int n) = Inr e"
  shows "reads rd_node (SNAPSHOT_MAGIC @ b @ c @ d @ e @ bs) \<lparr> no_schema_version = 4, no_snapshot_kind = 2,
    no_services = [], no_global_revision = word_of_int r, no_global_entries = entries \<rparr>"
proof -
  have n: "unat (word_of_int (int n) :: 32 word) = n"
    using assms(2) by (simp add: GLOBAL_DENY_MAX_ENTRIES_def unat_of_nat take_bit_nat_eq_self)
  have deny: "reads parse_global_deny (d @ e @ bs) (word_of_int r, entries)"
    unfolding parse_global_deny_def
    apply (rule reads_packed(4) [OF assms(6)], rule reads_packed(3) [OF assms(7)])
    apply (rule reads_ensure, simp only: n assms(2), unfold n)
    using assms(1,3) apply (simp add: reads_def run_simps)
    done
  have "length SNAPSHOT_MAGIC = 8" by (simp add: SNAPSHOT_MAGIC_def)
  then show ?thesis
    unfolding rd_node_def
    apply (rule reads_andThen [OF reads_bytes])
    apply (rule reads_ensure, rule refl)
    apply (rule reads_packed(3) [OF assms(4)], rule reads_ensure, simp)
    apply (rule reads_packed(3) [OF assms(5)])
    apply (simp only: Let_def)
    apply simp
    apply (rule reads_andThen [OF deny, where bs' = "[]", simplified], simp, rule reads_ret, simp)
    done
qed

section \<open>What the reader accepts\<close>

lemma wp_any: "(\<And>x s'. Q x s') \<Longrightarrow> wp m Q (\<lambda>_ _. True) s"
  by (auto simp: wp_def split: sum.splits prod.splits)

lemmas wp_rd_uint = wp_any [where m = rd_u8] wp_any [where m = rd_u16le] wp_any [where m = rd_u32le]
  wp_any [where m = rd_u64le]

lemma wp_rd_times:
  assumes "\<And>s. wp m (\<lambda>x _. P x) (\<lambda>_ _. True) s"
  shows "wp (rd_times n m) (\<lambda>xs _. length xs = n \<and> (\<forall>x\<in>set xs. P x)) (\<lambda>_ _. True) s"
proof (induction n arbitrary: s)
  case (Suc n)
  have "rd_times (Suc n) m = andThen m (\<lambda>x. andThen (rd_times n m) (\<lambda>xs. ret (x # xs)))"
    by (rule ext) simp
  moreover have "wp (rd_times n m) (\<lambda>xs. wp (ret (x # xs)) (\<lambda>xs _. length xs = Suc n \<and> (\<forall>x\<in>set xs. P x)) (\<lambda>_ _. True))
      (\<lambda>_ _. True) s'" if "P x" for x s'
    by (rule wp_mono [OF Suc.IH]) (use that in \<open>auto simp: wp_simps\<close>)
  ultimately show ?case
    unfolding wp_andThen by (simp add: wp_andThen) (rule wp_mono [OF assms], simp_all)
qed (simp add: wp_def)

definition source_list_ok :: "cfg_source list \<Rightarrow> bool" where
  "source_list_ok es \<longleftrightarrow> length es \<le> APPLY_MAX_LIST_ENTRIES \<and> (\<forall>e\<in>set es. length (cs_addr e) = 4)"

definition cfg_service_ok :: "cfg_service \<Rightarrow> bool" where
  "cfg_service_ok c \<longleftrightarrow> cf_reserved0 c = 0 \<and> length (cf_dst_addr c) = 4 \<and>
     length (cf_rules c) \<le> RULE_MAX \<and> source_list_ok (cf_wl c)"

lemma wp_rd_be32: "wp rd_be32 (\<lambda>a _. length a = 4) (\<lambda>_ _. True) s"
  by (simp add: wp_def rd_be32_def rd_bytes_def)

lemma wp_rd_source: "wp rd_source (\<lambda>e _. length (cs_addr e) = 4) (\<lambda>_ _. True) s"
  unfolding rd_source_def wp_andThen
  by (rule wp_any) (rule wp_mono [OF wp_rd_be32], simp_all add: wp_simps)

lemma wp_parse_source_list: "wp parse_source_list (\<lambda>es _. source_list_ok es) (\<lambda>_ _. True) s"
  unfolding parse_source_list_def wp_andThen
  by (rule wp_any) (auto simp: wp_simps source_list_ok_def intro!: wp_mono [OF wp_rd_times [OF wp_rd_source]])

lemma wp_parse_service: "wp parse_service (\<lambda>c _. cfg_service_ok c) (\<lambda>_ _. True) s"
proof -
  have wl: "wp parse_source_list (\<lambda>wl s'. P wl) (\<lambda>_ _. True) s" if "\<And>wl. source_list_ok wl \<Longrightarrow> P wl" for P s
    by (rule wp_mono [OF wp_parse_source_list]) (use that in auto)
  have rules: "wp (rd_times n rd_rule) Q (\<lambda>_ _. True) s" if "\<And>rules s'. length rules = n \<Longrightarrow> Q rules s'" for n Q s
    by (rule wp_mono [OF wp_rd_times [where P = "\<lambda>_. True"]]) (auto intro: wp_any that)
  show ?thesis
    unfolding parse_service_def wp_andThen
    apply (rule wp_rd_uint, rule wp_mono [OF wp_rd_be32], (rule wp_rd_uint)+)
     apply (auto simp: wp_simps cfg_service_ok_def intro!: rules wl)
    done
qed

lemma wp_rd_global_entries:
  "wp (rd_global_entries n previous) (\<lambda>es s'. length es = n \<and> length s = 8 * n + length s' \<and>
     (\<forall>e\<in>set es. global_entry_valid e \<and> length (cs_addr e) = 4) \<and>
     successively global_entries_sorted (case previous of None \<Rightarrow> es | Some p \<Rightarrow> p # es)) (\<lambda>_ _. True) s"
proof (induction n arbitrary: previous s)
  case (Suc n)
  have "rd_global_entries (Suc n) previous =
     andThen rd_source (\<lambda>e. andThen (ensure (global_entry_valid e) ()) (\<lambda>_.
     andThen (ensure (case previous of None \<Rightarrow> True | Some p \<Rightarrow> global_entries_sorted p e) ()) (\<lambda>_.
     andThen (rd_global_entries n (Some e)) (\<lambda>es. ret (e # es)))))"
    by (rule ext) simp
  moreover have src: "wp rd_source Q (\<lambda>_ _. True) s" if "\<And>e s'. length (cs_addr e) = 4 \<Longrightarrow> length s = 8 + length s' \<Longrightarrow> Q e s'" for Q s
    by (auto simp: rd_source_def rd_be32_def rd_bytes_def rd_u32le_def wp_simps wp_def run_simps intro!: that split: if_splits)
  ultimately show ?case
    by (auto simp: wp_andThen wp_ensure wp_ret successively_Cons split: option.splits
        intro!: src wp_mono [OF Suc.IH])
qed (simp add: wp_def split: option.splits)

lemma wp_rd_sized:
  "(\<And>x s'. length s = 4 + length s' \<Longrightarrow> Q x s') \<Longrightarrow> wp rd_u32le Q (\<lambda>_ _. True) s"
  "(\<And>x s'. length s = 8 + length s' \<Longrightarrow> R x s') \<Longrightarrow> wp rd_u64le R (\<lambda>_ _. True) s"
  "(\<And>s'. length s = k + length s' \<Longrightarrow> B (take k s) s') \<Longrightarrow> wp (rd_bytes k) B (\<lambda>_ _. True) s"
  by (auto simp: wp_def rd_u32le_def rd_u64le_def rd_bytes_def)

lemma wp_rd_node:
  "wp rd_node (\<lambda>n s'. take 8 s = SNAPSHOT_MAGIC \<and> no_schema_version n = 4 \<and>
     (no_snapshot_kind n = 1 \<and> no_global_entries n = [] \<and> length (no_services n) \<le> APPLY_MAX_SERVICES \<and>
        (\<forall>c\<in>set (no_services n). cfg_service_ok c) \<or>
      no_snapshot_kind n = 2 \<and> no_services n = [] \<and> length (no_global_entries n) \<le> GLOBAL_DENY_MAX_ENTRIES \<and>
        length s = 28 + 8 * length (no_global_entries n) + length s' \<and>
        (\<forall>e\<in>set (no_global_entries n). global_entry_valid e \<and> length (cs_addr e) = 4) \<and>
        successively global_entries_sorted (no_global_entries n))) (\<lambda>_ _. True) s"
proof -
  have services: "wp (rd_times n parse_service) Q (\<lambda>_ _. True) s"
    if "\<And>cs s'. length cs = n \<Longrightarrow> \<forall>c\<in>set cs. cfg_service_ok c \<Longrightarrow> Q cs s'" for n Q s
    by (rule wp_mono [OF wp_rd_times [OF wp_parse_service]]) (auto intro: that)
  have entries: "wp (rd_global_entries n None) Q (\<lambda>_ _. True) s"
    if "\<And>es s'. length es = n \<Longrightarrow> length s = 8 * n + length s' \<Longrightarrow> \<forall>e\<in>set es. global_entry_valid e \<and> length (cs_addr e) = 4 \<Longrightarrow>
      successively global_entries_sorted es \<Longrightarrow> Q es s'" for n Q s
    by (rule wp_mono [OF wp_rd_global_entries]) (auto intro: that)
  show ?thesis
    unfolding rd_node_def parse_global_deny_def
    by (auto simp: wp_simps intro!: wp_rd_sized services entries)
qed

end
