(* ===== verification/Applier.thy ===== *)
theory Applier
  imports Lists DenyConvergence Wire
begin

text \<open>
  From the tables to the apply helper, \<open>app/worker/applier.py\<close> and the service
  handler of \<open>app/worker/handlers.py\<close>: the configuration of a service and of the
  node, their serialization, and the two appliers.  The helper process is a
  parameter, a function from the snapshot file to the outcome of the process;
  what it reports on its standard streams is taken as decoded.  The lemmas show
  that the helper's reader (Wire) gets back exactly what the tables say, and
  how large a snapshot is.
\<close>

section \<open>The configuration of a service\<close>

record ServiceConfig =
  sc_service_id :: uuid
  sc_dp_id :: int
  sc_version :: int
  sc_name :: string
  sc_cidr_or_ip :: ustr
  sc_mode :: ServiceMode
  sc_enabled :: bool
  sc_vip_pps :: "int option"
  sc_vip_bps :: "int option"
  sc_service_pps :: "int option"
  sc_service_bps :: "int option"
  sc_plan :: "service_plan option"
  sc_rules :: "allow_rule list"
  sc_whitelist :: "whitelist_entry list"

text \<open>A network column reads as text; the entries are sorted by that text.\<close>

definition source_text :: "whitelist_entry \<Rightarrow> ustr" where
  "source_text e = str_net (wl_source_cidr e)"

definition service_config :: "db \<Rightarrow> protected_service \<Rightarrow> ServiceConfig" where
  "service_config db service =
     \<lparr> sc_service_id = sv_id service, sc_dp_id = sv_dp_id service, sc_version = sv_version service,
        sc_name = sv_name service, sc_cidr_or_ip = str_net (sv_cidr_or_ip service),
        sc_mode = sv_mode service, sc_enabled = sv_enabled service, sc_vip_pps = sv_vip_pps service,
        sc_vip_bps = sv_vip_bps service, sc_service_pps = sv_service_pps service,
        sc_service_bps = sv_service_bps service, sc_plan = get_plan db (sv_id service),
        sc_rules = sort_key ru_priority
          (filter (\<lambda>r. ru_service_id r = sv_id service) (allow_rules db)),
        sc_whitelist = sort_key source_text
          (filter (\<lambda>e. wl_service_id e = sv_id service) (whitelist_entries db)) \<rparr>"

definition load_service_config :: "db \<Rightarrow> uuid \<Rightarrow> ServiceConfig option" where
  "load_service_config db service_id =
     map_option (service_config db) (get_service_row db service_id)"

definition load_node_config :: "db \<Rightarrow> ServiceConfig list" where
  "load_node_config db =
     map (service_config db) (sort_key sv_dp_id (filter sv_enabled (protected_services db)))"

section \<open>Serialization\<close>

definition network_error :: exc where
  "network_error = ValueError ''does not appear to be an IPv4 or IPv6 network''"

definition cidr_parts :: "ustr \<Rightarrow> exc + int \<times> bytes" where
  "cidr_parts cidr =
     (case ip_network cidr False of
        Inl _ \<Rightarrow> Inl network_error
      | Inr (V6 _ _) \<Rightarrow> Inl (ValueError (''apply snapshots require IPv4 CIDRs: '' @ chars cidr))
      | Inr (V4 n) \<Rightarrow> Inr (int (prefixlen n), packed (net_addr n)))"

definition strict_ipv4_cidr_parts :: "ustr \<Rightarrow> exc + int \<times> bytes" where
  "strict_ipv4_cidr_parts cidr =
     (case ip_network cidr True of
        Inl _ \<Rightarrow> Inl network_error
      | Inr (V6 _ _) \<Rightarrow> Inl (ValueError (''global deny snapshots require IPv4 CIDRs: '' @ chars cidr))
      | Inr (V4 n) \<Rightarrow> Inr (int (prefixlen n), packed (net_addr n)))"

text \<open>\<open>int(x)\<close> of a decimal cuts towards zero.\<close>

definition int_of_decimal :: "rat \<Rightarrow> int" where
  "int_of_decimal x = (if x < 0 then \<lceil>x\<rceil> else \<lfloor>x\<rfloor>)"

definition plan_rates :: "service_plan option \<Rightarrow> int \<times> int" where
  "plan_rates plan =
     (case plan of
        None \<Rightarrow> (0, 0)
      | Some p \<Rightarrow> (int_of_decimal (pl_committed_clean_gbps p * 1000000000),
                  int_of_decimal (pl_ceiling_clean_gbps p * 1000000000)))"

definition vip_flags :: "ServiceConfig \<Rightarrow> int" where
  "vip_flags service =
     (if sc_vip_pps service \<noteq> None then 1 else 0) OR (if sc_vip_bps service \<noteq> None then 2 else 0)"

definition svc_rl_flags :: "ServiceConfig \<Rightarrow> int" where
  "svc_rl_flags service =
     (if sc_service_pps service \<noteq> None then 1 else 0) OR (if sc_service_bps service \<noteq> None then 2 else 0)"

definition rule_flags :: "allow_rule \<Rightarrow> int" where
  "rule_flags rule = (if ru_enabled rule then 1 else 0)"

definition list_flags :: "(int \<times> bytes) list \<Rightarrow> bool \<Rightarrow> int" where
  "list_flags entries active =
     (if \<not> active then 0 else 1 OR (if list_ex (\<lambda>(prefix, _). prefix < 24) entries then 2 else 0))"

definition append_source_list :: "(int \<times> bytes) list \<Rightarrow> exc + bytes" where
  "append_source_list entries =
     pack_fields [pack_uint 4 (int (length entries)),
       pack_fields (map (\<lambda>(prefixlen, address). pack_fields [pack_uint 4 prefixlen, pack_4s address]) entries)]"

definition protocol_number :: "Protocol \<Rightarrow> int" where
  "protocol_number p =
     (case p of Protocol_any \<Rightarrow> 0 | Protocol_icmp \<Rightarrow> 1 | Protocol_tcp \<Rightarrow> 6 | Protocol_udp \<Rightarrow> 17)"

definition or_int :: "int option \<Rightarrow> int \<Rightarrow> int" where
  "or_int x d = (case x of None \<Rightarrow> d | Some n \<Rightarrow> n)"

definition pack_rule :: "allow_rule \<Rightarrow> exc + bytes" where
  "pack_rule rule =
     pack_fields [pack_uint 2 (or_int (ru_src_port_lo rule) 0), pack_uint 2 (or_int (ru_src_port_hi rule) 65535),
       pack_uint 2 (or_int (ru_dst_port_lo rule) 0), pack_uint 2 (or_int (ru_dst_port_hi rule) 65535),
       pack_uint 1 (protocol_number (ru_protocol rule)), pack_uint 1 (rule_flags rule)]"

definition serialize_service :: "ServiceConfig \<Rightarrow> exc + bytes" where
  "serialize_service service =
     (case cidr_parts (sc_cidr_or_ip service) of
        Inl e \<Rightarrow> Inl e
      | Inr (dst_prefixlen, dst_addr) \<Rightarrow>
     (case traverse (\<lambda>entry. cidr_parts (source_text entry)) (sc_whitelist service) of
        Inl e \<Rightarrow> Inl e
      | Inr whitelist \<Rightarrow>
     (let (committed_bps, ceiling_bps) = plan_rates (sc_plan service) in
      pack_fields
       [pack_uint 4 dst_prefixlen, pack_4s dst_addr, pack_uint 4 (sc_dp_id service),
        pack_uint 1 (of_bool (sc_enabled service)),
        pack_uint 1 (list_flags whitelist (whitelist \<noteq> [])), pack_uint 1 0,
        pack_uint 8 committed_bps, pack_uint 8 ceiling_bps,
        pack_uint 8 (or_int (sc_vip_pps service) 0), pack_uint 8 (or_int (sc_vip_bps service) 0),
        pack_uint 1 (vip_flags service),
        pack_uint 8 (or_int (sc_service_pps service) 0), pack_uint 8 (or_int (sc_service_bps service) 0),
        pack_uint 1 (svc_rl_flags service), pack_uint 2 (int (length (sc_rules service))),
        pack_fields (map pack_rule (sc_rules service)),
        append_source_list whitelist])))"

definition serialize_node_snapshot :: "ServiceConfig list \<Rightarrow> exc + bytes" where
  "serialize_node_snapshot node =
     pack_fields [Inr SNAPSHOT_MAGIC, pack_uint 4 4, pack_uint 4 1, pack_uint 4 (int (length node)),
       pack_fields (map serialize_service node)]"

definition serialize_global_snapshot :: "GlobalDenySnapshot \<Rightarrow> exc + bytes" where
  "serialize_global_snapshot snapshot =
     (if MAX_GLOBAL_DENY_ENTRIES < length (sn_cidrs snapshot)
      then Inl (ValueError ''Global deny entry limit is 1048576'')
      else
     (case traverse strict_ipv4_cidr_parts (sn_cidrs snapshot) of
        Inl e \<Rightarrow> Inl e
      | Inr parts \<Rightarrow>
     (let entries = sort parts in
      pack_fields [Inr SNAPSHOT_MAGIC, pack_uint 4 4, pack_uint 4 2, pack_uint 8 (sn_revision snapshot),
        pack_uint 4 (int (length entries)),
        pack_fields (map (\<lambda>(prefixlen, address). pack_fields [pack_uint 4 prefixlen, pack_4s address]) entries)])))"

section \<open>The appliers\<close>

text \<open>
  What became of the helper process: it did not start, ran out of time, or
  ended with a status.  Its standard output is given as the document that
  \<open>json.loads\<close> makes of it, if any.
\<close>

datatype helper_outcome =
    Not_started string
  | Timed_out string
  | Exited int "json option" string

definition run_helper :: "helper_outcome \<Rightarrow> exc + json option" where
  "run_helper outcome =
     (case outcome of
        Not_started exc \<Rightarrow> Inl (ApplyError (''unable to start xdpgw-apply: '' @ exc))
      | Timed_out detail \<Rightarrow>
          Inl (ApplyError (if detail = '''' then ''xdpgw-apply timed out''
            else ''xdpgw-apply timed out: '' @ detail))
      | Exited returncode stdout detail \<Rightarrow>
          if returncode \<noteq> 0
          then Inl (ApplyError (if detail = '''' then ''exit status '' @ str_int returncode else detail))
          else Inr stdout)"

text \<open>\<open>DoubleBufferApplier.apply\<close>: the whole node is loaded, whatever service is being applied.\<close>

definition double_buffer_apply :: "(bytes \<Rightarrow> helper_outcome) \<Rightarrow> ServiceConfig \<Rightarrow> unit dbprog" where
  "double_buffer_apply helper config =
     andThen (gets load_node_config) (\<lambda>node.
     andThen (of_result (serialize_node_snapshot node)) (\<lambda>snapshot.
     andThen (of_result (run_helper (helper snapshot))) (\<lambda>_. ret ())))"

definition malformed_result :: exc where
  "malformed_result = ApplyError ''xdpgw-apply returned malformed global apply result''"

definition parse_global_apply_result :: "json option \<Rightarrow> exc + GlobalDenyApplyResult" where
  "parse_global_apply_result stdout =
     (case stdout of
        Some (JObj payload) \<Rightarrow>
          if fst ` set payload \<noteq> {''active_slot'', ''node_map_version''} then Inl malformed_result
          else
            (case (map_of payload ''active_slot'', map_of payload ''node_map_version'') of
               (Some (JInt active_slot), Some (JInt node_map_version)) \<Rightarrow>
                 if active_slot \<notin> {0, 1} \<or> node_map_version < 0 then Inl malformed_result
                 else Inr \<lparr> ga_active_slot = active_slot, ga_node_map_version = node_map_version \<rparr>
             | _ \<Rightarrow> Inl malformed_result)
      | _ \<Rightarrow> Inl malformed_result)"

definition apply_global :: "(bytes \<Rightarrow> helper_outcome) \<Rightarrow> GlobalDenySnapshot \<Rightarrow> exc + GlobalDenyApplyResult" where
  "apply_global helper snapshot =
     (case serialize_global_snapshot snapshot of
        Inl e \<Rightarrow> Inl e
      | Inr bs \<Rightarrow>
     (case run_helper (helper bs) of
        Inl e \<Rightarrow> Inl e
      | Inr stdout \<Rightarrow> parse_global_apply_result stdout))"

section \<open>The handler of service jobs\<close>

text \<open>
  The request to the next-hop lane is the handler's result; without a lane there
  is none.  A resolve request names the network address of the destination.
\<close>

datatype nexthop_request = Request_resolve int ip_net | Request_evict int

definition handle_service_update ::
  "(uuid \<Rightarrow> db \<Rightarrow> db) \<Rightarrow> bool \<Rightarrow> (ServiceConfig \<Rightarrow> unit dbprog) \<Rightarrow> agent_job \<Rightarrow> nexthop_request option dbprog" where
  "handle_service_update cb nexthop_lane apply_config job =
     andThen (session_scope cb (gets (\<lambda>db. Option.bind (jb_target_id job) (load_service_config db)))) (\<lambda>config.
     case config of
       None \<Rightarrow> raise (RuntimeError ''service missing'')
     | Some config \<Rightarrow>
     andThen (apply_config config) (\<lambda>_.
     if \<not> nexthop_lane then ret None
     else if sc_enabled config then
       (case ip_network (sc_cidr_or_ip config) False of
          Inl _ \<Rightarrow> raise network_error
        | Inr ip_net \<Rightarrow> ret (Some (Request_resolve (sc_dp_id config) ip_net)))
     else ret (Some (Request_evict (sc_dp_id config)))))"

section \<open>What the helper is meant to read\<close>

text \<open>
  The node as the tables describe it, in the types of the helper: written from
  the rows, without text and without bytes.
\<close>

definition wire_source :: "net \<Rightarrow> cfg_source" where
  "wire_source n = \<lparr> cs_prefixlen = of_nat (prefixlen n), cs_addr = packed (net_addr n) \<rparr>"

definition wire_rule :: "allow_rule \<Rightarrow> cfg_rule" where
  "wire_rule r = \<lparr> cr_src_lo = of_int (or_int (ru_src_port_lo r) 0), cr_src_hi = of_int (or_int (ru_src_port_hi r) 65535),
     cr_dst_lo = of_int (or_int (ru_dst_port_lo r) 0), cr_dst_hi = of_int (or_int (ru_dst_port_hi r) 65535),
     cr_proto = of_int (protocol_number (ru_protocol r)), cr_flags = of_bool (ru_enabled r) \<rparr>"

definition wire_flags :: "int option \<Rightarrow> int option \<Rightarrow> 8 word" where
  "wire_flags pps bps = (if pps = None then 0 else 1) + (if bps = None then 0 else 2)"

definition wire_service :: "db \<Rightarrow> protected_service \<Rightarrow> cfg_service" where
  "wire_service db s =
     (let wl = map wl_source_cidr (sort_key source_text (filter (\<lambda>e. wl_service_id e = sv_id s) (whitelist_entries db)))
      in \<lparr> cf_dst_prefixlen = of_nat (prefixlen (sv_cidr_or_ip s)), cf_dst_addr = packed (net_addr (sv_cidr_or_ip s)),
        cf_dp_id = of_int (sv_dp_id s), cf_enabled = of_bool (sv_enabled s),
        cf_wl_flags = (if wl = [] then 0 else if \<exists>n\<in>set wl. prefixlen n < 24 then 3 else 1), cf_reserved0 = 0,
        cf_committed_bps = of_int (fst (plan_rates (get_plan db (sv_id s)))),
        cf_ceiling_bps = of_int (snd (plan_rates (get_plan db (sv_id s)))),
        cf_vip_pps = of_int (or_int (sv_vip_pps s) 0), cf_vip_bps = of_int (or_int (sv_vip_bps s) 0),
        cf_vip_flags = wire_flags (sv_vip_pps s) (sv_vip_bps s),
        cf_service_pps = of_int (or_int (sv_service_pps s) 0), cf_service_bps = of_int (or_int (sv_service_bps s) 0),
        cf_svc_rl_flags = wire_flags (sv_service_pps s) (sv_service_bps s),
        cf_rules = map wire_rule (sort_key ru_priority (filter (\<lambda>r. ru_service_id r = sv_id s) (allow_rules db))),
        cf_wl = map wire_source wl \<rparr>)"

section \<open>Lemmas\<close>

lemma pack_map_Inr:
  "pack_fields (map f xs) = Inr bs \<Longrightarrow> \<exists>bss. bs = concat bss \<and> list_all2 (\<lambda>b x. f x = Inr b) bss xs"
proof (induction xs arbitrary: bs)
  case (Cons x xs)
  then obtain b c where "f x = Inr b" "pack_fields (map f xs) = Inr c" "bs = b @ c"
    by (auto simp: pack_fields_Cons_Inr)
  moreover obtain bss where "c = concat bss" "list_all2 (\<lambda>b x. f x = Inr b) bss xs"
    using Cons.IH [OF calculation(2)] by blast
  ultimately show ?case by (intro exI [of _ "b # bss"]) simp
qed auto

lemma reads_mapped:
  assumes "pack_fields (map f xs) = Inr bs" "n = length xs"
    "\<And>x b. x \<in> set xs \<Longrightarrow> f x = Inr b \<Longrightarrow> reads m b (g x)"
  shows "reads (rd_times n m) bs (map g xs)"
proof -
  obtain bss where bss: "bs = concat bss" "list_all2 (\<lambda>b x. f x = Inr b) bss xs"
    using pack_map_Inr [OF assms(1)] by blast
  have "list_all2 (reads m) bss (map g xs)"
    unfolding list_all2_map2 by (rule list.rel_mono_strong [OF bss(2)]) (simp add: assms(3))
  then show ?thesis unfolding bss(1) by (rule reads_times) (simp add: assms(2))
qed

lemma cidr_parts_net [simp]:
  "valid_net n \<Longrightarrow> cidr_parts (str_net n) = Inr (int (prefixlen n), packed (net_addr n))"
  "valid_net n \<Longrightarrow> strict_ipv4_cidr_parts (str_net n) = Inr (int (prefixlen n), packed (net_addr n))"
  by (simp_all add: cidr_parts_def strict_ipv4_cidr_parts_def ip_network_def ipv4_network_str_net)

lemma reads_rule: "pack_rule r = Inr bs \<Longrightarrow> reads rd_rule bs (wire_rule r)"
  unfolding pack_rule_def pack_fields_Inr rd_rule_def
  by (elim exE conjE, hypsubst, (erule reads_packed)+, rule reads_ret)
    (simp add: wire_rule_def rule_flags_def)

lemma reads_net_source:
  assumes "pack_fields [pack_uint 4 (int (prefixlen n)), pack_4s (packed (net_addr n))] = Inr bs"
  shows "reads rd_source bs (wire_source n)"
  using reads_source [OF assms] by (simp add: wire_source_def)

lemma traverse_sources:
  assumes "\<And>e. e \<in> set ws \<Longrightarrow> valid_net (wl_source_cidr e)"
  shows "traverse (\<lambda>entry. cidr_parts (source_text entry)) ws =
    Inr (map (\<lambda>n. (int (prefixlen n), packed (net_addr n))) (map wl_source_cidr ws))"
  using assms unfolding map_map o_def by (intro traverse_Inr) (simp add: source_text_def)

lemma reads_source_list:
  assumes "append_source_list (map (\<lambda>n. (int (prefixlen n), packed (net_addr n))) ns) = Inr bs"
    "length ns \<le> APPLY_MAX_LIST_ENTRIES"
  shows "reads parse_source_list bs (map wire_source ns)"
proof -
  let ?pack = "\<lambda>n. pack_fields [pack_uint 4 (int (prefixlen n)), pack_4s (packed (net_addr n))]"
  obtain b c where bc: "pack_uint 4 (int (length ns)) = Inr b" "pack_fields (map ?pack ns) = Inr c" "bs = b @ c"
    using assms(1) by (auto simp: append_source_list_def pack_fields_Inr o_def)
  have n: "unat (word_of_int (int (length ns)) :: 32 word) = length ns"
    using assms(2) by (simp add: APPLY_MAX_LIST_ENTRIES_def unat_of_nat take_bit_nat_eq_self)
  have "reads (rd_times (length ns) rd_source) c (map wire_source ns)"
    by (rule reads_mapped [OF bc(2)]) (auto intro: reads_net_source)
  then show ?thesis
    unfolding bc(3) parse_source_list_def
    by (intro reads_packed(3) [OF bc(1)] reads_ensure) (use assms(2) in \<open>simp_all only: n\<close>)
qed

definition service_rules :: "db \<Rightarrow> protected_service \<Rightarrow> allow_rule list" where
  "service_rules db s = filter (\<lambda>r. ru_service_id r = sv_id s) (allow_rules db)"

definition service_sources :: "db \<Rightarrow> protected_service \<Rightarrow> whitelist_entry list" where
  "service_sources db s = filter (\<lambda>e. wl_service_id e = sv_id s) (whitelist_entries db)"

lemma flag_words:
  "(word_of_int (vip_flags (service_config db s)) :: 8 word) = wire_flags (sv_vip_pps s) (sv_vip_bps s)"
  "(word_of_int (svc_rl_flags (service_config db s)) :: 8 word) = wire_flags (sv_service_pps s) (sv_service_bps s)"
  by (simp_all add: vip_flags_def svc_rl_flags_def service_config_def wire_flags_def)

lemma list_flag_word:
  "(word_of_int (list_flags (map (\<lambda>n. (int (prefixlen n), packed (net_addr n))) ns) (ns \<noteq> [])) :: 8 word) =
     (if ns = [] then 0 else if \<exists>n\<in>set ns. prefixlen n < 24 then 3 else 1)"
  by (auto simp: list_flags_def list_ex_iff)

abbreviation net_parts :: "net \<Rightarrow> int \<times> bytes" where
  "net_parts n \<equiv> (int (prefixlen n), packed (net_addr n))"

lemma serialize_service_rows:
  assumes "valid_net (sv_cidr_or_ip s)" "\<forall>e\<in>set (service_sources db s). valid_net (wl_source_cidr e)"
  defines "ns \<equiv> map wl_source_cidr (sort_key source_text (service_sources db s))"
  shows "serialize_service (service_config db s) = pack_fields
       [pack_uint 4 (int (prefixlen (sv_cidr_or_ip s))), pack_4s (packed (net_addr (sv_cidr_or_ip s))),
        pack_uint 4 (sv_dp_id s), pack_uint 1 (of_bool (sv_enabled s)),
        pack_uint 1 (list_flags (map net_parts ns) (ns \<noteq> [])), pack_uint 1 0,
        pack_uint 8 (fst (plan_rates (get_plan db (sv_id s)))), pack_uint 8 (snd (plan_rates (get_plan db (sv_id s)))),
        pack_uint 8 (or_int (sv_vip_pps s) 0), pack_uint 8 (or_int (sv_vip_bps s) 0),
        pack_uint 1 (vip_flags (service_config db s)),
        pack_uint 8 (or_int (sv_service_pps s) 0), pack_uint 8 (or_int (sv_service_bps s) 0),
        pack_uint 1 (svc_rl_flags (service_config db s)), pack_uint 2 (int (length (service_rules db s))),
        pack_fields (map pack_rule (sort_key ru_priority (service_rules db s))),
        append_source_list (map net_parts ns)]"
proof -
  have "traverse (\<lambda>entry. cidr_parts (source_text entry)) (sc_whitelist (service_config db s)) = Inr (map net_parts ns)"
    using assms(2) unfolding service_config_def ns_def service_sources_def ServiceConfig.select_convs
    by (intro traverse_sources) simp
  moreover have "sc_rules (service_config db s) = sort_key ru_priority (service_rules db s)"
    "cidr_parts (sc_cidr_or_ip (service_config db s)) = Inr (net_parts (sv_cidr_or_ip s))"
    "sc_dp_id (service_config db s) = sv_dp_id s" "sc_enabled (service_config db s) = sv_enabled s"
    "sc_vip_pps (service_config db s) = sv_vip_pps s" "sc_vip_bps (service_config db s) = sv_vip_bps s"
    "sc_service_pps (service_config db s) = sv_service_pps s" "sc_service_bps (service_config db s) = sv_service_bps s"
    "sc_plan (service_config db s) = get_plan db (sv_id s)"
    by (simp_all add: service_config_def service_rules_def assms(1))
  ultimately show ?thesis
    unfolding serialize_service_def
    by (simp only: sum.case prod.case case_prod_beta fst_conv snd_conv Let_def length_sort map_is_Nil_conv)
qed

lemma reads_service:
  assumes ok: "serialize_service (service_config db s) = Inr bs"
    and valid: "valid_net (sv_cidr_or_ip s)" "\<forall>e\<in>set (service_sources db s). valid_net (wl_source_cidr e)"
    and sizes: "length (service_rules db s) \<le> RULE_MAX" "length (service_sources db s) \<le> APPLY_MAX_LIST_ENTRIES"
  shows "reads parse_service bs (wire_service db s)"
proof -
  let ?ns = "map wl_source_cidr (sort_key source_text (service_sources db s))"
  let ?rs = "sort_key ru_priority (service_rules db s)"
  have n: "unat (word_of_int (int (length (service_rules db s))) :: 16 word) = length (service_rules db s)"
    using sizes(1) by (simp add: RULE_MAX_def unat_of_nat take_bit_nat_eq_self)
  have rules: "reads (rd_times (length (service_rules db s)) rd_rule) b (map wire_rule ?rs)"
    if "pack_fields (map pack_rule ?rs) = Inr b" for b
    by (rule reads_mapped [OF that]) (auto intro: reads_rule)
  have sources: "reads parse_source_list b (map wire_source ?ns)" if "append_source_list (map net_parts ?ns) = Inr b" for b
    using that sizes(2) by (intro reads_source_list) simp_all
  show ?thesis
    using ok [unfolded serialize_service_rows [OF valid]]
    unfolding pack_fields_Inr parse_service_def
    apply (elim exE conjE, hypsubst)
    apply (erule reads_packed | (erule reads_packed_4s, simp))+
    apply (rule reads_ensure, simp, rule reads_ensure, simp only: n sizes(1), unfold n)
    apply (rule reads_andThen, erule rules, rule reads_andThen, erule sources, rule reads_ret)
    apply (simp only: wire_service_def Let_def flag_words list_flag_word service_rules_def service_sources_def)
    apply simp
    done
qed

subsection \<open>Sizes\<close>

definition service_size :: "db \<Rightarrow> protected_service \<Rightarrow> nat" where
  "service_size db s = 71 + 10 * length (service_rules db s) + 8 * length (service_sources db s)"

definition node_size :: "db \<Rightarrow> nat" where
  "node_size db = 20 + sum_list (map (service_size db) (filter sv_enabled (protected_services db)))"

lemma length_pack_map:
  assumes "pack_fields (map f xs) = Inr bs" "\<And>x b. x \<in> set xs \<Longrightarrow> f x = Inr b \<Longrightarrow> length b = k x"
  shows "length bs = sum_list (map k xs)"
  using assms
proof (induction xs arbitrary: bs)
  case (Cons x xs)
  then obtain b c where "f x = Inr b" "pack_fields (map f xs) = Inr c" "bs = b @ c"
    by (auto simp: pack_fields_Inr)
  then show ?case using Cons.IH [of c] Cons.prems(2) by simp
qed simp

lemma length_pack_rule: "pack_rule r = Inr b \<Longrightarrow> length b = 10"
  unfolding pack_rule_def pack_fields_Inr by (auto dest!: length_pack_uint)

lemma length_pack_source:
  "pack_fields [pack_uint 4 p, pack_4s a] = Inr b \<Longrightarrow> length a = 4 \<Longrightarrow> length b = 8"
  unfolding pack_fields_Inr by (auto dest!: length_pack_uint simp: pack_4s_def)

lemma length_source_list:
  assumes "append_source_list (map net_parts ns) = Inr b"
  shows "length b = 4 + 8 * length ns"
proof -
  obtain c d where cd: "pack_uint 4 (int (length ns)) = Inr c"
    "pack_fields (map (\<lambda>n. pack_fields [pack_uint 4 (int (prefixlen n)), pack_4s (packed (net_addr n))]) ns) = Inr d"
    "b = c @ d"
    using assms by (auto simp: append_source_list_def pack_fields_Inr o_def)
  have "length d = sum_list (map (\<lambda>n. 8) ns)"
    by (rule length_pack_map [OF cd(2)]) (auto dest: length_pack_source)
  then show ?thesis using length_pack_uint [OF cd(1)] cd(3) by (simp add: sum_list_triv)
qed

lemma length_serialize_service:
  assumes ok: "serialize_service (service_config db s) = Inr bs"
    and valid: "valid_net (sv_cidr_or_ip s)" "\<forall>e\<in>set (service_sources db s). valid_net (wl_source_cidr e)"
  shows "length bs = service_size db s"
proof -
  have rules: "length b = 10 * length (service_rules db s)"
    if "pack_fields (map pack_rule (sort_key ru_priority (service_rules db s))) = Inr b" for b
    using length_pack_map [OF that, of "\<lambda>_. 10"] length_pack_rule by (simp add: sum_list_triv)
  show ?thesis
    using ok [unfolded serialize_service_rows [OF valid]] unfolding pack_fields_Inr
    apply (elim exE conjE)
    apply hypsubst
    apply (drule rules)
    apply (drule length_source_list)
    apply (drule length_pack_uint length_pack_4s)+
    apply (simp add: service_size_def)
    done
qed

subsection \<open>Totality\<close>

text \<open>
  The values the columns can hold: \<open>Integer\<close> and \<open>Numeric(10, 2)\<close>; and the
  limits of the enabled services, which the columns alone do not keep from
  being negative.
\<close>

definition limit_ok :: "int option \<Rightarrow> bool" where
  "limit_ok x = (case x of None \<Rightarrow> True | Some n \<Rightarrow> 0 \<le> n \<and> n < 2 ^ 63)"

definition limits_ok :: "protected_service \<Rightarrow> bool" where
  "limits_ok s \<longleftrightarrow> limit_ok (sv_vip_pps s) \<and> limit_ok (sv_vip_bps s) \<and>
     limit_ok (sv_service_pps s) \<and> limit_ok (sv_service_bps s)"

definition columns_ok :: "db \<Rightarrow> bool" where
  "columns_ok db \<longleftrightarrow> (\<forall>s\<in>set (protected_services db). 1 \<le> sv_dp_id s \<and> sv_dp_id s < 2 ^ 31) \<and>
     (\<forall>p\<in>set (service_plans db). pl_ceiling_clean_gbps p < 10 ^ 8)"

definition node_fits :: "db \<Rightarrow> bool" where
  "node_fits db \<longleftrightarrow> length (filter sv_enabled (protected_services db)) \<le> APPLY_MAX_SERVICES \<and>
     (\<forall>s\<in>set (protected_services db). sv_enabled s \<longrightarrow> length (service_sources db s) \<le> APPLY_MAX_LIST_ENTRIES) \<and>
     node_size db \<le> APPLY_MAX_BYTES"

lemma limit_range: "limit_ok x \<Longrightarrow> 0 \<le> or_int x 0 \<and> or_int x 0 < 256 ^ 8"
  by (auto simp: limit_ok_def or_int_def split: option.splits)

lemma rate_range:
  fixes x :: rat
  assumes "0 \<le> x" "x < 10 ^ 8"
  shows "0 \<le> int_of_decimal (x * 1000000000)" "int_of_decimal (x * 1000000000) < 256 ^ 8"
proof -
  show "0 \<le> int_of_decimal (x * 1000000000)"
    using assms(1) by (simp add: int_of_decimal_def)
  have "x * 1000000000 < of_int (10 ^ 17)" using assms(2) by simp
  then have "\<lfloor>x * 1000000000\<rfloor> < 10 ^ 17" by (simp add: floor_less_iff)
  then show "int_of_decimal (x * 1000000000) < 256 ^ 8"
    using assms(1) by (simp add: int_of_decimal_def)
qed

lemma plan_rates_range:
  assumes "plans_inv db" "columns_ok db"
  shows "0 \<le> fst (plan_rates (get_plan db i)) \<and> fst (plan_rates (get_plan db i)) < 256 ^ 8"
    "0 \<le> snd (plan_rates (get_plan db i)) \<and> snd (plan_rates (get_plan db i)) < 256 ^ 8"
proof -
  have "0 \<le> pl_committed_clean_gbps p \<and> pl_committed_clean_gbps p \<le> pl_ceiling_clean_gbps p \<and>
      pl_ceiling_clean_gbps p < 10 ^ 8" if "get_plan db i = Some p" for p
    using that assms row_SomeD [of pl_service_id i "service_plans db" p]
    by (auto simp: plans_inv_def columns_ok_def get_plan_def)
  then show "0 \<le> fst (plan_rates (get_plan db i)) \<and> fst (plan_rates (get_plan db i)) < 256 ^ 8"
    "0 \<le> snd (plan_rates (get_plan db i)) \<and> snd (plan_rates (get_plan db i)) < 256 ^ 8"
    using rate_range by (auto simp: plan_rates_def split: option.splits intro: order_trans order_le_less_trans)
qed

lemma pack_rule_total:
  assumes "rule_ports_ok r"
  shows "\<exists>b. pack_rule r = Inr b"
proof -
  have "0 \<le> or_int (fst p) 0 \<and> or_int (fst p) 0 < 256 ^ 2 \<and> 0 \<le> or_int (snd p) 65535 \<and> or_int (snd p) 65535 < 256 ^ 2"
    if "valid_range p" for p
    using that valid_range_cases by (cases p) (auto simp: valid_range_def validate_port_range_def or_int_def split: if_splits option.splits)
  from this [of "(ru_src_port_lo r, ru_src_port_hi r)"] this [of "(ru_dst_port_lo r, ru_dst_port_hi r)"] show ?thesis
    using assms unfolding pack_rule_def rule_ports_ok_def
    by (intro pack_fields_total)
      (auto intro!: pack_uint_total simp: protocol_number_def rule_flags_def split: Protocol.splits)
qed

lemma valid_net_prefix: "valid_net n \<Longrightarrow> prefixlen n < 4294967296"
  by (simp add: valid_net_def)

lemma serialize_service_total:
  assumes inv: "plans_inv db" "columns_ok db" "s \<in> set (protected_services db)" "limits_ok s"
    and valid: "valid_net (sv_cidr_or_ip s)" "\<forall>e\<in>set (service_sources db s). valid_net (wl_source_cidr e)"
    and rules: "\<forall>r\<in>set (service_rules db s). rule_ports_ok r"
    and sizes: "length (service_rules db s) \<le> RULE_MAX" "length (service_sources db s) \<le> APPLY_MAX_LIST_ENTRIES"
  shows "\<exists>bs. serialize_service (service_config db s) = Inr bs"
proof -
  let ?ns = "map wl_source_cidr (sort_key source_text (service_sources db s))"
  have p: "int (prefixlen n) < 256 ^ 4" if "valid_net n" for n
    using that by (simp add: valid_net_def)
  have dp: "0 \<le> sv_dp_id s" "sv_dp_id s < 256 ^ 4" using inv(2,3) by (auto simp: columns_ok_def)
  have flags: "0 \<le> list_flags ps b \<and> list_flags ps b < 256" "0 \<le> vip_flags c \<and> vip_flags c < 256"
    "0 \<le> svc_rl_flags c \<and> svc_rl_flags c < 256" for ps b c
    by (simp_all add: list_flags_def vip_flags_def svc_rl_flags_def)
  have rs: "\<exists>b. pack_fields (map pack_rule (sort_key ru_priority (service_rules db s))) = Inr b"
    using rules by (intro pack_fields_total) (auto intro: pack_rule_total)
  have ws: "\<exists>b. append_source_list (map net_parts ?ns) = Inr b"
    using valid(2) sizes(2) p unfolding append_source_list_def
    by (intro pack_fields_total)
      (auto intro!: pack_uint_total pack_fields_total simp: APPLY_MAX_LIST_ENTRIES_def pack_4s_def)
  have lim: "0 \<le> or_int x 0 \<and> or_int x 0 < 256 ^ 8"
    if "x \<in> {sv_vip_pps s, sv_vip_bps s, sv_service_pps s, sv_service_bps s}" for x
    using that inv(4) limit_range by (auto simp: limits_ok_def)
  show ?thesis
    unfolding serialize_service_rows [OF valid]
    by (intro pack_fields_total)
      (use rs ws p [OF valid(1)] dp flags lim plan_rates_range [OF inv(1,2)] sizes(1) in
        \<open>auto intro!: pack_uint_total simp: pack_4s_def RULE_MAX_def\<close>)
qed

subsection \<open>The node snapshot\<close>

lemma enabled_service_facts:
  assumes "ruleset_inv db" "whitelist_inv db" "node_fits db" "s \<in> set (protected_services db)" "sv_enabled s"
  shows "plans_inv db" "valid_net (sv_cidr_or_ip s)" "\<forall>e\<in>set (service_sources db s). valid_net (wl_source_cidr e)"
    "\<forall>r\<in>set (service_rules db s). rule_ports_ok r" "length (service_rules db s) \<le> RULE_MAX"
    "length (service_sources db s) \<le> APPLY_MAX_LIST_ENTRIES"
  using assms
  by (auto simp: ruleset_inv_def rules_inv_def rules_ok_def whitelist_inv_def whitelist_ok_def config_inv_def
      draft_inv_def scope_inv_def node_fits_def service_rules_def service_sources_def RULE_MAX_def
      MAX_RULES_PER_SERVICE_def count_rows_def)

lemma sum_list_sort_key:
  fixes f :: "'a \<Rightarrow> nat"
  shows "sum_list (map f (sort_key k xs)) = sum_list (map f xs)"
proof -
  have "sum_list (map f (insort_key k x ys)) = f x + sum_list (map f ys)" for x ys
    by (induction ys) simp_all
  then show ?thesis by (induction xs) simp_all
qed

lemma node_snapshot:
  assumes inv: "ruleset_inv db" "whitelist_inv db" "columns_ok db" "node_fits db"
    and limits: "\<And>s. s \<in> set (protected_services db) \<Longrightarrow> sv_enabled s \<Longrightarrow> limits_ok s"
  obtains bs where "serialize_node_snapshot (load_node_config db) = Inr bs" "length bs = node_size db"
    "reads rd_node bs \<lparr> no_schema_version = 4, no_snapshot_kind = 1,
       no_services = map (wire_service db) (sort_key sv_dp_id (filter sv_enabled (protected_services db))),
       no_global_revision = 0, no_global_entries = [] \<rparr>"
proof -
  let ?ss = "sort_key sv_dp_id (filter sv_enabled (protected_services db))"
  have facts: "plans_inv db" "valid_net (sv_cidr_or_ip s)" "\<forall>e\<in>set (service_sources db s). valid_net (wl_source_cidr e)"
    "\<forall>r\<in>set (service_rules db s). rule_ports_ok r" "length (service_rules db s) \<le> RULE_MAX"
    "length (service_sources db s) \<le> APPLY_MAX_LIST_ENTRIES" "s \<in> set (protected_services db)" "limits_ok s"
    if "s \<in> set ?ss" for s
    using enabled_service_facts [OF inv(1,2,4), of s] that limits by auto
  have "\<exists>bs. pack_fields (map (\<lambda>s. serialize_service (service_config db s)) ?ss) = Inr bs"
    by (rule pack_fields_total) (auto intro!: serialize_service_total facts inv(3) simp del: set_sort)
  then obtain bs where bs: "pack_fields (map (\<lambda>s. serialize_service (service_config db s)) ?ss) = Inr bs" by blast
  have n: "length ?ss \<le> APPLY_MAX_SERVICES" using inv(4) by (simp add: node_fits_def)
  obtain b c d where bcd: "pack_uint 4 4 = Inr b" "pack_uint 4 1 = Inr c" "pack_uint 4 (int (length ?ss)) = Inr d"
    using n by (auto simp: pack_uint_def APPLY_MAX_SERVICES_def)
  have "length bs = sum_list (map (service_size db) ?ss)"
    by (rule length_pack_map [OF bs]) (auto intro!: length_serialize_service facts simp del: set_sort)
  moreover have "sum_list (map (service_size db) ?ss) =
      sum_list (map (service_size db) (filter sv_enabled (protected_services db)))"
    by (rule sum_list_sort_key)
  ultimately have "length (SNAPSHOT_MAGIC @ b @ c @ d @ bs) = node_size db"
    using bcd [THEN length_pack_uint] by (simp add: node_size_def SNAPSHOT_MAGIC_def)
  moreover have "serialize_node_snapshot (load_node_config db) = Inr (SNAPSHOT_MAGIC @ b @ c @ d @ bs)"
    using bs bcd by (simp add: serialize_node_snapshot_def load_node_config_def o_def)
  moreover have "reads (rd_times (length ?ss) parse_service) bs (map (wire_service db) ?ss)"
    by (rule reads_mapped [OF bs refl]) (auto intro!: reads_service facts simp del: set_sort)
  ultimately show ?thesis
    using that reads_services [OF _ n bcd] by blast
qed

text \<open>The guard of \<open>apply_write_service\<close> before it writes a service into the inactive maps.\<close>

definition service_writable :: "cfg_service \<Rightarrow> bool" where
  "service_writable c \<longleftrightarrow> \<not> (32 < unat (cf_dst_prefixlen c) \<or> cf_dp_id c = 0 \<or> 1 < unat (cf_enabled c) \<or>
     cf_reserved0 c \<noteq> 0 \<or> RULE_MAX < length (cf_rules c) \<or> cf_ceiling_bps c < cf_committed_bps c)"

lemma service_writable_wire:
  assumes "ruleset_inv db" "whitelist_inv db" "columns_ok db" "node_fits db" "s \<in> set (protected_services db)" "sv_enabled s"
  shows "service_writable (wire_service db s)"
proof -
  note facts = enabled_service_facts [OF assms(1,2,4-6)]
  have p: "unat (of_nat (prefixlen (sv_cidr_or_ip s)) :: 32 word) \<le> 32"
    using facts(2) by (simp add: valid_net_def unat_of_nat take_bit_nat_eq_self)
  have dp: "(word_of_int (sv_dp_id s) :: 32 word) \<noteq> 0"
  proof -
    have "1 \<le> sv_dp_id s" "sv_dp_id s < 2 ^ 31" using assms(3,5) by (auto simp: columns_ok_def)
    then have "uint (word_of_int (sv_dp_id s) :: 32 word) = sv_dp_id s"
      by (simp add: unsigned_of_int take_bit_int_eq_self)
    then show ?thesis using \<open>1 \<le> sv_dp_id s\<close> by (metis unsigned_0 not_one_le_zero)
  qed
  obtain plan where plan: "get_plan db (sv_id s) = Some plan"
    using facts(1) assms(5) by (auto simp: plans_inv_def)
  have le: "fst (plan_rates (get_plan db (sv_id s))) \<le> snd (plan_rates (get_plan db (sv_id s)))"
    using facts(1) plan row_SomeD [of pl_service_id "sv_id s" "service_plans db" plan]
    by (auto simp: plan_rates_def plans_inv_def get_plan_def int_of_decimal_def intro!: floor_mono mult_right_mono)
  have "\<not> (word_of_int (snd (plan_rates (get_plan db (sv_id s)))) :: 64 word) <
      word_of_int (fst (plan_rates (get_plan db (sv_id s))))"
    using le plan_rates_range [OF facts(1) assms(3), of "sv_id s"]
    by (simp add: word_of_int_less_iff take_bit_int_eq_self)
  then show ?thesis
    using p dp facts(5) by (simp add: service_writable_def wire_service_def Let_def service_rules_def not_less)
qed

subsection \<open>The deny snapshot\<close>

definition wire_parts :: "int \<times> bytes \<Rightarrow> cfg_source" where
  "wire_parts e = \<lparr> cs_prefixlen = word_of_int (fst e), cs_addr = snd e \<rparr>"

lemma wire_parts_net: "wire_parts (net_parts n) = wire_source n"
  by (simp add: wire_parts_def wire_source_def)

lemma net_parts_inj: "valid_net m \<Longrightarrow> valid_net n \<Longrightarrow> net_parts m = net_parts n \<longleftrightarrow> m = n"
  by (auto simp: valid_net_def packed_inject net.expand)

lemma wire_source_inj: "valid_net m \<Longrightarrow> valid_net n \<Longrightarrow> wire_source m = wire_source n \<longleftrightarrow> m = n"
proof -
  have "(of_nat a :: 32 word) = of_nat b \<longleftrightarrow> a = b" if "a \<le> 32" "b \<le> 32" for a b
    using that by (simp add: word_of_nat_eq_iff take_bit_nat_eq_self)
  then show "valid_net m \<Longrightarrow> valid_net n \<Longrightarrow> ?thesis"
    by (auto simp: wire_source_def valid_net_def packed_inject net.expand)
qed

text \<open>An entry that the reader accepts is the wire form of a network without host bits.\<close>

lemma entry_net:
  assumes "global_entry_valid e" "length (cs_addr e) = 4"
  shows "\<exists>n. e = wire_source n \<and> valid_net n"
proof -
  obtain a b c d where bs: "cs_addr e = [a, b, c, d]" using four_bytes [OF assms(2)] by auto
  let ?v = "be_value a b c d" and ?p = "unat (cs_prefixlen e)"
  have v: "?v < 2 ^ 32" by (rule be_value_less)
  have p: "?p \<le> 32" and m: "ntohl (cs_addr e) AND NOT (if cs_prefixlen e \<noteq> 0 then push_bit (32 - ?p) (- 1) else 0) = 0"
    using assms(1) by (simp_all add: global_entry_valid_def Let_def not_less split: if_splits)
  have addr: "ntohl (cs_addr e) = of_nat ?v" using ntohl_packed [OF v] by (simp add: bs packed_be_value)
  have "NOT (if cs_prefixlen e \<noteq> 0 then push_bit (32 - ?p) (- 1) else 0) = (mask (32 - ?p) :: 32 word)"
    by (auto simp: not_netmask) (simp add: mask_full [symmetric])
  then have "take_bit (32 - ?p) (of_nat ?v :: 32 word) = 0" using m addr by (simp only: take_bit_eq_mask)
  then have "(of_nat (take_bit (32 - ?p) ?v) :: 32 word) = 0" by (simp only: take_bit_of_nat)
  then have "2 ^ 32 dvd take_bit (32 - ?p) ?v" by (simp add: word_of_nat_eq_0_iff)
  moreover have "take_bit (32 - ?p) ?v < 2 ^ 32" using v by (meson le_less_trans take_bit_nat_less_eq_self)
  ultimately have "take_bit (32 - ?p) ?v = 0" using nat_dvd_not_less [of "take_bit (32 - ?p) ?v" "2 ^ 32"] by blast
  then have "valid_net (Net ?v ?p)" using p v by (simp add: valid_net_def net_size_def take_bit_eq_mod)
  moreover have "e = wire_source (Net ?v ?p)" by (cases e) (use bs in \<open>simp add: wire_source_def packed_be_value\<close>)
  ultimately show ?thesis by blast
qed


definition net_before :: "net \<Rightarrow> net \<Rightarrow> bool" where
  "net_before m n \<longleftrightarrow> prefixlen m < prefixlen n \<or> prefixlen m = prefixlen n \<and> net_addr m < net_addr n"

lemma sorted_entries_before:
  assumes "valid_net m" "valid_net n"
  shows "global_entries_sorted (wire_source m) (wire_source n) \<longleftrightarrow> net_before m n"
proof -
  have "unat (of_nat (prefixlen k) :: 32 word) = prefixlen k" if "valid_net k" for k
    using that by (simp add: valid_net_def unat_of_nat take_bit_nat_eq_self)
  then have "(of_nat (prefixlen m) :: 32 word) = of_nat (prefixlen n) \<longleftrightarrow> prefixlen m = prefixlen n"
      "(of_nat (prefixlen m) :: 32 word) < of_nat (prefixlen n) \<longleftrightarrow> prefixlen m < prefixlen n"
    using assms by (metis, simp add: word_less_nat_alt)
  then show ?thesis
    using packed_less [of "net_addr m" "net_addr n"] assms
    by (auto simp: global_entries_sorted_def wire_source_def net_before_def valid_net_def)
qed

lemma entries_nets:
  assumes "\<forall>e\<in>set es. global_entry_valid e \<and> length (cs_addr e) = 4" "successively global_entries_sorted es"
  shows "\<exists>ns. es = map wire_source ns \<and> list_all valid_net ns \<and> sorted_wrt net_before ns"
proof -
  have "\<exists>f. \<forall>e\<in>set es. e = wire_source (f e) \<and> valid_net (f e)"
    using assms(1) entry_net by (intro bchoice) blast
  then obtain f where f: "\<forall>e\<in>set es. e = wire_source (f e) \<and> valid_net (f e)" ..
  let ?ns = "map f es"
  have es: "es = map wire_source ?ns" using f by (simp add: map_idI)
  have "successively (\<lambda>m n. global_entries_sorted (wire_source m) (wire_source n)) ?ns"
    using assms(2) es by (metis successively_map)
  then have "successively net_before ?ns"
    by (rule successively_mono) (use f sorted_entries_before in auto)
  moreover have "transp net_before" by (rule transpI) (auto simp: net_before_def)
  ultimately have "sorted_wrt net_before ?ns" by (simp add: successively_conv_sorted_wrt)
  moreover have "list_all valid_net ?ns" using f by (simp add: list_all_iff)
  ultimately show ?thesis using es by blast
qed

lemma global_entries_sorted_parts:
  assumes "a < b" "0 \<le> fst a" "fst a \<le> 32" "0 \<le> fst b" "fst b \<le> 32"
  shows "global_entries_sorted (wire_parts a) (wire_parts b)"
proof -
  have lt: "(word_of_int x :: 32 word) < word_of_int y \<longleftrightarrow> x < y" "(word_of_int x :: 32 word) = word_of_int y \<longleftrightarrow> x = y"
    if "0 \<le> x" "x \<le> 32" "0 \<le> y" "y \<le> 32" for x y :: int
    using that by (simp_all add: word_of_int_less_iff take_bit_int_eq_self word_of_int_eq_iff)
  show ?thesis
    using assms lt [of "fst a" "fst b"]
    by (auto simp: global_entries_sorted_def wire_parts_def less_prod_def')
qed

lemma successively_sorted_parts:
  assumes "sorted es" "distinct es" "\<forall>e\<in>set es. 0 \<le> fst e \<and> fst e \<le> 32"
  shows "successively global_entries_sorted (map wire_parts es)"
proof -
  have "sorted_wrt (<) es" using assms(1,2) by (simp add: strict_sorted_iff)
  then have "sorted_wrt (\<lambda>a b. global_entries_sorted (wire_parts a) (wire_parts b)) es"
    by (rule sorted_wrt_mono_rel [rotated]) (use assms(3) in \<open>auto intro!: global_entries_sorted_parts\<close>)
  then show ?thesis
    unfolding sorted_wrt_map [symmetric] by (rule successively_if_sorted_wrt)
qed

lemma reads_deny_entries:
  assumes nets: "\<forall>n\<in>set ns. valid_net n" "distinct ns"
    and ok: "pack_fields (map (\<lambda>(p, a). pack_fields [pack_uint 4 p, pack_4s a]) (sort (map net_parts ns))) = Inr bs"
  shows "reads (rd_global_entries (length ns) None) bs (map wire_parts (sort (map net_parts ns)))"
    "length bs = 8 * length ns"
proof -
  let ?es = "sort (map net_parts ns)"
  have es: "\<exists>n. valid_net n \<and> e = net_parts n" if "e \<in> set ?es" for e
    using that nets(1) by auto
  obtain bss where bss: "bs = concat bss" "list_all2 (\<lambda>b e. (\<lambda>(p, a). pack_fields [pack_uint 4 p, pack_4s a]) e = Inr b) bss ?es"
    using pack_map_Inr [OF ok] by blast
  have "list_all2 (reads rd_source) bss (map wire_parts ?es)"
    unfolding list_all2_map2
    by (rule list.rel_mono_strong [OF bss(2)]) (auto dest!: es simp: wire_parts_def intro!: reads_source)
  moreover have "distinct ?es"
    using nets by (auto simp: distinct_map inj_on_def net_parts_inj simp del: prod.inject)
  then have "successively global_entries_sorted (map wire_parts ?es)"
    using nets(1) by (intro successively_sorted_parts) (auto simp: valid_net_def)
  moreover have "\<forall>e\<in>set (map wire_parts ?es). global_entry_valid e"
    using valid_net_entry by (auto dest!: es simp: wire_parts_net wire_source_def simp del: set_sort)
  ultimately show "reads (rd_global_entries (length ns) None) bs (map wire_parts ?es)"
    unfolding bss(1) by (intro reads_global_entries) simp_all
  have "length bs = sum_list (map (\<lambda>_. 8) ?es)"
    by (rule length_pack_map [OF ok]) (auto dest!: es length_pack_source simp del: set_sort)
  then show "length bs = 8 * length ns" by (simp add: sum_list_triv)
qed

lemma deny_snapshot:
  assumes nets: "\<forall>n\<in>set ns. valid_net n" "distinct ns" "length ns \<le> MAX_GLOBAL_DENY_ENTRIES"
    and rev: "0 \<le> r" "r < 2 ^ 64" "sn_revision snapshot = r" "sn_cidrs snapshot = map str_net ns"
  obtains bs where "serialize_global_snapshot snapshot = Inr bs" "length bs = 28 + 8 * length ns"
    "parse_snapshot bs = Some \<lparr> no_schema_version = 4, no_snapshot_kind = 2, no_services = [],
       no_global_revision = word_of_int r, no_global_entries = map wire_parts (sort (map net_parts ns)) \<rparr>"
proof -
  let ?es = "sort (map net_parts ns)"
  have t: "traverse strict_ipv4_cidr_parts (sn_cidrs snapshot) = Inr (map net_parts ns)"
    unfolding rev(4) using nets(1) by (induction ns) simp_all
  have "\<exists>bs. pack_fields (map (\<lambda>(p, a). pack_fields [pack_uint 4 p, pack_4s a]) ?es) = Inr bs"
    using nets(1) by (intro pack_fields_total)
      (auto intro!: pack_fields_total pack_uint_total simp: pack_4s_def valid_net_prefix)
  then obtain bs where bs: "pack_fields (map (\<lambda>(p, a). pack_fields [pack_uint 4 p, pack_4s a]) ?es) = Inr bs" ..
  have n: "length ns \<le> GLOBAL_DENY_MAX_ENTRIES"
    using nets(3) by (simp add: MAX_GLOBAL_DENY_ENTRIES_def GLOBAL_DENY_MAX_ENTRIES_def)
  obtain b c d e where h: "pack_uint 4 4 = Inr b" "pack_uint 4 2 = Inr c" "pack_uint 8 r = Inr d"
      "pack_uint 4 (int (length ns)) = Inr e"
    using n rev(1,2) by (auto simp: pack_uint_def GLOBAL_DENY_MAX_ENTRIES_def)
  note deny = reads_deny_entries [OF nets(1,2) bs]
  have len: "length (SNAPSHOT_MAGIC @ b @ c @ d @ e @ bs) = 28 + 8 * length ns"
    using h [THEN length_pack_uint] deny(2) by (simp add: SNAPSHOT_MAGIC_def)
  show ?thesis
  proof (rule that [OF _ len])
    show "serialize_global_snapshot snapshot = Inr (SNAPSHOT_MAGIC @ b @ c @ d @ e @ bs)"
      using nets(3) t bs h by (simp add: serialize_global_snapshot_def rev(3) rev(4))
    show "parse_snapshot (SNAPSHOT_MAGIC @ b @ c @ d @ e @ bs) = Some \<lparr> no_schema_version = 4, no_snapshot_kind = 2,
        no_services = [], no_global_revision = word_of_int r, no_global_entries = map wire_parts ?es \<rparr>"
      using len n
      by (intro reads_parse_snapshot reads_global_deny [OF deny(1) n deny(2) h])
        (simp_all add: GLOBAL_DENY_MAX_ENTRIES_def APPLY_MAX_BYTES_def)
  qed
qed

section \<open>Properties\<close>

text \<open>
  C20 The data plane gets what the tables say.  On a consistent configuration whose
  limits are not negative and which fits the helper's bounds, serializing the node
  succeeds, the file has exactly the computed size, and the helper reads from it
  the enabled services in the order of their data-plane numbers, each with its
  destination, plan rates, limits and flags, its rules in the order of priority and
  its whitelist; none of them is refused when it is written into the maps.
\<close>

theorem node_snapshot_read_back:
  assumes "ruleset_inv db" "whitelist_inv db" "columns_ok db" "node_fits db"
    and "\<forall>s\<in>set (protected_services db). sv_enabled s \<longrightarrow> limits_ok s"
  shows "\<exists>bs. serialize_node_snapshot (load_node_config db) = Inr bs \<and> length bs = node_size db \<and>
    parse_snapshot bs = Some \<lparr> no_schema_version = 4, no_snapshot_kind = 1,
      no_services = map (wire_service db) (sort_key sv_dp_id (filter sv_enabled (protected_services db))),
      no_global_revision = 0, no_global_entries = [] \<rparr> \<and>
    list_all (service_writable \<circ> wire_service db) (filter sv_enabled (protected_services db))"
proof -
  obtain bs where bs: "serialize_node_snapshot (load_node_config db) = Inr bs" "length bs = node_size db"
    "reads rd_node bs \<lparr> no_schema_version = 4, no_snapshot_kind = 1,
       no_services = map (wire_service db) (sort_key sv_dp_id (filter sv_enabled (protected_services db))),
       no_global_revision = 0, no_global_entries = [] \<rparr>"
    by (rule node_snapshot [OF assms(1-4)]) (use assms(5) in auto)
  moreover have "16 \<le> length bs" "length bs \<le> APPLY_MAX_BYTES"
    using bs(2) assms(4) by (simp_all add: node_size_def node_fits_def)
  moreover have "list_all (service_writable \<circ> wire_service db) (filter sv_enabled (protected_services db))"
    using service_writable_wire [OF assms(1-4)] by (simp add: list_all_iff)
  ultimately show ?thesis using reads_parse_snapshot [OF bs(3)] by blast
qed

text \<open>
  C23 The helper fails closed.  Whatever bytes a snapshot file holds, if the
  helper reads a node configuration from it then the file is of at most 64 MiB,
  starts with the magic of schema 4 and is of one of two kinds.  Of the first
  kind, it has no deny entries, at most 65536 services, and each of these has no
  reserved bits, at most 16 rules and at most 1048576 whitelisted sources.  Of the second kind,
  it has no services, and its entries are, in network byte order, at most 1048576
  networks without host bits, in strictly ascending order of prefix length and
  address, hence without duplicates; the file holds nothing else.
\<close>

theorem helper_fails_closed:
  assumes "parse_snapshot file = Some node"
  shows "length file \<le> 64 * 1024 * 1024 \<and> take 8 file = SNAPSHOT_MAGIC \<and> no_schema_version node = 4 \<and>
    (no_snapshot_kind node = 1 \<and> no_global_entries node = [] \<and> length (no_services node) \<le> 65536 \<and>
       (\<forall>c\<in>set (no_services node). cf_reserved0 c = 0 \<and> length (cf_rules c) \<le> 16 \<and> length (cf_wl c) \<le> 1048576) \<or>
     no_snapshot_kind node = 2 \<and> no_services node = [] \<and>
       (\<exists>ns. no_global_entries node = map wire_source ns \<and> list_all valid_net ns \<and> length ns \<le> 1048576 \<and>
          length file = 28 + 8 * length ns \<and>
          sorted_wrt (\<lambda>m n. prefixlen m < prefixlen n \<or> prefixlen m = prefixlen n \<and> net_addr m < net_addr n) ns))"
proof -
  have read: "rd_node file = (Inr node, [])" and size: "length file \<le> APPLY_MAX_BYTES"
    using assms by (auto simp: parse_snapshot_def split: if_splits prod.splits sum.splits list.splits)
  note ok = wp_okD [OF wp_rd_node read]
  show ?thesis
  proof (cases "no_snapshot_kind node = 2")
    case True
    then have "\<exists>ns. no_global_entries node = map wire_source ns \<and> list_all valid_net ns \<and> sorted_wrt net_before ns"
      using ok by (intro entries_nets) auto
    then obtain ns where ns: "no_global_entries node = map wire_source ns" "list_all valid_net ns" "sorted_wrt net_before ns" by blast
    then show ?thesis
      using ok True size by (auto simp: APPLY_MAX_BYTES_def GLOBAL_DENY_MAX_ENTRIES_def net_before_def [abs_def])
  next
    case False
    then show ?thesis
      using ok size by (auto simp: APPLY_MAX_BYTES_def APPLY_MAX_SERVICES_def cfg_service_ok_def source_list_ok_def
          RULE_MAX_def APPLY_MAX_LIST_ENTRIES_def)
  qed
qed

text \<open>
  C22 The deny list survives the trip to the node.  A deny list within its limit
  and without duplicates is always serialized; the file has 28 bytes and eight for
  each network; and the helper, which refuses anything not canonical or not
  strictly sorted, reads from it the revision and exactly the networks of the list.
\<close>

theorem deny_snapshot_read_back:
  assumes "deny_tables_ok db" "length (filter is_global (blacklist_entries db)) \<le> MAX_GLOBAL_DENY_ENTRIES"
    and "0 \<le> revision" "revision < 2 ^ 63"
  shows "\<exists>bs node. serialize_global_snapshot \<lparr> sn_revision = revision, sn_digest = dig, sn_cidrs = global_cidrs db \<rparr> = Inr bs \<and>
    length bs = 28 + 8 * length (global_cidrs db) \<and> parse_snapshot bs = Some node \<and>
    no_snapshot_kind node = 2 \<and> uint (no_global_revision node) = revision \<and>
    set (no_global_entries node) = wire_source ` global_nets db \<and> distinct (no_global_entries node)"
proof -
  let ?ns = "sort (map bl_source_cidr (filter is_global (blacklist_entries db)))"
  have ns: "\<forall>n\<in>set ?ns. valid_net n" "distinct ?ns" "length ?ns \<le> MAX_GLOBAL_DENY_ENTRIES"
    using assms(1,2) by (auto simp: deny_tables_ok_def entries_ok_def)
  have r: "revision < 2 ^ 64" using assms(4) by simp
  obtain bs where bs: "serialize_global_snapshot \<lparr> sn_revision = revision, sn_digest = dig, sn_cidrs = global_cidrs db \<rparr> = Inr bs"
      "length bs = 28 + 8 * length ?ns"
      "parse_snapshot bs = Some \<lparr> no_schema_version = 4, no_snapshot_kind = 2, no_services = [],
         no_global_revision = word_of_int revision, no_global_entries = map wire_parts (sort (map net_parts ?ns)) \<rparr>"
    by (rule deny_snapshot [OF ns assms(3) r, of "\<lparr> sn_revision = revision, sn_digest = dig, sn_cidrs = global_cidrs db \<rparr>"])
      (simp_all add: global_cidrs_def)
  have "wire_parts ` set (sort (map net_parts ?ns)) = wire_source ` global_nets db"
    by (auto simp: wire_parts_net global_nets_def image_image)
  moreover have "uint (word_of_int revision :: 64 word) = revision"
    using assms(3) r by (simp add: unsigned_of_int take_bit_int_eq_self)
  moreover have "distinct (map wire_source ?ns)"
    using ns(1,2) wire_source_inj by (auto simp: distinct_map inj_on_def)
  then have "distinct (map wire_parts (map net_parts ?ns))"
    unfolding map_map o_def wire_parts_net .
  then have "distinct (map wire_parts (sort (map net_parts ?ns)))"
    by (simp only: distinct_map [of wire_parts] set_sort distinct_sort)
  ultimately show ?thesis using bs by (auto simp: global_cidrs_def)
qed

lemma negative_limit_fails:
  assumes "s \<in> set node" "sc_vip_pps s = Some n" "n < 0"
  shows "\<exists>e. serialize_node_snapshot node = Inl e"
proof -
  have neg: "pack_uint k (or_int (sc_vip_pps s) 0) = Inl StructError" for k
    using assms(2,3) by (simp add: pack_uint_def or_int_def)
  have "\<exists>e. pack_fields fs = Inl e" if "pack_uint 8 (or_int (sc_vip_pps s) 0) \<in> set fs" for fs
    using that neg pack_fields_fails [of StructError fs] by simp
  then have "\<exists>e. serialize_service s = Inl e"
    by (auto simp: serialize_service_def case_prod_beta Let_def simp del: pack_fields_simps split: sum.splits)
  then obtain e where "serialize_service s = Inl e" ..
  then have "\<exists>e. pack_fields (map serialize_service node) = Inl e"
    using assms(1) pack_fields_fails [of e "map serialize_service node"] by (metis image_eqI set_map)
  then obtain e' where "Inl e' = pack_fields (map serialize_service node)" by metis
  then show ?thesis
    unfolding serialize_node_snapshot_def by (intro pack_fields_fails [of e']) simp
qed

text \<open>
  C34 One negative limit stops the node.  While one enabled service has a negative
  VIP limit, which the update of a service stores for a user of its tenant, no
  apply of any service of any tenant reaches the helper: serializing the node
  fails, and every apply fails with it.
\<close>

theorem negative_limit_stops_node:
  assumes "s \<in> set (protected_services db)" "sv_enabled s" "sv_vip_pps s = Some n" "n < 0"
  shows "\<exists>e. double_buffer_apply helper config db = (Inl e, db)"
proof -
  have "service_config db s \<in> set (load_node_config db)" using assms(1,2) by (simp add: load_node_config_def)
  moreover have "sc_vip_pps (service_config db s) = Some n" using assms(3) by (simp add: service_config_def)
  ultimately obtain e where "serialize_node_snapshot (load_node_config db) = Inl e"
    using negative_limit_fails assms(4) by blast
  then show ?thesis by (simp add: double_buffer_apply_def run_simps)
qed

definition live_db :: db where
  "live_db = set_service 30 (\<lambda>s. s\<lparr>sv_enabled := True\<rparr>)
     (sample_db\<lparr>allow_rules := [web_rule], whitelist_entries := [\<lparr> wl_id = 70, wl_service_id = 30,
        wl_source_cidr = Net 167903232 16, wl_created_by = None, wl_created_at = 0 \<rparr>]\<rparr>)"

lemma live_db_fields:
  "protected_services live_db = [sample_service\<lparr>sv_enabled := True\<rparr>]" "allow_rules live_db = [web_rule]"
  "map wl_source_cidr (whitelist_entries live_db) = [Net 167903232 16]" "service_plans live_db = [sample_plan]"
  "get_service_row live_db 30 = Some (sample_service\<lparr>sv_enabled := True\<rparr>)" "get_plan live_db 30 = Some sample_plan"
  by (simp_all add: live_db_def set_service_def sample_defs table_simps get_service_row_def get_plan_def)

lemma live_db_inv: "ruleset_inv live_db" "whitelist_inv live_db"
proof -
  let ?db = "sample_db\<lparr>allow_rules := [web_rule], whitelist_entries := [\<lparr> wl_id = 70, wl_service_id = 30,
        wl_source_cidr = Net 167903232 16, wl_created_by = None, wl_created_at = 0 \<rparr>]\<rparr>"
  have db: "config_inv ?db"
    using sample_config config_frame [of ?db sample_db] by (simp add: config_inv_def draft_inv_def apply_inv_def)
  have "same_static (\<lambda>s. s\<lparr>sv_enabled := True\<rparr>)" by (simp add: same_static_def)
  then have "config_inv live_db"
    using db static_inv_set_service [of "\<lambda>s. s\<lparr>sv_enabled := True\<rparr>", where db = ?db and i = 30] apply_inv_set_attrs [of ?db "\<lambda>s. s\<lparr>sv_enabled := True\<rparr>"]
    unfolding live_db_def by (simp add: config_inv_def draft_inv_def)
  moreover have "rules_inv live_db"
    by (simp add: rules_inv_def rules_ok_def live_db_fields rule_ports_ok_def valid_range_def
        validate_port_range_def in_int32_def MAX_RULES_PER_SERVICE_def web_rule_def sample_service_def count_rows_def)
  moreover have "whitelist_ok (map sv_id (protected_services live_db)) (whitelist_entries live_db)"
    by (simp add: whitelist_ok_def live_db_def set_service_def sample_defs update_row_def valid_net_def net_size_def
        reject_reserved_def subnet_of_def broadcast_address_def)
  ultimately show "ruleset_inv live_db" "whitelist_inv live_db" by (simp_all add: ruleset_inv_def whitelist_inv_def)
qed

lemma live_db_sizes:
  "node_size live_db = 109" "columns_ok live_db" "node_fits live_db"
  "\<forall>s\<in>set (protected_services live_db). sv_enabled s \<longrightarrow> limits_ok s"
  "service_rules live_db (sample_service\<lparr>sv_enabled := True\<rparr>) = [web_rule]"
proof -
  have sizes: "service_rules live_db (sample_service\<lparr>sv_enabled := True\<rparr>) = [web_rule]"
    "length (service_sources live_db (sample_service\<lparr>sv_enabled := True\<rparr>)) = 1"
    by (simp_all add: service_rules_def service_sources_def live_db_def set_service_def sample_defs web_rule_def)
  show "node_size live_db = 109" by (simp add: node_size_def service_size_def live_db_fields sizes)
  then show "node_fits live_db"
    by (simp add: node_fits_def live_db_fields sizes APPLY_MAX_SERVICES_def APPLY_MAX_LIST_ENTRIES_def APPLY_MAX_BYTES_def)
qed (simp_all add: columns_ok_def live_db_fields limits_ok_def limit_ok_def sample_service_def sample_plan_def
    service_rules_def web_rule_def)

theorem node_snapshot_read_back_witness:
  "\<exists>bs node. serialize_node_snapshot (load_node_config live_db) = Inr bs \<and> length bs = 109 \<and>
     parse_snapshot bs = Some node \<and> no_services node = [wire_service live_db (sample_service\<lparr>sv_enabled := True\<rparr>)]"
  using node_snapshot_read_back [OF live_db_inv live_db_sizes(2-4)] by (auto simp: live_db_fields live_db_sizes(1))

theorem deny_snapshot_read_back_witness:
  "\<exists>bs node. serialize_global_snapshot \<lparr> sn_revision = 3, sn_digest = ''d'', sn_cidrs = global_cidrs sample_deny \<rparr> = Inr bs \<and>
     parse_snapshot bs = Some node \<and> uint (no_global_revision node) = 3 \<and>
     set (no_global_entries node) = wire_source ` global_nets sample_deny"
proof -
  have "length (filter is_global (blacklist_entries sample_deny)) \<le> MAX_GLOBAL_DENY_ENTRIES"
    by (simp add: sample_deny_def MAX_GLOBAL_DENY_ENTRIES_def)
  then show ?thesis using deny_snapshot_read_back [OF sample_deny_ok, of 3 "''d''"] by auto
qed

theorem helper_fails_closed_witness:
  "\<exists>file node ns. parse_snapshot file = Some node \<and> no_global_entries node = map wire_source ns \<and> list_all valid_net ns \<and>
     length ns = 2 \<and> length file = 44"
proof -
  have ns: "\<forall>n\<in>set [Net 150994944 8, Net 167772160 8]. valid_net n" "distinct [Net 150994944 8, Net 167772160 8]"
    "length [Net 150994944 8, Net 167772160 8] \<le> MAX_GLOBAL_DENY_ENTRIES"
    by (simp_all add: valid_net_def net_size_def MAX_GLOBAL_DENY_ENTRIES_def)
  obtain bs node where read: "parse_snapshot bs = Some node" "length (no_global_entries node) = 2"
    by (rule deny_snapshot [OF ns, of 3 "\<lparr> sn_revision = 3, sn_digest = ''d'',
          sn_cidrs = map str_net [Net 150994944 8, Net 167772160 8] \<rparr>"]) auto
  from helper_fails_closed [OF read(1)] read(2) obtain ns where
    "no_global_entries node = map wire_source ns" "list_all valid_net ns" "length bs = 28 + 8 * length ns"
    by auto
  then show ?thesis using read by auto
qed

theorem negative_limit_stops_node_witness:
  "\<exists>record db'. update_service 41 5 30 (Some sample_user) None None None
       \<lparr> li_vip_pps = Some (- 1), li_vip_bps = None, li_service_pps = None, li_service_bps = None \<rparr> None live_db = (Inr record, db') \<and>
     (\<forall>helper config. \<exists>e. double_buffer_apply helper config db' = (Inl e, db'))"
proof -
  let ?run = "update_service 41 5 30 (Some sample_user) None None None
       \<lparr> li_vip_pps = Some (- 1), li_vip_bps = None, li_service_pps = None, li_service_bps = None \<rparr> None live_db"
  have ok: "\<exists>record. fst ?run = Inr record" and neg: "\<exists>s\<in>set (protected_services (snd ?run)). sv_enabled s \<and> sv_vip_pps s = Some (- 1)"
    by (simp_all add: update_service_def run_simps require_service_def authorize_actor_for_tenant_def live_db_def
        get_service_row_def set_service_def table_simps sample_defs bump_version_def assert_transition_def
        flush_services_def violated_constraint_def enqueue_service_update_def loaded_service_def insert_or_get_job_def
        register_dispatch_def record_event_def record_for_service_def record_from_loaded_def get_plan_def set_limit_def
        service_job_exists_def insert_job_def get_job_def new_service_job_def LEGAL_APPLY_def
        set_if_given_def)
  obtain r where "?run = (Inr r, snd ?run)" using ok by (metis prod.collapse)
  moreover have "\<exists>e. double_buffer_apply helper config (snd ?run) = (Inl e, snd ?run)" for helper config
    using neg by (elim bexE conjE) (rule negative_limit_stops_node [where n = "- 1"], simp_all only: neg_less_0_iff_less zero_less_one)
  ultimately show ?thesis by blast
qed

end
