(* ===== verification/PacketFilter.thy ===== *)
theory PacketFilter
  imports Applier
begin

text \<open>
  The allow-rule stage of the data plane, \<open>data-plane/src/rules.h\<close>: how the
  rules that the helper wrote are matched against a packet.  The lemmas compare
  it with the matching that the control plane reasons about when it warns of
  overlapping rules (RuleMatch), across the serialization of Applier.
\<close>

section \<open>Definitions\<close>

text \<open>What the stage reads of \<open>struct pkt_meta\<close>, the ports in host byte order.\<close>

record pkt_meta =
  pm_ip_proto :: "8 word"
  pm_sport :: "16 word"
  pm_dport :: "16 word"

definition rule_proto_matches :: "cfg_rule \<Rightarrow> pkt_meta \<Rightarrow> bool" where
  "rule_proto_matches rule meta =
     (if cr_proto rule = 0 then pm_ip_proto meta = 6 \<or> pm_ip_proto meta = 17 \<or> pm_ip_proto meta = 1
      else pm_ip_proto meta = cr_proto rule)"

definition port_in_range :: "16 word \<Rightarrow> 16 word \<Rightarrow> 16 word \<Rightarrow> bool" where
  "port_in_range port lo hi \<longleftrightarrow> lo \<le> port \<and> port \<le> hi"

definition rule_ports_match :: "cfg_rule \<Rightarrow> pkt_meta \<Rightarrow> bool" where
  "rule_ports_match rule meta =
     (if cr_proto rule \<noteq> 6 \<and> cr_proto rule \<noteq> 17 then True
      else port_in_range (pm_sport meta) (cr_src_lo rule) (cr_src_hi rule) \<and>
           port_in_range (pm_dport meta) (cr_dst_lo rule) (cr_dst_hi rule))"

definition dp_rule_matches :: "cfg_rule \<Rightarrow> pkt_meta \<Rightarrow> bool" where
  "dp_rule_matches rule meta =
     (if cr_flags rule AND 1 = 0 then False
      else if \<not> rule_proto_matches rule meta then False
      else rule_ports_match rule meta)"

text \<open>
  \<open>struct rule_block\<close>, the rules of a service in their map: the number of rules
  and an array of \<open>RULE_MAX\<close> of them, the unused ones zero.
\<close>

record rule_block =
  rb_version :: "32 word"
  rb_rule_count :: "16 word"
  rb_rules :: "cfg_rule list"

definition zero_rule :: cfg_rule where
  "zero_rule = \<lparr> cr_src_lo = 0, cr_src_hi = 0, cr_dst_lo = 0, cr_dst_hi = 0, cr_proto = 0, cr_flags = 0 \<rparr>"

definition APPLY_CONFIG_VERSION :: "32 word" where
  "APPLY_CONFIG_VERSION = 1"

text \<open>The block that \<open>apply_write_service\<close> fills and stores under the identifier of the service.\<close>

definition write_rule_block :: "cfg_service \<Rightarrow> rule_block" where
  "write_rule_block service =
     \<lparr> rb_version = APPLY_CONFIG_VERSION, rb_rule_count = of_nat (length (cf_rules service)),
        rb_rules = fold (\<lambda>i rules. rules[i := cf_rules service ! i]) [0 ..< length (cf_rules service)]
          (replicate RULE_MAX zero_rule) \<rparr>"

text \<open>
  The search of \<open>allow_rule_stage\<close>: the index of the first rule of the block that
  matches, below the count and below \<open>RULE_MAX\<close>; without one the packet is dropped.
\<close>

fun scan_rules :: "cfg_rule list \<Rightarrow> pkt_meta \<Rightarrow> nat option" where
  "scan_rules [] meta = None"
| "scan_rules (rule # rules) meta =
     (if dp_rule_matches rule meta then Some 0 else map_option Suc (scan_rules rules meta))"

definition matching_rule :: "rule_block \<Rightarrow> pkt_meta \<Rightarrow> nat option" where
  "matching_rule block meta = scan_rules (take (min (unat (rb_rule_count block)) RULE_MAX) (rb_rules block)) meta"

text \<open>
  The loop of \<open>apply_write_service\<close> over the whitelist.  Its index has 16 bits,
  the count of the sources has 32.  \<open>bloom\<close> and \<open>lpm\<close> are the kernel's updates of the two
  maps, with the keys they get, and say whether the kernel took them.
\<close>

definition WL_BLOOM_PREFIX :: nat where
  "WL_BLOOM_PREFIX = 24"

definition write_source ::
  "(32 word \<times> 32 word \<Rightarrow> bool) \<Rightarrow> (32 word \<times> 32 word \<times> bytes \<Rightarrow> bool) \<Rightarrow> 32 word \<Rightarrow> cfg_source \<Rightarrow> bool" where
  "write_source bloom lpm service_id source =
     (if 32 < unat (cs_prefixlen source) then False
      else if WL_BLOOM_PREFIX \<le> unat (cs_prefixlen source) \<and>
        \<not> bloom (service_id, ntohl (cs_addr source) AND 0xffffff00) then False
      else lpm (32 + cs_prefixlen source, service_id, cs_addr source))"

partial_function (option) write_whitelist ::
  "(cfg_source \<Rightarrow> bool) \<Rightarrow> cfg_source list \<Rightarrow> 16 word \<Rightarrow> cfg_source list \<Rightarrow> (bool \<times> cfg_source list) option" where
  "write_whitelist put wl i written =
     (if unat i < length wl then
        if \<not> put (wl ! unat i) then Some (False, written)
        else write_whitelist put wl (i + 1) (written @ [wl ! unat i])
      else Some (True, written))"

lemma write_whitelist_ends:
  assumes "length wl \<le> 65535" "unat i \<le> length wl" "written = take (unat i) wl"
    "\<forall>e\<in>set wl. put e"
  shows "write_whitelist put wl i written = Some (True, wl)"
  using assms
proof (induction "length wl - unat i" arbitrary: i written)
  case 0
  then show ?case by (simp add: write_whitelist.simps)
next
  case (Suc k)
  then have lt: "unat i < length wl" by simp
  have next': "unat (i + 1) = unat i + 1"
  proof -
    have "unat i < 65535" using lt Suc.prems(1) by simp
    then show ?thesis by (simp add: unat_plus_if')
  qed
  have "wl ! unat i \<in> set wl" using lt by simp
  moreover have "write_whitelist put wl (i + 1) (written @ [wl ! unat i]) = Some (True, wl)"
    using Suc.hyps(2) lt Suc.prems by (intro Suc.hyps(1)) (simp_all add: next' take_Suc_conv_app_nth)
  ultimately show ?case using lt Suc.prems(4) by (subst write_whitelist.simps) (auto simp: Let_def not_less)
qed


lemma index_below: "65536 \<le> n \<Longrightarrow> unat (i :: 16 word) < n"
  using unsigned_less [of i, where 'a = nat] by simp

lemma write_whitelist_never_ends:
  assumes "65536 \<le> length wl" "\<forall>e\<in>set (take 65536 wl). put e"
  shows "write_whitelist put wl i written = None"
proof -
  let ?P = "\<lambda>put wl i written r. \<not> (65536 \<le> length wl \<and> (\<forall>e\<in>set (take 65536 wl). put e))"
  have "?P put wl i written r" if "write_whitelist put wl i written = Some r" for r
  proof (rule write_whitelist.raw_induct [where P = ?P, OF _ that], rule notI)
    fix f put wl written r and i :: "16 word"
    assume IH: "\<And>put wl i written r. f put wl i written = Some r \<Longrightarrow> ?P put wl i written r"
      and ok: "65536 \<le> length wl \<and> (\<forall>e\<in>set (take 65536 wl). put e)"
      and body: "(if unat i < length wl then if \<not> put (wl ! unat i) then Some (False, written)
          else f put wl (i + 1) (written @ [wl ! unat i]) else Some (True, written)) = Some r"
    have "unat i < length wl" using ok index_below by blast
    moreover have "unat i < 65536" by (rule index_below) simp
    ultimately have "wl ! unat i \<in> set (take 65536 wl)" by (metis length_take min_less_iff_conj nth_mem nth_take)
    then have "put (wl ! unat i)" using ok by blast
    then have "f put wl (i + 1) (written @ [wl ! unat i]) = Some r"
      using body \<open>unat i < length wl\<close> by (simp add: Let_def)
    then show False using IH ok by blast
  qed
  then show ?thesis using assms by (cases "write_whitelist put wl i written") auto
qed

section \<open>The two notions of a match\<close>

definition meta_of :: "packet \<Rightarrow> pkt_meta" where
  "meta_of p = \<lparr> pm_ip_proto = of_int (protocol_number (pk_protocol p)), pm_sport = of_int (pk_src_port p),
     pm_dport = of_int (pk_dst_port p) \<rparr>"

text \<open>Port ranges belong to the protocols that have ports.\<close>

definition ports_apply :: "allow_rule \<Rightarrow> bool" where
  "ports_apply r \<longleftrightarrow> ru_protocol r = Protocol_tcp \<or> ru_protocol r = Protocol_udp \<or>
     ru_src_port_lo r = None \<and> ru_src_port_hi r = None \<and> ru_dst_port_lo r = None \<and> ru_dst_port_hi r = None"

lemma word_of_int_le_port:
  fixes a b :: int
  assumes "0 \<le> a" "a \<le> 65535" "0 \<le> b" "b \<le> 65535"
  shows "(word_of_int a :: 16 word) \<le> word_of_int b \<longleftrightarrow> a \<le> b"
  using assms by (simp add: word_of_int_less_eq_iff take_bit_int_eq_self)

lemma port_in_range_wire:
  assumes "valid_range (lo, hi)" "0 \<le> x" "x \<le> 65535"
  shows "port_in_range (of_int x) (of_int (or_int lo 0)) (of_int (or_int hi 65535)) \<longleftrightarrow> in_port_range x (lo, hi)"
  using assms(1)
proof (cases rule: valid_range_cases)
  case 1
  then show ?thesis
    using assms(2,3) word_of_int_le_port [of 0 x] word_of_int_le_port [of x 65535]
    by (simp add: port_in_range_def in_port_range_def or_int_def)
next
  case (2 l h)
  then show ?thesis
    using assms(2,3) word_of_int_le_port [of l x] word_of_int_le_port [of x h]
    by (simp add: port_in_range_def in_port_range_def or_int_def)
qed

lemma dp_rule_matches_wire:
  assumes "rule_ports_ok r" "ports_apply r" "wf_packet p"
  shows "dp_rule_matches (wire_rule r) (meta_of p) \<longleftrightarrow> ru_enabled r \<and> rule_matches (rule_of r) p"
proof -
  have src: "port_in_range (of_int (pk_src_port p)) (of_int (or_int (ru_src_port_lo r) 0)) (of_int (or_int (ru_src_port_hi r) 65535))
      \<longleftrightarrow> in_port_range (pk_src_port p) (ru_src_port_lo r, ru_src_port_hi r)"
    and dst: "port_in_range (of_int (pk_dst_port p)) (of_int (or_int (ru_dst_port_lo r) 0)) (of_int (or_int (ru_dst_port_hi r) 65535))
      \<longleftrightarrow> in_port_range (pk_dst_port p) (ru_dst_port_lo r, ru_dst_port_hi r)"
    by (rule port_in_range_wire; use assms(1,3) in \<open>simp add: rule_ports_ok_def wf_packet_def\<close>)+
  have flag: "cr_flags (wire_rule r) AND 1 = 0 \<longleftrightarrow> \<not> ru_enabled r"
    by (simp add: wire_rule_def)
  have any: "in_port_range x (None, None)" for x by (simp add: in_port_range_def)
  show ?thesis
    using assms(2,3) src dst
    by (cases "ru_protocol r"; cases "pk_protocol p")
      (auto simp: dp_rule_matches_def flag rule_proto_matches_def rule_ports_match_def wire_rule_def meta_of_def
        protocol_number_def rule_matches_def rule_of_def ports_apply_def wf_packet_def any)
qed


lemma scan_rules_find:
  assumes "\<And>r. r \<in> set rs \<Longrightarrow> dp_rule_matches (f r) meta = P r"
  shows "map_option ((!) rs) (scan_rules (map f rs) meta) = find P rs"
  using assms by (induction rs) (auto simp: option.map_comp o_def)

lemma fill_block:
  assumes "length rules \<le> n"
  shows "fold (\<lambda>i rs. rs[i := rules ! i]) [0 ..< length rules] (replicate n z) = rules @ replicate (n - length rules) z"
proof -
  have "fold (\<lambda>i rs. rs[i := rules ! i]) [0 ..< k] (replicate n z) = take k rules @ replicate (n - k) z" if "k \<le> length rules" for k
    using that assms
  proof (induction k)
    case (Suc k)
    then have "replicate (n - k) z = z # replicate (n - Suc k) z" by (metis Suc_diff_Suc Suc_le_lessD order_trans replicate_Suc)
    then show ?case using Suc by (simp add: list_update_append take_Suc_conv_app_nth)
  qed simp
  then show ?thesis by simp
qed

lemma matching_rule_written:
  assumes "length (cf_rules c) \<le> RULE_MAX"
  shows "matching_rule (write_rule_block c) meta = scan_rules (cf_rules c) meta"
proof -
  have "unat (of_nat (length (cf_rules c)) :: 16 word) = length (cf_rules c)"
    using assms by (simp add: RULE_MAX_def unat_of_nat take_bit_nat_eq_self)
  then show ?thesis using assms by (simp add: matching_rule_def write_rule_block_def fill_block)
qed


section \<open>Properties\<close>

text \<open>
  C21 The data plane lets through what the rules say.  Take a database in
  order, whose rules restrict ports only for protocols that have ports.  Its
  node snapshot is written, the helper reads it, and in the block of rules that the helper stores
  for each enabled service, the data plane picks, for any packet, the first
  enabled rule in the order of priority that the control plane
  takes to match it; where no enabled rule matches, it picks none and the packet is not admitted.
\<close>

theorem dataplane_matches_rules:
  assumes "ruleset_inv db" "whitelist_inv db" "columns_ok db" "node_fits db"
    and "\<forall>s\<in>set (protected_services db). sv_enabled s \<longrightarrow> limits_ok s"
    and "\<forall>r\<in>set (allow_rules db). ports_apply r" "wf_packet p"
  shows "\<exists>bs node. serialize_node_snapshot (load_node_config db) = Inr bs \<and> parse_snapshot bs = Some node \<and>
    list_all2 (\<lambda>s c. uint (cf_dp_id c) = sv_dp_id s \<and>
        map_option ((!) (sort_key ru_priority (service_rules db s))) (matching_rule (write_rule_block c) (meta_of p)) =
        find (\<lambda>r. ru_enabled r \<and> rule_matches (rule_of r) p) (sort_key ru_priority (service_rules db s)))
      (sort_key sv_dp_id (filter sv_enabled (protected_services db))) (no_services node)"
proof -
  obtain bs where bs: "serialize_node_snapshot (load_node_config db) = Inr bs" "length bs = node_size db"
    "reads rd_node bs \<lparr> no_schema_version = 4, no_snapshot_kind = 1,
       no_services = map (wire_service db) (sort_key sv_dp_id (filter sv_enabled (protected_services db))),
       no_global_revision = 0, no_global_entries = [] \<rparr>"
    by (rule node_snapshot [OF assms(1-4)]) (use assms(5) in auto)
  have "parse_snapshot bs = Some \<lparr> no_schema_version = 4, no_snapshot_kind = 1,
       no_services = map (wire_service db) (sort_key sv_dp_id (filter sv_enabled (protected_services db))),
       no_global_revision = 0, no_global_entries = [] \<rparr>"
    using reads_parse_snapshot [OF bs(3)] bs(2) assms(4) by (simp add: node_size_def node_fits_def)
  moreover have "uint (cf_dp_id (wire_service db s)) = sv_dp_id s \<and>
      map_option ((!) (sort_key ru_priority (service_rules db s))) (matching_rule (write_rule_block (wire_service db s)) (meta_of p)) =
      find (\<lambda>r. ru_enabled r \<and> rule_matches (rule_of r) p) (sort_key ru_priority (service_rules db s))"
    if s: "s \<in> set (protected_services db)" "sv_enabled s" for s
  proof -
    have facts: "\<forall>r\<in>set (service_rules db s). rule_ports_ok r" "length (service_rules db s) \<le> RULE_MAX"
      using enabled_service_facts [OF assms(1,2,4), of s] s by auto
    have rules: "cf_rules (wire_service db s) = map wire_rule (sort_key ru_priority (service_rules db s))"
      by (simp add: wire_service_def Let_def service_rules_def)
    have "dp_rule_matches (wire_rule r) (meta_of p) = (ru_enabled r \<and> rule_matches (rule_of r) p)"
      if "r \<in> set (sort_key ru_priority (service_rules db s))" for r
      using that facts(1) assms(6,7) by (intro dp_rule_matches_wire) (auto simp: service_rules_def)
    then have find: "map_option ((!) (sort_key ru_priority (service_rules db s)))
        (scan_rules (map wire_rule (sort_key ru_priority (service_rules db s))) (meta_of p)) =
        find (\<lambda>r. ru_enabled r \<and> rule_matches (rule_of r) p) (sort_key ru_priority (service_rules db s))"
      by (rule scan_rules_find)
    have "uint (word_of_int (sv_dp_id s) :: 32 word) = sv_dp_id s"
      using s(1) assms(3) by (auto simp: columns_ok_def uint_word_of_int)
    then have "uint (cf_dp_id (wire_service db s)) = sv_dp_id s" by (simp add: wire_service_def Let_def)
    then show ?thesis using facts(2) find by (simp add: matching_rule_written rules)
  qed
  ultimately show ?thesis using bs(1) by (auto simp: list_all2_map2 list_all2_same)
qed

text \<open>
  C35 Ports of a rule without ports are ignored.  An enabled rule for any
  protocol with ports that the control plane accepts is taken there not to match a
  TCP packet whose destination port lies outside of its range; the bytes written for it are read by
  the helper as a rule by which the data plane admits that packet.
\<close>

theorem any_rule_admits_every_port:
  assumes "ru_protocol r = Protocol_any" "ru_enabled r" "rule_ports_ok r" "wf_packet p"
    "pk_protocol p = Protocol_tcp" "\<not> in_port_range (pk_dst_port p) (ru_dst_port_lo r, ru_dst_port_hi r)"
  shows "\<not> rule_matches (rule_of r) p \<and>
    (\<exists>bs rule. pack_rule r = Inr bs \<and> rd_rule bs = (Inr rule, []) \<and> dp_rule_matches rule (meta_of p))"
proof -
  obtain bs where bs: "pack_rule r = Inr bs" using pack_rule_total [OF assms(3)] by blast
  have "rd_rule (bs @ []) = (Inr (wire_rule r), [])" using reads_rule [OF bs] unfolding reads_def by blast
  then have "rd_rule bs = (Inr (wire_rule r), [])" by simp
  moreover have "dp_rule_matches (wire_rule r) (meta_of p)"
    using assms(1,2,5)
    by (simp add: dp_rule_matches_def rule_proto_matches_def rule_ports_match_def wire_rule_def meta_of_def protocol_number_def)
  moreover have "\<not> rule_matches (rule_of r) p"
    using assms(5,6) by (simp add: rule_matches_def rule_of_def)
  ultimately show ?thesis using bs by blast
qed

text \<open>
  C37 The whitelist of a service is written to the end only while it has fewer
  than 65536 sources, although the snapshot may hold 1048576.  With sources the
  kernel takes, the loop ends with all of them written below that number and
  never ends from it on, because its index has 16 bits.
\<close>

theorem long_whitelist_hangs_helper:
  assumes "\<forall>e\<in>set (take 65536 wl). write_source bloom lpm service_id e"
  shows "write_whitelist (write_source bloom lpm service_id) wl 0 [] =
    (if length wl < 65536 then Some (True, wl) else None)"
  using write_whitelist_ends [of wl 0 "[]" "write_source bloom lpm service_id"]
    write_whitelist_never_ends [of wl "write_source bloom lpm service_id" 0 "[]"] assms by simp


theorem dataplane_matches_rules_witness:
  "\<exists>bs node c. serialize_node_snapshot (load_node_config live_db) = Inr bs \<and> parse_snapshot bs = Some node \<and>
     no_services node = [c] \<and>
     matching_rule (write_rule_block c) (meta_of \<lparr> pk_protocol = Protocol_tcp, pk_src_port = 4000, pk_dst_port = 22 \<rparr>) = None"
proof -
  let ?p = "\<lparr> pk_protocol = Protocol_tcp, pk_src_port = 4000, pk_dst_port = 22 \<rparr>"
  have "\<forall>r\<in>set (allow_rules live_db). ports_apply r" "wf_packet ?p"
    by (simp_all add: live_db_fields ports_apply_def web_rule_def wf_packet_def)
  from dataplane_matches_rules [OF live_db_inv live_db_sizes(2-4) this]
  obtain bs node c where "serialize_node_snapshot (load_node_config live_db) = Inr bs" "parse_snapshot bs = Some node"
    "no_services node = [c]"
    "map_option ((!) [web_rule]) (matching_rule (write_rule_block c) (meta_of ?p)) =
       find (\<lambda>r. ru_enabled r \<and> rule_matches (rule_of r) ?p) [web_rule]"
    by (auto simp: live_db_fields live_db_sizes(5) list_all2_Cons1 simp del: find.simps)
  then show ?thesis
    by (simp add: web_rule_def rule_of_def rule_matches_def in_port_range_def)
qed

theorem any_rule_admits_every_port_witness:
  "let r = web_rule\<lparr>ru_protocol := Protocol_any, ru_dst_port_lo := Some 443, ru_dst_port_hi := Some 443\<rparr>;
       p = \<lparr> pk_protocol = Protocol_tcp, pk_src_port = 4000, pk_dst_port = 22 \<rparr>
   in rule_ports_ok r \<and> \<not> rule_matches (rule_of r) p \<and>
     (\<exists>bs rule. pack_rule r = Inr bs \<and> rd_rule bs = (Inr rule, []) \<and> dp_rule_matches rule (meta_of p))"
proof -
  let ?r = "web_rule\<lparr>ru_protocol := Protocol_any, ru_dst_port_lo := Some 443, ru_dst_port_hi := Some 443\<rparr>"
  let ?p = "\<lparr> pk_protocol = Protocol_tcp, pk_src_port = 4000, pk_dst_port = 22 \<rparr>"
  have ok: "ru_protocol ?r = Protocol_any" "ru_enabled ?r" "rule_ports_ok ?r" "wf_packet ?p" "pk_protocol ?p = Protocol_tcp"
      "\<not> in_port_range (pk_dst_port ?p) (ru_dst_port_lo ?r, ru_dst_port_hi ?r)"
    by (simp_all add: rule_ports_ok_def valid_range_def validate_port_range_def wf_packet_def web_rule_def in_port_range_def)
  show ?thesis using any_rule_admits_every_port [OF ok] ok(3) by (simp only: Let_def simp_thms)
qed

theorem long_whitelist_hangs_helper_witness:
  "let put = write_source (\<lambda>_. True) (\<lambda>_. True) 1; e = wire_source (Net 167772160 8)
   in write_whitelist put (replicate 70000 e) 0 [] = None \<and> write_whitelist put [e] 0 [] = Some (True, [e])"
proof -
  have ok: "\<forall>e\<in>set (take 65536 (replicate n (wire_source (Net 167772160 8)))). write_source (\<lambda>_. True) (\<lambda>_. True) 1 e" for n
    by (simp add: wire_source_def write_source_def)
  show ?thesis
    using long_whitelist_hangs_helper [OF ok, of 70000] long_whitelist_hangs_helper [OF ok, of 1] by simp
qed

end
