(* ===== verification/Feeds.thy ===== *)
theory Feeds
  imports Lists "HOL-Library.Option_ord" "HOL-Library.Char_ord"
begin

text \<open>
  The threat-feed sources, \<open>app/services/feeds.py\<close>, with what it uses of
  \<open>urllib.parse\<close>: the validation of a source, its creation, change and deletion,
  and the enqueueing of its runs.  A request is the mapping of its fields to JSON
  values; text is taken to be ASCII, where \<open>casefold\<close> is \<open>lower\<close>.  The lemmas
  show that a source has at most one run under way, that runs are numbered
  without repetition, and that deleting a feed removes what it asserted.
\<close>

section \<open>Requests\<close>

definition MIN_SYNC_INTERVAL_SECONDS :: int where
  "MIN_SYNC_INTERVAL_SECONDS = 300"

definition MAX_SYNC_INTERVAL_SECONDS :: int where
  "MAX_SYNC_INTERVAL_SECONDS = 604800"

definition FEED_SYNC_TARGET_TYPE :: string where
  "FEED_SYNC_TARGET_TYPE = ''feed_sync_run''"

definition unprocessable :: "string \<Rightarrow> exc" where
  "unprocessable detail = HTTPException 422 (JStr detail)"

definition conflict :: "string \<Rightarrow> exc" where
  "conflict detail = HTTPException 409 (JStr detail)"

type_synonym payload = "(string \<times> json) list"

definition value_of :: "payload \<Rightarrow> string \<Rightarrow> json \<Rightarrow> json" where
  "value_of payload field dflt = (case map_of payload field of None \<Rightarrow> dflt | Some v \<Rightarrow> v)"

definition has_field :: "payload \<Rightarrow> string \<Rightarrow> bool" where
  "has_field payload field \<longleftrightarrow> map_of payload field \<noteq> None"

definition required :: "payload \<Rightarrow> string \<Rightarrow> exc + json" where
  "required payload field =
     (case map_of payload field of
        None \<Rightarrow> Inl (unprocessable (field @ '' is required''))
      | Some v \<Rightarrow> Inr v)"

section \<open>Validation\<close>

definition strip_string :: "string \<Rightarrow> string" where
  "strip_string s = chars (strip (codes s))"

definition validate_name :: "json \<Rightarrow> exc + string" where
  "validate_name value =
     (case value of
        JStr s \<Rightarrow>
          let name = strip_string s in
          if name = '''' \<or> 255 < length name
          then Inl (unprocessable ''Feed source name must be between 1 and 255 characters'')
          else Inr name
      | _ \<Rightarrow> Inl (unprocessable ''Feed source name must be a string''))"

text \<open>\<open>partition\<close> and \<open>rpartition\<close> for one character: what precedes it, whether it occurs, what follows.\<close>

definition partition_at :: "char \<Rightarrow> string \<Rightarrow> string \<times> bool \<times> string" where
  "partition_at c s = (takeWhile (\<lambda>x. x \<noteq> c) s, c \<in> set s, drop 1 (dropWhile (\<lambda>x. x \<noteq> c) s))"

definition rpartition_at :: "char \<Rightarrow> string \<Rightarrow> string \<times> bool \<times> string" where
  "rpartition_at c s =
     (case partition_at c (rev s) of (a, found, b) \<Rightarrow> (rev b, found, rev a))"

record split_url =
  su_scheme :: string
  su_netloc :: string
  su_fragment :: string

definition is_ascii_alpha :: "char \<Rightarrow> bool" where
  "is_ascii_alpha c \<longleftrightarrow> lower_char c \<in> {CHR ''a''..CHR ''z''}"

definition is_scheme_char :: "char \<Rightarrow> bool" where
  "is_scheme_char c \<longleftrightarrow> is_ascii_alpha c \<or> c \<in> {CHR ''0''..CHR ''9''} \<or> c \<in> set ''+-.''"

definition split_scheme :: "string \<Rightarrow> string \<times> string" where
  "split_scheme url =
     (case partition_at (CHR '':'') url of (before, found, rest) \<Rightarrow>
        if found \<and> before \<noteq> '''' \<and> is_ascii_alpha (hd before) \<and> list_all is_scheme_char before
        then (lower before, rest) else ('''', url))"

text \<open>The host of a network location and the text of its port, \<open>_hostinfo\<close>.\<close>

definition hostinfo :: "string \<Rightarrow> string \<times> string" where
  "hostinfo netloc =
     (case rpartition_at (CHR ''@'') netloc of (_, _, info) \<Rightarrow>
      case partition_at (CHR ''['') info of (_, have_open_br, bracketed) \<Rightarrow>
        if have_open_br then
          (case partition_at (CHR '']'') bracketed of (hostname, _, rest) \<Rightarrow>
             (hostname, snd (snd (partition_at (CHR '':'') rest))))
        else (case partition_at (CHR '':'') info of (hostname, _, port) \<Rightarrow> (hostname, port)))"

text \<open>
  What a bracketed host may be is decided by \<open>ipaddress\<close> and differs between
  releases of Python; \<open>bracketed_ok\<close> stands for that decision.
\<close>

definition urlsplit :: "(string \<Rightarrow> bool) \<Rightarrow> string \<Rightarrow> split_url option" where
  "urlsplit bracketed_ok value =
     (let url = filter (\<lambda>c. c \<notin> {CHR 0x09, CHR 0x0A, CHR 0x0D}) (dropWhile (\<lambda>c. of_char c \<le> (32 :: nat)) value);
          (scheme, rest) = split_scheme url;
          (netloc, rest) = (if take 2 rest = ''//''
            then (takeWhile (\<lambda>c. c \<notin> set ''/?#'') (drop 2 rest), dropWhile (\<lambda>c. c \<notin> set ''/?#'') (drop 2 rest))
            else ('''', rest))
      in if (CHR ''['' \<in> set netloc) \<noteq> (CHR '']'' \<in> set netloc) then None
         else if CHR ''['' \<in> set netloc \<and> \<not> bracketed_ok netloc then None
         else Some \<lparr> su_scheme = scheme, su_netloc = netloc,
                su_fragment = snd (snd (partition_at (CHR ''#'') rest)) \<rparr>)"

text \<open>\<open>parsed.port\<close> raises unless the port is absent or a number up to 65535.\<close>

definition port_readable :: "split_url \<Rightarrow> bool" where
  "port_readable u =
     (let port = codes (snd (hostinfo (su_netloc u)))
      in port = [] \<or> ascii_digits port \<and> length port \<le> 4300 \<and> int10 port \<le> 65535)"

definition validate_url :: "(string \<Rightarrow> bool) \<Rightarrow> json \<Rightarrow> exc + string" where
  "validate_url bracketed_ok value =
     (case value of
        JStr s \<Rightarrow>
          (case urlsplit bracketed_ok s of
             None \<Rightarrow> Inl (unprocessable ''Feed source URL must be a valid HTTPS URL'')
           | Some parsed \<Rightarrow>
               if \<not> port_readable parsed then Inl (unprocessable ''Feed source URL must be a valid HTTPS URL'')
               else if su_scheme parsed \<noteq> ''https'' \<or> su_netloc parsed = '''' \<or>
                 fst (hostinfo (su_netloc parsed)) = '''' \<or> CHR ''@'' \<in> set (su_netloc parsed) \<or>
                 su_fragment parsed \<noteq> '''' \<or> CHR ''#'' \<in> set s
               then Inl (unprocessable ''Feed source URL must be HTTPS without userinfo or fragments'')
               else Inr s)
      | _ \<Rightarrow> Inl (unprocessable ''Feed source URL must be a string''))"

definition validate_interval :: "json \<Rightarrow> exc + int" where
  "validate_interval value =
     (case value of
        JInt n \<Rightarrow>
          if \<not> (MIN_SYNC_INTERVAL_SECONDS \<le> n \<and> n \<le> MAX_SYNC_INTERVAL_SECONDS)
          then Inl (unprocessable ''sync_interval_seconds must be between 300 and 604800'')
          else Inr n
      | _ \<Rightarrow> Inl (unprocessable ''sync_interval_seconds must be an integer''))"

definition validate_format :: "json \<Rightarrow> exc + FeedFormat" where
  "validate_format value =
     (if value = JStr ''line_list'' then Inr FeedFormat_line_list
      else Inl (unprocessable ''Unsupported feed format''))"

definition is_env_char :: "char \<Rightarrow> bool" where
  "is_env_char c \<longleftrightarrow> c \<in> {CHR ''A''..CHR ''Z''} \<union> {CHR ''0''..CHR ''9''} \<union> {CHR ''_''}"

definition validate_credential_env_var :: "json \<Rightarrow> exc + string option" where
  "validate_credential_env_var value =
     (case value of
        JNull \<Rightarrow> Inr None
      | JStr s \<Rightarrow>
          if s \<noteq> '''' \<and> hd s \<in> {CHR ''A''..CHR ''Z''} \<and> list_all is_env_char s \<and> length s \<le> 128
          then Inr (Some s)
          else Inl (unprocessable ''credential_env_var must be an uppercase environment variable name'')
      | _ \<Rightarrow> Inl (unprocessable ''credential_env_var must be an uppercase environment variable name''))"

definition validate_enabled :: "json \<Rightarrow> exc + bool" where
  "validate_enabled value =
     (case value of JBool b \<Rightarrow> Inr b | _ \<Rightarrow> Inl (unprocessable ''enabled must be a boolean''))"

section \<open>Sources\<close>

definition source_for_update :: "uuid \<Rightarrow> threat_feed_source option dbprog" where
  "source_for_update source_id = gets (\<lambda>db. get_source db source_id)"

definition active_source_for_update :: "uuid \<Rightarrow> threat_feed_source dbprog" where
  "active_source_for_update source_id =
     andThen (source_for_update source_id) (\<lambda>source.
     case source of
       None \<Rightarrow> raise (HTTPException 404 (JStr ''Feed source not found''))
     | Some s \<Rightarrow>
         if fs_deleted_at s \<noteq> None then raise (HTTPException 404 (JStr ''Feed source not found''))
         else ret s)"

definition ensure_name_available :: "string \<Rightarrow> uuid option \<Rightarrow> unit dbprog" where
  "ensure_name_available name exclude_source_id =
     andThen (gets (\<lambda>db. filter (\<lambda>s. citext_eq (fs_name s) name \<and> fs_deleted_at s = None \<and>
         exclude_source_id \<noteq> Some (fs_id s)) (threat_feed_sources db))) (\<lambda>found.
     andThen (one_or_none found) (\<lambda>found.
     ensure (found = None) (conflict ''Feed source name already exists'')))"

text \<open>The constraints of the table; the unique name counts deleted sources too.\<close>

definition violated_source_constraint :: "threat_feed_source list \<Rightarrow> string option" where
  "violated_source_constraint ss =
     (if \<not> distinct (map fs_id ss) then Some ''threat_feed_source_pkey''
      else if \<not> distinct (map (lower \<circ> fs_name) ss) then Some ''uq_threat_feed_source_name''
      else if \<not> list_all (\<lambda>s. 300 \<le> fs_sync_interval_seconds s \<and> fs_sync_interval_seconds s \<le> 604800) ss
      then Some ''ck_threat_feed_source_sync_interval''
      else None)"

definition flush_sources :: "unit dbprog" where
  "flush_sources =
     andThen (gets (\<lambda>db. violated_source_constraint (threat_feed_sources db))) (\<lambda>v.
     case v of None \<Rightarrow> ret () | Some c \<Rightarrow> raise (IntegrityError c))"

definition name_conflict :: "exc \<Rightarrow> 'a dbprog" where
  "name_conflict e =
     (if e = IntegrityError ''uq_threat_feed_source_name''
      then raise (conflict ''Feed source name already exists'') else raise e)"

definition create_source ::
  "(string \<Rightarrow> bool) \<Rightarrow> uuid \<Rightarrow> timestamp \<Rightarrow> payload \<Rightarrow> user option \<Rightarrow> threat_feed_source dbprog" where
  "create_source bracketed_ok new_id now payload actor =
     andThen (of_result (required payload ''name'')) (\<lambda>v. andThen (of_result (validate_name v)) (\<lambda>name.
     andThen (of_result (required payload ''url'')) (\<lambda>v. andThen (of_result (validate_url bracketed_ok v)) (\<lambda>url.
     andThen (of_result (required payload ''sync_interval_seconds'')) (\<lambda>v.
     andThen (of_result (validate_interval v)) (\<lambda>interval.
     andThen (of_result (validate_format (value_of payload ''format'' (JStr ''line_list'')))) (\<lambda>feed_format.
     andThen (of_result (validate_credential_env_var (value_of payload ''credential_env_var'' JNull)))
       (\<lambda>credential_env_var.
     andThen (of_result (validate_enabled (value_of payload ''enabled'' (JBool True)))) (\<lambda>enabled.
     andThen (ensure_name_available name None) (\<lambda>_.
     let source = \<lparr> fs_id = new_id, fs_name = name, fs_url = url, fs_format = feed_format, fs_enabled = enabled,
           fs_sync_interval_seconds = interval, fs_credential_env_var = credential_env_var,
           fs_sync_sequence = 0, fs_last_status = None, fs_last_error = None, fs_last_sync_at = None,
           fs_next_sync_at = (if enabled then Some now else None), fs_deleted_at = None, fs_created_at = now \<rparr> in
     andThen (catch (transaction
         (andThen (modify (\<lambda>db. db\<lparr>threat_feed_sources := threat_feed_sources db @ [source]\<rparr>)) (\<lambda>_. flush_sources)))
       name_conflict) (\<lambda>_.
     andThen (record_event now actor ''feed.create'' (Some ''threat_feed_source'') (JUuid new_id) ''success''
       None (Some [(''name'', JStr name), (''enabled'', JBool enabled)])) (\<lambda>_.
     ret source))))))))))))"

definition changed_name :: "payload \<Rightarrow> threat_feed_source \<Rightarrow> string dbprog" where
  "changed_name payload locked =
     (if \<not> has_field payload ''name'' then ret (fs_name locked)
      else
        andThen (of_result (validate_name (value_of payload ''name'' JNull))) (\<lambda>name.
        if lower name = lower (fs_name locked) then ret (fs_name locked)
        else andThen (ensure_name_available name (Some (fs_id locked))) (\<lambda>_. ret name)))"

definition field_or :: "payload \<Rightarrow> string \<Rightarrow> (json \<Rightarrow> exc + 'a) \<Rightarrow> 'a \<Rightarrow> exc + 'a" where
  "field_or payload field validate old =
     (if has_field payload field then validate (value_of payload field JNull) else Inr old)"

definition next_sync :: "timestamp \<Rightarrow> threat_feed_source \<Rightarrow> threat_feed_source \<Rightarrow> timestamp option" where
  "next_sync now old locked =
     (if \<not> fs_enabled locked then None
      else if \<not> fs_enabled old \<or> fs_url locked \<noteq> fs_url old \<or> fs_credential_env_var locked \<noteq> fs_credential_env_var old
      then Some now
      else if fs_sync_interval_seconds locked \<noteq> fs_sync_interval_seconds old
      then Some (now + seconds (fs_sync_interval_seconds locked))
      else fs_next_sync_at old)"

definition update_source ::
  "(string \<Rightarrow> bool) \<Rightarrow> timestamp \<Rightarrow> uuid \<Rightarrow> payload \<Rightarrow> user option \<Rightarrow> threat_feed_source dbprog" where
  "update_source bracketed_ok now source_id payload actor =
     andThen (active_source_for_update source_id) (\<lambda>old.
     andThen (changed_name payload old) (\<lambda>name.
     andThen (of_result (field_or payload ''url'' (validate_url bracketed_ok) (fs_url old))) (\<lambda>url.
     andThen (of_result (field_or payload ''format'' validate_format (fs_format old))) (\<lambda>feed_format.
     andThen (of_result (field_or payload ''credential_env_var'' validate_credential_env_var
       (fs_credential_env_var old))) (\<lambda>credential_env_var.
     andThen (of_result (field_or payload ''sync_interval_seconds'' validate_interval
       (fs_sync_interval_seconds old))) (\<lambda>interval.
     andThen (of_result (field_or payload ''enabled'' validate_enabled (fs_enabled old))) (\<lambda>enabled.
     let edited = old\<lparr>fs_name := name, fs_url := url, fs_format := feed_format,
           fs_credential_env_var := credential_env_var, fs_sync_interval_seconds := interval, fs_enabled := enabled\<rparr>;
         locked = edited\<lparr>fs_next_sync_at := next_sync now old edited\<rparr> in
     andThen (modify (set_source source_id (\<lambda>_. locked))) (\<lambda>_.
     andThen (catch flush_sources name_conflict) (\<lambda>_.
     andThen (record_event now actor ''feed.update'' (Some ''threat_feed_source'') (JUuid source_id) ''success''
       None (Some [(''name'', JStr name), (''enabled'', JBool enabled)])) (\<lambda>_.
     ret locked))))))))))"

section \<open>Runs\<close>

definition is_feed_job :: "agent_job \<Rightarrow> bool" where
  "is_feed_job j \<longleftrightarrow> jb_job_type j = JobType_feed_sync"

text \<open>The join of runs and jobs under way, in the order of the jobs.\<close>

definition inflight_jobs :: "db \<Rightarrow> uuid \<Rightarrow> agent_job list" where
  "inflight_jobs db source_id =
     filter (\<lambda>j. is_feed_job j \<and> is_active_job j \<and>
         (case locked_run db (jb_feed_sync_run_id j) of None \<Rightarrow> False | Some r \<Rightarrow> fr_feed_source_id r = source_id))
       (agent_jobs db)"

definition inflight_run :: "uuid \<Rightarrow> feed_sync_run option dbprog" where
  "inflight_run source_id =
     gets (\<lambda>db. Option.bind (first_of (sort_key (\<lambda>j. (jb_created_at j, jb_id j)) (inflight_jobs db source_id)))
       (\<lambda>j. locked_run db (jb_feed_sync_run_id j)))"

definition job_for_run_for_update :: "uuid \<Rightarrow> agent_job option dbprog" where
  "job_for_run_for_update run_id =
     andThen (gets (\<lambda>db. filter (\<lambda>j. jb_feed_sync_run_id j = Some run_id \<and> is_feed_job j) (agent_jobs db)))
       one_or_none"

definition new_run :: "uuid \<Rightarrow> threat_feed_source \<Rightarrow> ChangeTrigger \<Rightarrow> bool \<Rightarrow> feed_sync_run" where
  "new_run run_id source trigger dry_run =
     \<lparr> fr_id = run_id, fr_feed_source_id = fs_id source, fr_source_name = fs_name source,
        fr_sequence = fs_sync_sequence source + 1, fr_trigger = trigger, fr_dry_run = dry_run,
        fr_status = FeedSync_queued, fr_started_at = None, fr_finished_at = None, fr_duration_ms = None,
        fr_error = None, fr_fetched_lines = 0, fr_valid = 0, fr_duplicates = 0, fr_added = 0, fr_removed = 0,
        fr_skipped_invalid = 0, fr_overlap_count = 0, fr_global_changed = False, fr_desired_revision = None,
        fr_node_map_version = None \<rparr>"

definition new_feed_job :: "uuid \<Rightarrow> timestamp \<Rightarrow> feed_sync_run \<Rightarrow> agent_job" where
  "new_feed_job job_id now run =
     \<lparr> jb_id = job_id, jb_target_type = FEED_SYNC_TARGET_TYPE, jb_target_id = None,
        jb_feed_sync_run_id = Some (fr_id run), jb_version = fr_sequence run, jb_job_type = JobType_feed_sync,
        jb_trigger = fr_trigger run, jb_status = JobStatus_queued, jb_error = None, jb_attempts = 0,
        jb_dispatched_at = None, jb_created_at = now, jb_started_at = None, jb_finished_at = None \<rparr>"

definition insert_run :: "feed_sync_run \<Rightarrow> unit dbprog" where
  "insert_run run =
     andThen (gets (\<lambda>db. get_run db (fr_id run) = None)) (\<lambda>fresh.
     andThen (ensure fresh (IntegrityError ''feed_sync_run_pkey'')) (\<lambda>_.
     andThen (gets (\<lambda>db. list_ex (\<lambda>r. fr_feed_source_id r = fr_feed_source_id run \<and> fr_sequence r = fr_sequence run)
       (feed_sync_runs db))) (\<lambda>taken.
     andThen (ensure (\<not> taken) (IntegrityError ''uq_feed_sync_run_source_sequence'')) (\<lambda>_.
     modify (\<lambda>db. db\<lparr>feed_sync_runs := feed_sync_runs db @ [run]\<rparr>)))))"

text \<open>The identifiers of the new run and of its job are parameters.\<close>

definition enqueue_locked ::
  "uuid \<Rightarrow> uuid \<Rightarrow> timestamp \<Rightarrow> threat_feed_source \<Rightarrow> ChangeTrigger \<Rightarrow> bool \<Rightarrow> feed_sync_run dbprog" where
  "enqueue_locked run_id job_id now source trigger dry_run =
     andThen (inflight_run (fs_id source)) (\<lambda>existing.
     case existing of
       Some run \<Rightarrow> ret run
     | None \<Rightarrow>
     let run = new_run run_id source trigger dry_run in
     andThen (modify (set_source (fs_id source) (\<lambda>s. s\<lparr>fs_sync_sequence := fs_sync_sequence s + 1\<rparr>))) (\<lambda>_.
     andThen (insert_run run) (\<lambda>_.
     andThen (insert_job (new_feed_job job_id now run)) (\<lambda>_.
     andThen (register_dispatch job_id) (\<lambda>_.
     ret run)))))"

definition enqueue_sync ::
  "uuid \<Rightarrow> uuid \<Rightarrow> timestamp \<Rightarrow> uuid \<Rightarrow> ChangeTrigger \<Rightarrow> bool \<Rightarrow> feed_sync_run dbprog" where
  "enqueue_sync run_id job_id now source_id trigger dry_run =
     andThen (source_for_update source_id) (\<lambda>found.
     case found of
       None \<Rightarrow> raise (HTTPException 404 (JStr ''Feed source not found''))
     | Some locked \<Rightarrow>
         if fs_deleted_at locked \<noteq> None \<and> trigger \<noteq> Trigger_feed_delete
         then raise (HTTPException 404 (JStr ''Feed source not found''))
         else enqueue_locked run_id job_id now locked trigger dry_run)"

text \<open>
  The trigger of a run under way is rewritten to \<open>feed_delete\<close>, so that the
  deletion finds it live; then the feed's assertions are replaced by none.
\<close>

definition retag_delete :: "feed_sync_run \<Rightarrow> feed_sync_run dbprog" where
  "retag_delete run =
     (if fr_trigger run = Trigger_feed_delete then ret run
      else
        andThen (modify (set_run (fr_id run) (\<lambda>r. r\<lparr>fr_trigger := Trigger_feed_delete, fr_dry_run := False\<rparr>))) (\<lambda>_.
        andThen (job_for_run_for_update (fr_id run)) (\<lambda>job.
        andThen (case job of None \<Rightarrow> ret ()
            | Some j \<Rightarrow> modify (set_job (jb_id j) (\<lambda>j. j\<lparr>jb_trigger := Trigger_feed_delete\<rparr>))) (\<lambda>_.
        ret (run\<lparr>fr_trigger := Trigger_feed_delete, fr_dry_run := False\<rparr>)))))"

definition delete_source ::
  "(ustr \<Rightarrow> string) \<Rightarrow> (ustr list \<Rightarrow> ustr list) \<Rightarrow> (net \<Rightarrow> uuid) \<Rightarrow> uuid \<Rightarrow> uuid \<Rightarrow> timestamp \<Rightarrow> uuid
   \<Rightarrow> user option \<Rightarrow> feed_sync_run dbprog" where
  "delete_source sha256 collated entry_id run_id job_id now source_id actor =
     andThen (active_source_for_update source_id) (\<lambda>locked.
     andThen (modify (set_source source_id (\<lambda>s. s\<lparr>fs_enabled := False, fs_next_sync_at := None,
       fs_deleted_at := Some now\<rparr>))) (\<lambda>_.
     andThen (enqueue_locked run_id job_id now locked Trigger_feed_delete False) (\<lambda>run.
     andThen (retag_delete run) (\<lambda>run.
     andThen (reconcile sha256 collated entry_id now run (parse_line_list [])) (\<lambda>_.
     andThen (record_event now actor ''feed.delete'' (Some ''threat_feed_source'') (JUuid source_id) ''success''
       None (Some [(''dangerous'', JBool True), (''name'', JStr (fs_name locked))])) (\<lambda>_.
     ret run))))))"

text \<open>\<open>row_free\<close> tells which rows are not locked by another transaction.\<close>

definition list_due_sources :: "(uuid \<Rightarrow> bool) \<Rightarrow> timestamp \<Rightarrow> int \<Rightarrow> db \<Rightarrow> threat_feed_source list" where
  "list_due_sources row_free now limit db =
     (if limit \<le> 0 then []
      else take (nat limit) (sort_key (\<lambda>s. (fs_next_sync_at s, fs_created_at s, fs_id s))
        (filter (\<lambda>s. fs_enabled s \<and> fs_deleted_at s = None \<and>
             (case fs_next_sync_at s of None \<Rightarrow> False | Some t \<Rightarrow> t \<le> now) \<and>
             inflight_jobs db (fs_id s) = [] \<and> row_free (fs_id s)) (threat_feed_sources db))))"

section \<open>The invariant\<close>

text \<open>What of the tables the invariant speaks about, a tuple for each row.\<close>

definition source_view :: "threat_feed_source \<Rightarrow> uuid \<times> string \<times> int \<times> int" where
  "source_view s = (fs_id s, lower (fs_name s), fs_sync_interval_seconds s, fs_sync_sequence s)"

definition run_view :: "feed_sync_run \<Rightarrow> uuid \<times> uuid \<times> int \<times> FeedSyncStatus" where
  "run_view r = (fr_id r, fr_feed_source_id r, fr_sequence r, fr_status r)"

definition feed_job_view :: "agent_job \<Rightarrow> uuid \<times> bool \<times> JobStatus \<times> uuid option" where
  "feed_job_view j = (jb_id j, is_feed_job j, jb_status j, jb_feed_sync_run_id j)"

definition under_way :: "JobStatus \<Rightarrow> bool" where
  "under_way st \<longleftrightarrow> st = JobStatus_queued \<or> st = JobStatus_applying"

definition inflight_of ::
  "(uuid \<times> uuid \<times> int \<times> FeedSyncStatus) list \<Rightarrow> uuid \<Rightarrow> uuid \<times> bool \<times> JobStatus \<times> uuid option \<Rightarrow> bool" where
  "inflight_of rs i j = (case j of (_, feed, st, rid) \<Rightarrow>
     feed \<and> under_way st \<and> (\<exists>r q t. rid = Some r \<and> (r, i, q, t) \<in> set rs))"

definition feeds_ok ::
  "(uuid \<times> string \<times> int \<times> int) list \<Rightarrow> (uuid \<times> uuid \<times> int \<times> FeedSyncStatus) list
   \<Rightarrow> (uuid \<times> bool \<times> JobStatus \<times> uuid option) list \<Rightarrow> bool" where
  "feeds_ok ss rs js \<longleftrightarrow>
     distinct (map fst ss) \<and> distinct (map (fst \<circ> snd) ss) \<and>
     (\<forall>(i, n, interval, q)\<in>set ss. 300 \<le> interval \<and> interval \<le> 604800) \<and>
     distinct (map fst rs) \<and> distinct (map (\<lambda>(r, i, q, t). (i, q)) rs) \<and>
     (\<forall>(r, i, q, t)\<in>set rs. \<exists>n interval k. (i, n, interval, k) \<in> set ss \<and> q \<le> k) \<and>
     distinct (map fst js) \<and> distinct (filter (\<lambda>x. x \<noteq> None) (map (snd \<circ> snd \<circ> snd) js)) \<and>
     (\<forall>(k, feed, st, rid)\<in>set js. \<forall>r. rid = Some r \<longrightarrow> feed \<and> (\<exists>i q t. (r, i, q, t) \<in> set rs \<and> feed_coupled st t)) \<and>
     (\<forall>i. length (filter (inflight_of rs i) js) \<le> 1)"

definition feeds_inv :: "db \<Rightarrow> bool" where
  "feeds_inv db \<longleftrightarrow> feeds_ok (map source_view (threat_feed_sources db)) (map run_view (feed_sync_runs db))
     (map feed_job_view (agent_jobs db))"

section \<open>Lemmas\<close>

subsection \<open>Runs under way\<close>

lemma row_case:
  assumes "distinct (map key rs)"
  shows "(case row key k rs of None \<Rightarrow> False | Some r \<Rightarrow> P r) = (\<exists>r\<in>set rs. key r = k \<and> P r)"
proof (cases "row key k rs")
  case None
  then show ?thesis using row_NoneD by fastforce
next
  case (Some r)
  have "r' = r" if "r' \<in> set rs" "key r' = k" for r'
    using row_distinct [OF assms that(1)] that(2) Some by simp
  then show ?thesis using row_SomeD [OF Some] Some by auto
qed

lemma inflight_jobs_view:
  assumes "distinct (map fr_id (feed_sync_runs db))"
  shows "map feed_job_view (inflight_jobs db i) =
    filter (inflight_of (map run_view (feed_sync_runs db)) i) (map feed_job_view (agent_jobs db))"
proof -
  have "(case locked_run db rid of None \<Rightarrow> False | Some r \<Rightarrow> fr_feed_source_id r = i) =
      (\<exists>r q t. rid = Some r \<and> (r, i, q, t) \<in> run_view ` set (feed_sync_runs db))" for rid
    by (cases rid) (auto simp: locked_run_def get_run_def run_view_def image_iff row_case [OF assms])
  then show ?thesis
    by (simp add: inflight_jobs_def filter_map o_def inflight_of_def feed_job_view_def under_way_def is_active_job_def)
qed

lemma feeds_invD:
  assumes "feeds_inv db"
  shows "violated_source_constraint (threat_feed_sources db) = None" "distinct (map fr_id (feed_sync_runs db))"
    "distinct (map jb_id (agent_jobs db))" "length (inflight_jobs db i) \<le> 1"
proof -
  have ok: "feeds_ok (map source_view (threat_feed_sources db)) (map run_view (feed_sync_runs db))
     (map feed_job_view (agent_jobs db))"
    using assms by (simp add: feeds_inv_def)
  have m: "fst \<circ> source_view = fs_id" "fst \<circ> snd \<circ> source_view = lower \<circ> fs_name" "fst \<circ> run_view = fr_id"
    "fst \<circ> feed_job_view = jb_id"
    by (auto simp: source_view_def run_view_def feed_job_view_def)
  show runs: "distinct (map fr_id (feed_sync_runs db))" "distinct (map jb_id (agent_jobs db))"
    using ok by (auto simp: feeds_ok_def m)
  show "violated_source_constraint (threat_feed_sources db) = None"
    using ok unfolding feeds_ok_def map_map m
    by (auto simp: violated_source_constraint_def source_view_def list_all_iff)
  have "length (map feed_job_view (inflight_jobs db i)) \<le> 1"
    using ok unfolding inflight_jobs_view [OF runs(1)] feeds_ok_def by blast
  then show "length (inflight_jobs db i) \<le> 1" by simp
qed

lemma feeds_okD:
  assumes "feeds_ok ss rs js"
  shows "distinct (map fst ss)" "distinct (map (fst \<circ> snd) ss)"
    "(i, n, interval, q) \<in> set ss \<Longrightarrow> 300 \<le> interval \<and> interval \<le> 604800"
    "distinct (map fst rs)" "distinct (map (\<lambda>(r, i, q, t). (i, q)) rs)"
    "(r, i, q, t) \<in> set rs \<Longrightarrow> \<exists>n interval k. (i, n, interval, k) \<in> set ss \<and> q \<le> k"
    "distinct (map fst js)" "distinct (filter (\<lambda>x. x \<noteq> None) (map (snd \<circ> snd \<circ> snd) js))"
    "(k, feed, st, Some r) \<in> set js \<Longrightarrow> feed \<and> (\<exists>i q t. (r, i, q, t) \<in> set rs \<and> feed_coupled st t)"
    "length (filter (inflight_of rs i) js) \<le> 1"
  using assms unfolding feeds_ok_def by (blast+)

lemma feeds_okI:
  assumes "distinct (map fst ss)" "distinct (map (fst \<circ> snd) ss)"
    "\<And>i n interval q. (i, n, interval, q) \<in> set ss \<Longrightarrow> 300 \<le> interval \<and> interval \<le> 604800"
    "distinct (map fst rs)" "distinct (map (\<lambda>(r, i, q, t). (i, q)) rs)"
    "\<And>r i q t. (r, i, q, t) \<in> set rs \<Longrightarrow> \<exists>n interval k. (i, n, interval, k) \<in> set ss \<and> q \<le> k"
    "distinct (map fst js)" "distinct (filter (\<lambda>x. x \<noteq> None) (map (snd \<circ> snd \<circ> snd) js))"
    "\<And>k feed st r. (k, feed, st, Some r) \<in> set js \<Longrightarrow> feed \<and> (\<exists>i q t. (r, i, q, t) \<in> set rs \<and> feed_coupled st t)"
    "\<And>i. length (filter (inflight_of rs i) js) \<le> 1"
  shows "feeds_ok ss rs js"
  using assms unfolding feeds_ok_def by blast

lemma inflight_of_new_run:
  assumes "r \<notin> fst ` set rs" "\<And>k feed st r. (k, feed, st, Some r) \<in> set js \<Longrightarrow> r \<in> fst ` set rs"
  shows "filter (inflight_of (rs @ [(r, s, q, t)]) i) js = filter (inflight_of rs i) js"
  using assms by (intro filter_cong) (auto simp: inflight_of_def)

lemma feeds_ok_new_run:
  assumes ok: "feeds_ok ss rs js" and s: "(s, n, interval, q) \<in> set ss"
    and fresh: "r \<notin> fst ` set rs" "k \<notin> fst ` set js" and idle: "filter (inflight_of rs s) js = []"
  defines "bump \<equiv> \<lambda>(i, n, iv, q). if i = s then (i, n, iv, q + 1) else (i, n, iv, q :: int)"
  shows "feeds_ok (map bump ss) (rs @ [(r, s, q + 1, FeedSync_queued)]) (js @ [(k, True, JobStatus_queued, Some r)])"
proof (rule feeds_okI)
  note d = feeds_okD [OF ok]
  have m: "map fst (map bump ss) = map fst ss" "map (fst \<circ> snd) (map bump ss) = map (fst \<circ> snd) ss"
    by (auto simp: bump_def case_prod_beta)
  show "distinct (map fst (map bump ss))" "distinct (map (fst \<circ> snd) (map bump ss))" unfolding m by (fact d)+
  show "300 \<le> iv \<and> iv \<le> 604800" if "(i, n', iv, q') \<in> set (map bump ss)" for i n' iv q'
    using that d(3) by (auto simp: bump_def split: if_splits)
  have refs: "r' \<in> fst ` set rs" if "(k', feed, st, Some r') \<in> set js" for k' feed st r'
    using d(9) [OF that] by force
  have fresh_seq: "(s, q + 1) \<notin> set (map (\<lambda>(r, i, q, t). (i, q)) rs)"
  proof
    assume "(s, q + 1) \<in> set (map (\<lambda>(r, i, q, t). (i, q)) rs)"
    then obtain r' t where "(r', s, q + 1, t) \<in> set rs" by auto
    then obtain n' iv' k' where x: "(s, n', iv', k') \<in> set ss" "q + 1 \<le> k'" using d(6) by blast
    have "(n', iv', k') = (n, interval, q)"
      using eq_key_imp_eq_value [OF d(1) x(1) s] .
    then show False using x(2) by simp
  qed
  show "distinct (map fst (rs @ [(r, s, q + 1, FeedSync_queued)]))"
    "distinct (map (\<lambda>(r, i, q, t). (i, q)) (rs @ [(r, s, q + 1, FeedSync_queued)]))"
    "distinct (map fst (js @ [(k, True, JobStatus_queued, Some r)]))"
    using d(4,5,7) fresh fresh_seq by simp_all
  have "Some r \<notin> set (map (snd \<circ> snd \<circ> snd) js)" using refs fresh(1) by fastforce
  then show "distinct (filter (\<lambda>x. x \<noteq> None) (map (snd \<circ> snd \<circ> snd) (js @ [(k, True, JobStatus_queued, Some r)])))"
    using d(8) by simp
  show "\<exists>n interval k. (i, n, interval, k) \<in> set (map bump ss) \<and> q' \<le> k"
    if "(r', i, q', t) \<in> set (rs @ [(r, s, q + 1, FeedSync_queued)])" for r' i q' t
  proof (cases "(r', i, q', t) \<in> set rs")
    case True
    then obtain n' iv' k' where x: "(i, n', iv', k') \<in> set ss" "q' \<le> k'" using d(6) by blast
    have "bump (i, n', iv', k') \<in> bump ` set ss" using x(1) by (rule imageI)
    moreover have "bump (i, n', iv', k') = (i, n', iv', if i = s then k' + 1 else k')" by (simp add: bump_def)
    ultimately have "(i, n', iv', if i = s then k' + 1 else k') \<in> set (map bump ss)" by simp
    then show ?thesis using x(2) by (intro exI conjI) (assumption, simp)
  next
    case False
    have "bump (s, n, interval, q) \<in> bump ` set ss" using s by (rule imageI)
    moreover have "bump (s, n, interval, q) = (s, n, interval, q + 1)" by (simp add: bump_def)
    ultimately have "(s, n, interval, q + 1) \<in> set (map bump ss)" by simp
    moreover have "i = s" "q' = q + 1" using False that by auto
    ultimately show ?thesis by blast
  qed
  show "feed \<and> (\<exists>i q' t. (r', i, q', t) \<in> set (rs @ [(r, s, q + 1, FeedSync_queued)]) \<and> feed_coupled st t)"
    if "(k', feed, st, Some r') \<in> set (js @ [(k, True, JobStatus_queued, Some r)])" for k' feed st r'
  proof (cases "(k', feed, st, Some r') \<in> set js")
    case True
    then show ?thesis using d(9) [OF True] by auto
  next
    case False
    then show ?thesis using that by (auto simp: feed_coupled_def)
  qed
  show "length (filter (inflight_of (rs @ [(r, s, q + 1, FeedSync_queued)]) i) (js @ [(k, True, JobStatus_queued, Some r)])) \<le> 1" for i
  proof -
    have "inflight_of (rs @ [(r, s, q + 1, FeedSync_queued)]) i (k, True, JobStatus_queued, Some r) \<longleftrightarrow> i = s"
      using fresh(1) by (force simp: inflight_of_def under_way_def)
    then show ?thesis
      using idle d(10) [of i] inflight_of_new_run [OF fresh(1) refs] by simp
  qed
qed

lemma feeds_inv_views:
  assumes "map source_view (threat_feed_sources db') = map source_view (threat_feed_sources db)"
    "map run_view (feed_sync_runs db') = map run_view (feed_sync_runs db)"
    "map feed_job_view (agent_jobs db') = map feed_job_view (agent_jobs db)"
  shows "feeds_inv db' = feeds_inv db"
  unfolding feeds_inv_def assms ..

lemma feeds_inv_frames [simp]:
  "feeds_inv (db\<lparr>audit_events := es\<rparr>) = feeds_inv db" "feeds_inv (db\<lparr>post_commit := ks\<rparr>) = feeds_inv db"
  "feeds_inv (db\<lparr>blacklist_entries := bs\<rparr>) = feeds_inv db" "feeds_inv (db\<lparr>feed_blacklist_assertions := as\<rparr>) = feeds_inv db"
  "feeds_inv (db\<lparr>global_deny_row := st\<rparr>) = feeds_inv db" "feeds_inv (db\<lparr>feed_sync_overlaps := os\<rparr>) = feeds_inv db"
  by (rule feeds_inv_views; simp)+

lemma feeds_inv_set_run:
  "(\<And>r. run_view (f r) = run_view r) \<Longrightarrow> feeds_inv (set_run i f db) = feeds_inv db"
  by (rule feeds_inv_views) (simp_all add: set_run_def map_update_row)

lemma feeds_inv_set_job:
  "(\<And>j. feed_job_view (f j) = feed_job_view j) \<Longrightarrow> feeds_inv (set_job i f db) = feeds_inv db"
  by (rule feeds_inv_views) (simp_all add: set_job_def map_update_row)

lemma feeds_inv_set_source:
  "(\<And>s. source_view (f s) = source_view s) \<Longrightarrow> feeds_inv (set_source i f db) = feeds_inv db"
  by (rule feeds_inv_views) (simp_all add: set_source_def map_update_row)

lemma get_run_distinct:
  "feeds_inv db \<Longrightarrow> r \<in> set (feed_sync_runs db) \<Longrightarrow> get_run db (fr_id r) = Some r"
  unfolding get_run_def by (rule row_distinct [OF feeds_invD(2)])

text \<open>The feed tables apart, what enqueueing leaves alone.\<close>

definition only_runs :: "db \<Rightarrow> db \<Rightarrow> bool" where
  "only_runs db db' \<longleftrightarrow> blacklist_entries db' = blacklist_entries db \<and>
     feed_blacklist_assertions db' = feed_blacklist_assertions db \<and> global_deny_row db' = global_deny_row db \<and>
     (\<forall>i. map_option fs_deleted_at (get_source db' i) = map_option fs_deleted_at (get_source db i))"

lemma inflight_job_run:
  assumes "first_of (sort_key f (inflight_jobs db i)) = Some j"
  shows "\<exists>r. locked_run db (jb_feed_sync_run_id j) = Some r \<and> fr_feed_source_id r = i"
proof -
  have "j \<in> set (inflight_jobs db i)"
    using assms by (auto simp: first_of_def split: list.splits) (metis list.set_intros(1) set_sort)
  then show ?thesis by (auto simp: inflight_jobs_def split: option.splits)
qed

lemma feeds_inv_enqueue:
  assumes inv: "feeds_inv db" and src: "get_source db (fs_id source) = Some s0" "fs_sync_sequence source = fs_sync_sequence s0"
    and fresh: "get_run db r = None" "get_job db k = None" and idle: "inflight_jobs db (fs_id source) = []"
  shows "feeds_inv (db\<lparr>threat_feed_sources := update_row fs_id (fs_id source)
       (\<lambda>s. s\<lparr>fs_sync_sequence := fs_sync_sequence s + 1\<rparr>) (threat_feed_sources db),
     feed_sync_runs := feed_sync_runs db @ [new_run r source trigger dry_run],
     agent_jobs := agent_jobs db @ [new_feed_job k now (new_run r source trigger dry_run)]\<rparr>)"
proof -
  let ?bump = "\<lambda>(i, n, iv, q). if i = fs_id source then (i, n, iv, q + 1) else (i, n, iv, q)"
  have s0: "s0 \<in> set (threat_feed_sources db)" "fs_id s0 = fs_id source"
    using src(1) by (auto simp: get_source_def dest: row_SomeD)
  have ss: "map source_view (update_row fs_id (fs_id source) (\<lambda>s. s\<lparr>fs_sync_sequence := fs_sync_sequence s + 1\<rparr>)
      (threat_feed_sources db)) = map ?bump (map source_view (threat_feed_sources db))"
    by (auto simp: update_row_def source_view_def)
  have in_ss: "(fs_id source, lower (fs_name s0), fs_sync_interval_seconds s0, fs_sync_sequence s0)
      \<in> set (map source_view (threat_feed_sources db))"
    using imageI [OF s0(1), of source_view] s0(2) by (simp add: source_view_def)
  have fr: "r \<notin> fst ` set (map run_view (feed_sync_runs db))"
    using fresh(1) by (auto simp: get_run_def row_None_iff run_view_def)
  have fj: "k \<notin> fst ` set (map feed_job_view (agent_jobs db))"
    using fresh(2) by (auto simp: get_job_def row_None_iff feed_job_view_def)
  have id: "filter (inflight_of (map run_view (feed_sync_runs db)) (fs_id source)) (map feed_job_view (agent_jobs db)) = []"
    using inflight_jobs_view [OF feeds_invD(2) [OF inv], of "fs_id source"] idle by simp
  have "feeds_ok (map ?bump (map source_view (threat_feed_sources db)))
     (map run_view (feed_sync_runs db) @ [(r, fs_id source, fs_sync_sequence s0 + 1, FeedSync_queued)])
     (map feed_job_view (agent_jobs db) @ [(k, True, JobStatus_queued, Some r)])"
    by (rule feeds_ok_new_run [OF inv [unfolded feeds_inv_def] in_ss fr fj id])
  then show ?thesis
    unfolding feeds_inv_def by (simp add: ss run_view_def new_run_def src(2) feed_job_view_def new_feed_job_def is_feed_job_def)
qed

lemma wp_enqueue_locked:
  assumes inv: "feeds_inv db" and src: "get_source db (fs_id source) = Some s0" "fs_sync_sequence source = fs_sync_sequence s0"
  shows "wp (enqueue_locked run_id job_id now source trigger dry_run)
    (\<lambda>run db'. feeds_inv db' \<and> only_runs db db' \<and> get_run db' (fr_id run) = Some run \<and> fr_feed_source_id run = fs_id source)
    (\<lambda>_ _. True) db"
proof (cases "inflight_jobs db (fs_id source)")
  case Nil
  then have "\<not> (\<exists>r. first_of (sort_key (\<lambda>j. (jb_created_at j, jb_id j)) (inflight_jobs db (fs_id source))) = Some r)"
    by (simp add: first_of_def)
  then show ?thesis
    using feeds_inv_enqueue [OF inv src _ _ Nil, where r = run_id and k = job_id and trigger = trigger
        and dry_run = dry_run and now = now] Nil
    by (auto simp: enqueue_locked_def inflight_run_def insert_run_def register_dispatch_def wp_simps Let_def first_of_def
        set_source_def only_runs_def get_source_def get_run_def new_run_def new_feed_job_def table_simps option.map_comp o_def
        get_job_def split: option.splits)
next
  case (Cons j js)
  then obtain j' where j': "first_of (sort_key (\<lambda>j. (jb_created_at j, jb_id j)) (inflight_jobs db (fs_id source))) = Some j'"
    using first_of_None [of "sort_key (\<lambda>j. (jb_created_at j, jb_id j)) (inflight_jobs db (fs_id source))"]
    by (metis length_sort list.simps(3) not_Some_eq sort_key_simps(1) length_0_conv)
  obtain r where "locked_run db (jb_feed_sync_run_id j') = Some r" "fr_feed_source_id r = fs_id source"
    using inflight_job_run [OF j'] by blast
  moreover from this(1) have "get_run db (fr_id r) = Some r"
    by (auto simp: locked_run_def get_run_def bind_eq_Some_conv dest: row_SomeD)
  ultimately show ?thesis
    using inv by (simp add: enqueue_locked_def inflight_run_def wp_simps j' only_runs_def)
qed

subsection \<open>Reconciling leaves the sources, the jobs and the state of the runs\<close>

definition feed_frame ::
  "threat_feed_source list \<Rightarrow> agent_job list \<Rightarrow> (uuid \<times> uuid \<times> int \<times> FeedSyncStatus) list \<Rightarrow> db \<Rightarrow> bool" where
  "feed_frame ss js rs db \<longleftrightarrow> threat_feed_sources db = ss \<and> agent_jobs db = js \<and> map run_view (feed_sync_runs db) = rs"

lemma feed_frame_frames [simp]:
  "feed_frame ss js rs (db\<lparr>audit_events := es\<rparr>) = feed_frame ss js rs db"
  "feed_frame ss js rs (db\<lparr>blacklist_entries := bs\<rparr>) = feed_frame ss js rs db"
  "feed_frame ss js rs (db\<lparr>feed_blacklist_assertions := as\<rparr>) = feed_frame ss js rs db"
  "feed_frame ss js rs (db\<lparr>global_deny_row := st\<rparr>) = feed_frame ss js rs db"
  "feed_frame ss js rs (db\<lparr>feed_sync_overlaps := os\<rparr>) = feed_frame ss js rs db"
  by (simp_all add: feed_frame_def)

lemma feed_frame_set_run:
  "(\<And>r. run_view (f r) = run_view r) \<Longrightarrow> feed_frame ss js rs (set_run i f db) = feed_frame ss js rs db"
  by (simp add: feed_frame_def set_run_def map_update_row)

lemma feed_frame_reconcile: "keeps (feed_frame ss js rs) (reconcile sha256 collated entry_id now run parsed)"
  unfolding reconcile_def locked_source_def locked_global_state_def reconcile_dry_def reconcile_wet_def enforce_capacity_def
    upsert_feed_entries_def replace_source_assertions_def delete_orphaned_feed_entries_def materialize_locked_def
    persist_overlaps_def record_overlap_summary_def record_event_def store_run_stats_def
  by (intro inv_intros) (auto simp: feed_frame_set_run run_view_def split: option.splits)

lemma feed_frameD:
  assumes "feed_frame (threat_feed_sources db) (agent_jobs db) (map run_view (feed_sync_runs db)) db'"
  shows "feeds_inv db' = feeds_inv db" "get_source db' i = get_source db i"
  using assms feeds_inv_views [of db' db] by (simp_all add: feed_frame_def get_source_def)

lemma wp_reconcile_frame:
  "wp (reconcile sha256 collated entry_id now run parsed)
     (\<lambda>_. feed_frame (threat_feed_sources db) (agent_jobs db) (map run_view (feed_sync_runs db))) (\<lambda>_ _. True) db"
  using keepsD [OF feed_frame_reconcile] by (rule wp_mono) (auto simp: feed_frame_def)

subsection \<open>Deleting a feed\<close>

lemma parsed_nothing: "parsed_as (parse_line_list []) []"
  by (simp add: parsed_as_def parse_line_list_def utf8_sig_decode_def splitlines_def)

lemma wp_retag_delete:
  assumes "feeds_inv db" "get_run db (fr_id run) = Some run"
    "\<not> fr_dry_run run \<or> fr_trigger run \<noteq> Trigger_feed_delete"
  shows "wp (retag_delete run) (\<lambda>run' db'. feeds_inv db' \<and> only_runs db db' \<and> get_run db' (fr_id run') = Some run' \<and>
      fr_feed_source_id run' = fr_feed_source_id run \<and> fr_trigger run' = Trigger_feed_delete \<and> \<not> fr_dry_run run')
    (\<lambda>_ _. True) db"
proof (cases "fr_trigger run = Trigger_feed_delete")
  case True
  then show ?thesis using assms by (simp add: retag_delete_def wp_simps only_runs_def)
next
  case False
  let ?f = "\<lambda>r. r\<lparr>fr_trigger := Trigger_feed_delete, fr_dry_run := False\<rparr>"
  let ?g = "\<lambda>j. j\<lparr>jb_trigger := Trigger_feed_delete\<rparr>"
  have inv: "feeds_inv (set_run (fr_id run) ?f db)"
    using assms(1) feeds_inv_set_run [of ?f] by (simp add: run_view_def)
  have inv': "feeds_inv (set_job k ?g (set_run (fr_id run) ?f db))" for k
    using inv feeds_inv_set_job [of ?g] by (simp add: feed_job_view_def is_feed_job_def)
  have get: "get_run (set_run (fr_id run) ?f db) (fr_id run) = Some (?f run)"
      "get_run (set_job k ?g (set_run (fr_id run) ?f db)) (fr_id run) = Some (?f run)" for k
    using assms(2) by (simp_all add: get_run_def set_run_def set_job_def table_simps)
  show ?thesis
    using False inv inv' get
    by (auto simp: retag_delete_def job_for_run_for_update_def one_or_none_def wp_simps only_runs_def set_run_def
        set_job_def get_source_def get_run_def split: list.splits option.splits)
qed

definition delete_runs_wet :: "db \<Rightarrow> bool" where
  "delete_runs_wet db \<longleftrightarrow> list_all (\<lambda>r. fr_trigger r = Trigger_feed_delete \<longrightarrow> \<not> fr_dry_run r) (feed_sync_runs db)"

text \<open>The feed \<open>i\<close> is deleted: never due again, and its run is a deletion.\<close>

definition feed_deleted :: "timestamp \<Rightarrow> uuid \<Rightarrow> db \<Rightarrow> bool" where
  "feed_deleted now i db = (case get_source db i of None \<Rightarrow> False
     | Some s \<Rightarrow> \<not> fs_enabled s \<and> fs_next_sync_at s = None \<and> fs_deleted_at s = Some now)"

lemma wp_enqueue_locked_wet:
  assumes "delete_runs_wet db"
  shows "wp (enqueue_locked run_id job_id now source trigger False)
    (\<lambda>run db'. \<not> fr_dry_run run \<or> fr_trigger run \<noteq> Trigger_feed_delete) (\<lambda>_ _. True) db"
proof -
  have "\<not> fr_dry_run r \<or> fr_trigger r \<noteq> Trigger_feed_delete" if "locked_run db k = Some r" for k r
    using assms that by (auto simp: delete_runs_wet_def list_all_iff locked_run_def get_run_def bind_eq_Some_conv
        dest!: row_SomeD split: option.splits)
  then show ?thesis
    by (auto simp: enqueue_locked_def inflight_run_def insert_run_def wp_simps Let_def new_run_def bind_eq_Some_conv
        split: option.splits)
qed

lemma wp_enqueue_deleted:
  assumes "feed_deleted now i db"
  shows "wp (enqueue_locked run_id job_id t source trigger dry_run) (\<lambda>_. feed_deleted now i) (\<lambda>_ _. True) db"
  using assms
  by (auto simp: enqueue_locked_def inflight_run_def insert_run_def wp_simps Let_def register_dispatch_def run_simps
      feed_deleted_def get_source_def set_source_def table_simps split: option.splits)

lemma only_runs_deny:
  assumes "only_runs db db'"
  shows "deny_tables_ok db' = deny_tables_ok db" "feed_nets db' = feed_nets db"
    "feed_deleted now i db \<Longrightarrow> \<exists>s. get_source db' i = Some s"
    "filter (\<lambda>e. \<not> feed_managed e) (blacklist_entries db') = filter (\<lambda>e. \<not> feed_managed e) (blacklist_entries db)"
  using assms by (auto simp: only_runs_def deny_tables_ok_def feed_nets_def feed_deleted_def split: option.splits)
    (metis option.map_disc_iff option.distinct(1) option.exhaust)

definition feed_withdrawn :: "(ustr \<Rightarrow> string) \<Rightarrow> timestamp \<Rightarrow> uuid \<Rightarrow> feed_sync_run \<Rightarrow> db \<Rightarrow> db \<Rightarrow> bool" where
  "feed_withdrawn sha256 now i run db db' \<longleftrightarrow> feeds_inv db' \<and> deny_tables_ok db' \<and> deny_synced sha256 db' \<and>
     synced_feed i {} db db' \<and> feed_deleted now i db' \<and>
     fr_feed_source_id run = i \<and> fr_trigger run = Trigger_feed_delete \<and> \<not> fr_dry_run run"

lemma feed_withdrawn_record_event:
  "wp (record_event t actor action tt ti outcome ip md) (\<lambda>_. feed_withdrawn sha256 now i run db) E =
     feed_withdrawn sha256 now i run db"
  by (rule ext) (simp add: record_event_def wp_simps feed_withdrawn_def deny_tables_ok_def deny_synced_def synced_feed_def
      feed_nets_def feed_deleted_def get_source_def global_cidrs_def)

lemma wp_retag_deleted:
  assumes "feed_deleted now i db"
  shows "wp (retag_delete run) (\<lambda>_. feed_deleted now i) (\<lambda>_ _. True) db"
  using assms
  by (auto simp: retag_delete_def job_for_run_for_update_def one_or_none_def wp_simps feed_deleted_def get_source_def
      set_run_def set_job_def split: list.splits option.splits)

lemma wp_reconcile_nothing:
  assumes inv: "feeds_inv db" and ok: "deny_tables_ok db" and del: "feed_deleted now i db"
    and run: "fr_feed_source_id run = i" "fr_trigger run = Trigger_feed_delete" "\<not> fr_dry_run run"
  shows "wp (reconcile sha256 collated entry_id t run (parse_line_list []))
    (\<lambda>_ db'. feed_withdrawn sha256 now i run db db') (\<lambda>_ _. True) db"
proof -
  have live: "feed_live db run"
    using del run by (auto simp: feed_live_def feed_deleted_def split: option.splits)
  show ?thesis
    using wp_conj [OF wp_reconcile [OF ok parsed_nothing live run(3), of sha256 collated entry_id t]
        wp_reconcile_frame [of sha256 collated entry_id t run "parse_line_list []" db]]
    by (rule wp_mono)
      (use inv del run in \<open>auto simp: feed_withdrawn_def reconciled_def feed_frameD feed_deleted_def\<close>)
qed

lemma wp_delete_source:
  assumes inv: "feeds_inv db" and ok: "deny_tables_ok db" and wet: "delete_runs_wet db"
  shows "wp (delete_source sha256 collated entry_id run_id job_id now i actor)
    (\<lambda>run db'. feed_withdrawn sha256 now i run db db') (\<lambda>_ _. True) db"
proof (cases "\<exists>locked. get_source db i = Some locked \<and> fs_deleted_at locked = None")
  case True
  then obtain locked where l: "get_source db i = Some locked" "fs_deleted_at locked = None" by blast
  let ?del = "\<lambda>s. s\<lparr>fs_enabled := False, fs_next_sync_at := None, fs_deleted_at := Some now\<rparr>"
  let ?db = "set_source i ?del db"
  have id: "fs_id locked = i" using l(1) by (rule get_source_id)
  have del: "feed_deleted now i ?db" and src: "get_source ?db (fs_id locked) = Some (?del locked)"
    using l id by (simp_all add: feed_deleted_def get_source_def set_source_def table_simps)
  have inv1: "feeds_inv ?db" using inv feeds_inv_set_source [of ?del] by (simp add: source_view_def)
  have wet1: "delete_runs_wet ?db" using wet by (simp add: delete_runs_wet_def set_source_def)
  have same: "deny_tables_ok ?db" "feed_nets ?db = feed_nets db" "blacklist_entries ?db = blacklist_entries db"
    using ok by (simp_all add: deny_tables_ok_def feed_nets_def set_source_def)
  have "wp (enqueue_locked run_id job_id now locked Trigger_feed_delete False) (\<lambda>run d.
      wp (retag_delete run) (\<lambda>run' d'.
        wp (reconcile sha256 collated entry_id now run' (parse_line_list []))
          (\<lambda>_ db'. feed_withdrawn sha256 now i run' db db') (\<lambda>_ _. True) d') (\<lambda>_ _. True) d) (\<lambda>_ _. True) ?db"
  proof (rule wp_mono [OF wp_conj [OF wp_conj [OF wp_enqueue_locked [OF inv1 src] wp_enqueue_locked_wet [OF wet1]]
        wp_enqueue_deleted [OF del]]], goal_cases)
    case 1 then show ?case by simp
  next
    case (2 run d)
    then have d: "feeds_inv d" "only_runs ?db d" "get_run d (fr_id run) = Some run" "fr_feed_source_id run = i"
        "\<not> fr_dry_run run \<or> fr_trigger run \<noteq> Trigger_feed_delete" "feed_deleted now i d"
      using id by simp_all
    show ?case
    proof (rule wp_mono [OF wp_conj [OF wp_retag_delete [OF d(1,3,5)] wp_retag_deleted [OF d(6)]]], goal_cases)
      case (1 run' d')
      have ok': "deny_tables_ok d'" using only_runs_deny(1) [OF d(2)] only_runs_deny(1) [of d d'] 1 same by simp
      show ?case
        by (rule wp_mono [OF wp_reconcile_nothing [OF _ ok', of now i run']])
          (use 1 d same only_runs_deny(2,4) [OF d(2)] only_runs_deny(2,4) [of d d']
            in \<open>auto simp: feed_withdrawn_def synced_feed_def\<close>)
    qed simp
  qed simp
  then show ?thesis
    using l by (simp add: delete_source_def active_source_for_update_def source_for_update_def wp_simps
        feed_withdrawn_record_event)
next
  case False
  then show ?thesis
    by (auto simp: delete_source_def active_source_for_update_def source_for_update_def wp_simps split: option.splits)
qed

subsection \<open>The life of a run\<close>

lemma length_filter_imp:
  assumes "\<And>j. j \<in> set js \<Longrightarrow> narrow j \<Longrightarrow> wide j"
  shows "length (filter narrow js) \<le> length (filter wide js)"
  using assms by (induction js) (auto simp: le_SucI)

lemma run_of_one_job:
  assumes "distinct (filter (\<lambda>x. x \<noteq> None) (map f xs))" "x \<in> set xs" "y \<in> set xs" "f x = f y" "f x \<noteq> None"
  shows "x = y"
proof -
  have "inj_on f (set (filter (\<lambda>x. f x \<noteq> None) xs))"
    using assms(1) by (simp add: filter_map o_def distinct_map)
  then show ?thesis using assms(2-5) by (auto simp: inj_on_def)
qed

lemma feeds_ok_move:
  assumes ok: "feeds_ok ss rs js" and j: "(k, feed, st, rid) \<in> set js" and st: "under_way st' \<Longrightarrow> under_way st"
    and coupled: "rid \<noteq> None \<Longrightarrow> feed_coupled st' t'"
  defines "f \<equiv> \<lambda>(r, i, q, t). (r, i, q, if Some r = rid then t' else t)"
    and "g \<equiv> \<lambda>(k', fd, s, x). (k', fd, if k' = k then st' else s, x)"
  shows "feeds_ok ss (map f rs) (map g js)"
proof (rule feeds_okI)
  note d = feeds_okD [OF ok]
  have m: "fst \<circ> f = fst" "(\<lambda>(r, i, q, t). (i, q)) \<circ> f = (\<lambda>(r, i, q, t). (i, q))" "fst \<circ> g = fst"
      "snd \<circ> snd \<circ> snd \<circ> g = snd \<circ> snd \<circ> snd"
    by (auto simp: f_def g_def fun_eq_iff)
  show "distinct (map fst ss)" "distinct (map (fst \<circ> snd) ss)" "distinct (map fst (map f rs))"
    "distinct (map (\<lambda>(r, i, q, t). (i, q)) (map f rs))" "distinct (map fst (map g js))"
    "distinct (filter (\<lambda>x. x \<noteq> None) (map (snd \<circ> snd \<circ> snd) (map g js)))"
    unfolding map_map m by (fact d)+
  show "300 \<le> interval \<and> interval \<le> 604800" if "(i, n, interval, q) \<in> set ss" for i n interval q
    using that by (rule d(3))
  show "\<exists>n interval k. (i, n, interval, k) \<in> set ss \<and> q \<le> k" if "(r, i, q, t) \<in> set (map f rs)" for r i q t
    using that d(6) by (auto simp: f_def)
  have one: "k' = k" if "(k', feed', s', rid) \<in> set js" "rid \<noteq> None" for k' feed' s'
    using run_of_one_job [OF d(8) that(1) j] that(2) by simp
  show "feed' \<and> (\<exists>i q t. (r, i, q, t) \<in> set (map f rs) \<and> feed_coupled s' t)"
    if mem: "(k', feed', s', Some r) \<in> set (map g js)" for k' feed' s' r
  proof -
    obtain s where s: "(k', feed', s, Some r) \<in> set js" "s' = (if k' = k then st' else s)"
    proof -
      obtain x where x: "x \<in> set js" "g x = (k', feed', s', Some r)" using mem by auto
      obtain a b c e where "x = (a, b, c, e)" by (rule prod_cases4)
      then show ?thesis using that [of c] x by (auto simp: g_def)
    qed
    obtain i q t where r: "feed'" "(r, i, q, t) \<in> set rs" "feed_coupled s t" using d(9) [OF s(1)] by blast
    have "Some r = rid \<longleftrightarrow> k' = k"
      using one [of k' feed' s] s(1) eq_key_imp_eq_value [OF d(7) s(1)] j by auto
    moreover have "(r, i, q, if Some r = rid then t' else t) \<in> set (map f rs)"
      using imageI [OF r(2), of f] by (simp add: f_def)
    moreover have "feed_coupled s' (if Some r = rid then t' else t)"
      using r(3) s(2) coupled calculation(1) by (cases "k' = k") auto
    ultimately show ?thesis using r(1) by blast
  qed
  have less: "inflight_of rs i x" if "x \<in> set js" "inflight_of (map f rs) i (g x)" for i x
  proof -
    obtain k' fd s rd where x: "x = (k', fd, s, rd)" by (cases x)
    have "under_way s"
      using that x st eq_key_imp_eq_value [OF d(7) j, of "(fd, s, rd)"]
      by (cases "k' = k") (auto simp: inflight_of_def g_def)
    then show ?thesis using that x by (auto simp: inflight_of_def f_def g_def)
  qed
  show "length (filter (inflight_of (map f rs) i) (map g js)) \<le> 1" for i
  proof -
    have "length (filter (inflight_of (map f rs) i) (map g js)) \<le> length (filter (inflight_of rs i) js)"
      unfolding filter_map length_map by (rule length_filter_imp) (simp add: less)
    then show ?thesis using d(10) [of i] by linarith
  qed
qed

definition moves_job :: "JobStatus \<Rightarrow> (agent_job \<Rightarrow> agent_job) \<Rightarrow> bool" where
  "moves_job st g \<longleftrightarrow> (\<forall>j. jb_id (g j) = jb_id j \<and> jb_job_type (g j) = jb_job_type j \<and>
     jb_feed_sync_run_id (g j) = jb_feed_sync_run_id j \<and> jb_status (g j) = st)"

definition moves_run :: "FeedSyncStatus \<Rightarrow> (feed_sync_run \<Rightarrow> feed_sync_run) \<Rightarrow> bool" where
  "moves_run t f \<longleftrightarrow> (\<forall>r. fr_id (f r) = fr_id r \<and> fr_feed_source_id (f r) = fr_feed_source_id r \<and>
     fr_sequence (f r) = fr_sequence r \<and> fr_status (f r) = t)"

lemma moved_jobs:
  assumes "moves_job st g"
  shows "map feed_job_view (update_row jb_id k g js) =
    map (\<lambda>(k', fd, s, x). (k', fd, if k' = k then st else s, x)) (map feed_job_view js)"
  using assms by (auto simp: update_row_def feed_job_view_def moves_job_def is_feed_job_def)

lemma moved_runs:
  assumes "moves_run t f"
  shows "map run_view (update_row fr_id i f rs) =
    map (\<lambda>(r, s, q, u). (r, s, q, if Some r = Some i then t else u)) (map run_view rs)"
  using assms by (auto simp: update_row_def run_view_def moves_run_def)

lemma job_in_view: "get_job db k = Some j \<Longrightarrow>
    (k, is_feed_job j, jb_status j, jb_feed_sync_run_id j) \<in> set (map feed_job_view (agent_jobs db))"
  by (auto simp: get_job_def image_iff feed_job_view_def dest!: row_SomeD intro!: bexI)

lemma feeds_inv_move:
  assumes "feeds_inv db" "get_job db k = Some j" "locked_run db (jb_feed_sync_run_id j) = Some r"
    and "moves_job st g" "moves_run t f" "feed_coupled st t" "under_way st \<Longrightarrow> under_way (jb_status j)"
  shows "feeds_inv (set_run (fr_id r) f (set_job k g db))"
proof -
  have rid: "jb_feed_sync_run_id j = Some (fr_id r)"
    using assms(3) by (auto simp: locked_run_def bind_eq_Some_conv get_run_def dest: row_SomeD)
  show "feeds_inv (set_run (fr_id r) f (set_job k g db))"
    using feeds_ok_move [OF assms(1) [unfolded feeds_inv_def] job_in_view [OF assms(2)] assms(7) assms(6)]
    by (simp only: feeds_inv_def set_tables moved_jobs [OF assms(4)] moved_runs [OF assms(5)] rid) (simp add: set_run_def set_job_def)
qed

lemma feeds_inv_move_orphan:
  assumes "feeds_inv db" "get_job db k = Some j" "locked_run db (jb_feed_sync_run_id j) = None"
    and "moves_job st g" "under_way st \<Longrightarrow> under_way (jb_status j)"
  shows "feeds_inv (set_job k g db)"
proof -
  note ok = assms(1) [unfolded feeds_inv_def]
  have rid: "jb_feed_sync_run_id j = None"
  proof (rule ccontr)
    assume "jb_feed_sync_run_id j \<noteq> None"
    then obtain r where r: "jb_feed_sync_run_id j = Some r" by blast
    then obtain i q t where "(r, i, q, t) \<in> set (map run_view (feed_sync_runs db))"
      using feeds_okD(9) [OF ok, of k "is_feed_job j" "jb_status j" r] job_in_view [OF assms(2)] by auto
    then obtain x where "x \<in> set (feed_sync_runs db)" "fr_id x = r" by (auto simp: run_view_def)
    then show False using assms(3) r get_run_distinct [OF assms(1)] by (auto simp: locked_run_def)
  qed
  show ?thesis
    using feeds_ok_move [OF ok job_in_view [OF assms(2)] assms(5), of st undefined]
    by (simp add: feeds_inv_def set_tables moved_jobs [OF assms(4)] rid set_job_def case_prod_beta)
qed

lemma feeds_inv_requeue:
  assumes "moves_job st g" "moves_job st1 g1" "moves_run t f" "moves_run t1 f1" "\<And>s. source_view (h s) = source_view s"
  shows "feeds_inv (set_run i f (set_job k g (set_source s h (set_run i f1 (set_job k g1 db))))) =
    feeds_inv (set_run i f (set_job k g db))"
  by (rule feeds_inv_views)
    (use assms in \<open>auto simp: set_run_def set_job_def set_source_def map_update_row moved_jobs moved_runs split: prod.splits\<close>)

lemma get_job_id: "get_job db k = Some j \<Longrightarrow> jb_id j = k"
  by (auto simp: get_job_def dest: row_SomeD)

lemma locked_run_id: "locked_run db rid = Some r \<Longrightarrow> get_run db (fr_id r) = Some r"
  by (auto simp: locked_run_def bind_eq_Some_conv get_run_def dest: row_SomeD)

lemma finish_source_view [simp]: "source_view (finish_source now st e s) = source_view s"
  by (simp add: source_view_def finish_source_def)

lemmas feed_moves = moves_job_def moves_run_def finish_run_def feed_coupled_def under_way_def

lemma wp_finish_noop_feeds:
  assumes "feeds_inv db" "get_job db k = Some j" "locked_run db (jb_feed_sync_run_id j) = r"
  shows "wp (finish_noop now j r) (\<lambda>_. feeds_inv) (\<lambda>_. feeds_inv) db"
proof (cases r)
  case None
  then show ?thesis
    using assms(3) get_job_id [OF assms(2)] feeds_inv_move_orphan [OF assms(1,2), of JobStatus_succeeded]
    by (simp add: finish_noop_def wp_simps feed_moves)
next
  case (Some r')
  then show ?thesis
    using assms(3) get_job_id [OF assms(2)] feeds_inv_move [OF assms(1,2), of r' JobStatus_succeeded _ FeedSync_success]
    by (simp add: finish_noop_def wp_simps feed_moves)
qed

lemma feeds_feed_claim: "keeps feeds_inv (feed_claim now job)"
proof (rule keepsI)
  fix db assume inv: "feeds_inv db"
  show "wp (feed_claim now job) (\<lambda>_. feeds_inv) (\<lambda>_. feeds_inv) db"
    by (auto simp: feed_claim_def wp_simps inv get_job_id feed_moves split: option.splits
        intro!: wp_finish_noop_feeds [OF inv] feeds_inv_move [OF inv, of _ _ _ JobStatus_applying _ FeedSync_running])
qed

lemma feeds_feed_succeed: "keeps feeds_inv (feed_succeed now job outcome)"
proof (rule keepsI)
  fix db assume inv: "feeds_inv db"
  show "wp (feed_succeed now job outcome) (\<lambda>_. feeds_inv) (\<lambda>_. feeds_inv) db"
    by (auto simp: feed_succeed_def Let_def wp_simps inv get_job_id feed_moves feeds_inv_set_source split: option.splits
        intro!: wp_finish_noop_feeds [OF inv] feeds_inv_move [OF inv, of _ _ _ JobStatus_succeeded])
qed

lemma feeds_feed_fail: "keeps feeds_inv (feed_fail now job e)"
proof (rule keepsI)
  fix db assume inv: "feeds_inv db"
  show "wp (feed_fail now job e) (\<lambda>_. feeds_inv) (\<lambda>_. feeds_inv) db"
    by (auto simp: feed_fail_def Let_def wp_simps inv get_job_id feed_moves feeds_inv_set_source split: option.splits
        intro!: wp_finish_noop_feeds [OF inv] feeds_inv_move [OF inv, of _ _ _ JobStatus_failed _ FeedSync_failed])
qed

lemma read_after_write:
  "get_job (set_source s h db) = get_job db" "get_run (set_source s h db) = get_run db"
  "locked_run (set_source s h db) = locked_run db" "locked_run (set_run i f db) rid = Option.bind rid (get_run (set_run i f db))"
  "get_source (set_run i f db) = get_source db" "get_source (set_job k g db) = get_source db"
  "moves_run t f \<Longrightarrow> get_run (set_run i f db) i = map_option f (get_run db i)"
  "moves_job st g \<Longrightarrow> get_job (set_job k g db) k = map_option g (get_job db k)"
  by (auto simp: fun_eq_iff get_job_def get_run_def get_source_def locked_run_def set_source_def set_run_def set_job_def
      moves_run_def moves_job_def row_update_row split: bind_split)

lemma feeds_recover_requeue:
  assumes inv: "feeds_inv db" and j: "get_job db k = Some j" "jb_status j = JobStatus_applying"
    and r: "locked_run db (jb_feed_sync_run_id j) = Some r"
    and g: "moves_job JobStatus_failed g1" "moves_run FeedSync_failed f1" "\<And>s. source_view (h s) = source_view s"
      "moves_job JobStatus_queued g" "moves_run FeedSync_queued f"
  shows "feeds_inv (set_run (fr_id r) f (set_job k g (set_source s h (set_run (fr_id r) f1 (set_job k g1 db)))))"
  using feeds_inv_move [OF inv j(1) r g(4,5)] j(2)
  by (simp add: feeds_inv_requeue [OF g(4,1,5,2,3)] feed_coupled_def under_way_def)

lemma wp_feed_recover:
  assumes inv: "feeds_inv db" and applying: "\<And>j. get_job db (jb_id job) = Some j \<Longrightarrow> jb_status j = JobStatus_applying"
  shows "wp (feed_recover now job) (\<lambda>_. feeds_inv) (\<lambda>_. feeds_inv) db"
proof (cases "get_job db (jb_id job)")
  case None
  then show ?thesis using inv by (simp add: feed_recover_def feed_fail_def wp_simps)
next
  case (Some j)
  note st = applying [OF Some]
  have k: "jb_id j = jb_id job" using get_job_id [OF Some] .
  show ?thesis
  proof (cases "locked_run db (jb_feed_sync_run_id j)")
    case None
    then show ?thesis
      using Some st k feeds_inv_move_orphan [OF inv Some None, of JobStatus_succeeded]
      by (simp add: feed_recover_def feed_fail_def finish_noop_def wp_simps is_terminal_def feed_moves read_after_write)
  next
    case run: (Some r)
    have rid: "jb_feed_sync_run_id j = Some (fr_id r)" "get_run db (fr_id r) = Some r"
      using run locked_run_id [OF run] by (auto simp: locked_run_def bind_eq_Some_conv get_run_def dest: row_SomeD)
    have gone: "source_gone (get_source (set_source i (finish_source now t e') db) i) = source_gone (get_source db i)" for i t e' db
      by (auto simp: source_gone_def get_source_def set_source_def row_update_row finish_source_def split: option.splits)
    show ?thesis
    proof (cases "source_gone (get_source db (fr_feed_source_id r)) \<or> fr_status r \<noteq> FeedSync_running")
      case True
      then show ?thesis
        using Some st k run inv feeds_inv_move [OF inv Some run, of JobStatus_succeeded _ FeedSync_success]
        by (auto simp: feed_recover_def feed_fail_def finish_noop_def wp_simps is_terminal_def feed_moves read_after_write)
    next
      case False
      then show ?thesis
        using Some st k run inv rid feeds_inv_move [OF inv Some run, of JobStatus_failed _ FeedSync_failed]
          feeds_recover_requeue [OF inv Some st run]
        by (auto simp: feed_recover_def feed_fail_def Let_def wp_simps is_terminal_def feed_moves read_after_write
            feeds_inv_set_source gone requeue_job_def)
    qed
  qed
qed

subsection \<open>Changing the sources\<close>

lemma feeds_inv_sources:
  assumes inv: "feeds_inv db" and ok: "violated_source_constraint ss = None"
    and keep: "\<And>s. s \<in> set (threat_feed_sources db) \<Longrightarrow> \<exists>s'\<in>set ss. fs_id s' = fs_id s \<and> fs_sync_sequence s' = fs_sync_sequence s"
  shows "feeds_inv (db\<lparr>threat_feed_sources := ss\<rparr>)"
proof -
  have m: "fst \<circ> source_view = fs_id" "fst \<circ> snd \<circ> source_view = lower \<circ> fs_name"
    by (auto simp: source_view_def)
  have c: "distinct (map fs_id ss)" "distinct (map (lower \<circ> fs_name) ss)"
      "\<And>s. s \<in> set ss \<Longrightarrow> 300 \<le> fs_sync_interval_seconds s \<and> fs_sync_interval_seconds s \<le> 604800"
    using ok by (auto simp: violated_source_constraint_def list_all_iff split: if_splits)
  note d = feeds_okD [OF inv [unfolded feeds_inv_def]]
  have "feeds_ok (map source_view ss) (map run_view (feed_sync_runs db)) (map feed_job_view (agent_jobs db))"
  proof (rule feeds_okI)
    show "300 \<le> iv \<and> iv \<le> 604800" if "(i, n, iv, q) \<in> set (map source_view ss)" for i n iv q
      using that c(3) by (auto simp: source_view_def)
    show "\<exists>n iv k. (i, n, iv, k) \<in> set (map source_view ss) \<and> q \<le> k"
      if mem: "(r, i, q, t) \<in> set (map run_view (feed_sync_runs db))" for r i q t
    proof -
      obtain n iv k where "(i, n, iv, k) \<in> set (map source_view (threat_feed_sources db))" "q \<le> k"
        using d(6) [OF mem] by blast
      then obtain s where s: "s \<in> set (threat_feed_sources db)" "fs_id s = i" "q \<le> fs_sync_sequence s"
        by (auto simp: source_view_def)
      then obtain s' where s': "s' \<in> set ss" "fs_id s' = i" "fs_sync_sequence s' = fs_sync_sequence s" using keep by auto
      have "source_view s' \<in> set (map source_view ss)" using s'(1) by simp
      then show ?thesis using s s' by (force simp: source_view_def)
    qed
    show "distinct (map fst (map source_view ss))" "distinct (map (fst \<circ> snd) (map source_view ss))"
      unfolding map_map m by (fact c)+
  qed (fact d)+
  then show ?thesis by (simp add: feeds_inv_def)
qed

lemma wp_flush_sources [wp_simps]:
  "wp flush_sources Q E db = (case violated_source_constraint (threat_feed_sources db) of
     None \<Rightarrow> Q () db | Some c \<Rightarrow> E (IntegrityError c) db)"
  by (simp add: flush_sources_def wp_simps split: option.splits)

lemma feeds_create_source: "commits feeds_inv (create_source bracketed_ok new_id now payload actor)"
proof (rule commitsI)
  fix db assume inv: "feeds_inv db"
  have "feeds_inv (snd (record_event now actor a tt ti out ip md (db\<lparr>threat_feed_sources := threat_feed_sources db @ [s]\<rparr>)))"
    if "violated_source_constraint (threat_feed_sources db @ [s]) = None" for s a tt ti out ip md
    by (simp add: record_event_def run_simps) (rule feeds_inv_sources [OF inv that], auto)
  then show "wp (create_source bracketed_ok new_id now payload actor) (\<lambda>_. feeds_inv) (\<lambda>_ _. True) db"
    by (auto simp: create_source_def ensure_name_available_def one_or_none_def name_conflict_def Let_def wp_simps
        split: option.splits sum.splits list.splits)
qed

lemma feeds_update_source: "commits feeds_inv (update_source bracketed_ok now i payload actor)"
proof (rule commitsI)
  fix db assume inv: "feeds_inv db"
  have written: "feeds_inv (snd (record_event now actor a tt ti out ip md (set_source i (\<lambda>_. s') db)))"
    if "get_source db i = Some s" "fs_id s' = fs_id s" "fs_sync_sequence s' = fs_sync_sequence s"
      "violated_source_constraint (threat_feed_sources (set_source i (\<lambda>_. s') db)) = None" for s s' a tt ti out ip md
  proof -
    have s: "s \<in> set (threat_feed_sources db)" "fs_id s = i"
      using that(1) by (auto simp: get_source_def dest: row_SomeD)
    have "\<exists>x'\<in>set (update_row fs_id i (\<lambda>_. s') (threat_feed_sources db)). fs_id x' = fs_id x \<and>
        fs_sync_sequence x' = fs_sync_sequence x" if x: "x \<in> set (threat_feed_sources db)" for x
    proof (cases "fs_id x = i")
      case True
      have "get_source db (fs_id x) = Some x"
        using feeds_invD(1) [OF inv] x
        by (auto simp: get_source_def violated_source_constraint_def row_distinct split: if_splits)
      then have "x = s" using True \<open>get_source db i = Some s\<close> by simp
      then show ?thesis using x True \<open>fs_id s' = fs_id s\<close> \<open>fs_sync_sequence s' = fs_sync_sequence s\<close>
        by (auto simp: update_row_def image_iff)
    next
      case False
      then show ?thesis using x by (auto simp: update_row_def image_iff)
    qed
    then show ?thesis
      using feeds_inv_sources [OF inv, of "update_row fs_id i (\<lambda>_. s') (threat_feed_sources db)"] that(4)
      by (simp add: record_event_def run_simps set_source_def)
  qed
  show "wp (update_source bracketed_ok now i payload actor) (\<lambda>_. feeds_inv) (\<lambda>_ _. True) db"
    by (auto simp: update_source_def active_source_for_update_def source_for_update_def changed_name_def
        ensure_name_available_def one_or_none_def name_conflict_def Let_def wp_simps
        split: option.splits sum.splits list.splits intro!: written)
qed

lemma feeds_enqueue_sync: "commits feeds_inv (enqueue_sync run_id job_id now i trigger dry_run)"
proof (rule commitsI)
  fix db assume inv: "feeds_inv db"
  have "wp (enqueue_locked run_id job_id now s trigger dry_run) (\<lambda>_. feeds_inv) (\<lambda>_ _. True) db"
    if "get_source db i = Some s" for s
    using wp_enqueue_locked [OF inv, of s s run_id job_id now trigger dry_run] get_source_id [OF that] that
    by (auto elim: wp_mono)
  then show "wp (enqueue_sync run_id job_id now i trigger dry_run) (\<lambda>_. feeds_inv) (\<lambda>_ _. True) db"
    by (auto simp: enqueue_sync_def source_for_update_def wp_simps split: option.splits)
qed

lemma feeds_retag_delete: "keeps feeds_inv (retag_delete run)"
  unfolding retag_delete_def job_for_run_for_update_def one_or_none_def
  by (intro inv_intros)
    (auto simp: feeds_inv_set_run feeds_inv_set_job run_view_def feed_job_view_def is_feed_job_def
      split: list.splits intro: inv_intros)

lemma feeds_reconcile: "keeps feeds_inv (reconcile sha256 collated entry_id now run parsed)"
proof (rule keepsI)
  fix db assume inv: "feeds_inv db"
  have "feed_frame (threat_feed_sources db) (agent_jobs db) (map run_view (feed_sync_runs db)) db"
    by (simp add: feed_frame_def)
  from keepsD [OF feed_frame_reconcile this]
  show "wp (reconcile sha256 collated entry_id now run parsed) (\<lambda>_. feeds_inv) (\<lambda>_. feeds_inv) db"
    by (rule wp_mono) (simp_all add: feed_frameD(1) inv)
qed

lemma feeds_delete_source: "commits feeds_inv (delete_source sha256 collated entry_id run_id job_id now i actor)"
proof (rule commitsI)
  fix db assume inv: "feeds_inv db"
  let ?del = "\<lambda>s. s\<lparr>fs_enabled := False, fs_next_sync_at := None, fs_deleted_at := Some now\<rparr>"
  have inv': "feeds_inv (set_source i ?del db)"
    using inv feeds_inv_set_source [of ?del] by (simp add: source_view_def)
  have rest: "keeps feeds_inv (andThen (retag_delete run) (\<lambda>run.
     andThen (reconcile sha256 collated entry_id now run (parse_line_list [])) (\<lambda>_.
     andThen (record_event now actor ''feed.delete'' (Some ''threat_feed_source'') (JUuid i) ''success''
       None (Some [(''dangerous'', JBool True), (''name'', JStr nm)])) (\<lambda>_.
     ret run))))" for run nm
    by (intro inv_intros feeds_retag_delete feeds_reconcile) simp
  have "wp (enqueue_locked run_id job_id now s Trigger_feed_delete False) (\<lambda>run. wp (andThen (retag_delete run) (\<lambda>run.
     andThen (reconcile sha256 collated entry_id now run (parse_line_list [])) (\<lambda>_.
     andThen (record_event now actor ''feed.delete'' (Some ''threat_feed_source'') (JUuid i) ''success''
       None (Some [(''dangerous'', JBool True), (''name'', JStr (fs_name s))])) (\<lambda>_.
     ret run)))) (\<lambda>_. feeds_inv) (\<lambda>_ _. True)) (\<lambda>_ _. True) (set_source i ?del db)" if s: "get_source db i = Some s" for s
  proof -
    have "get_source (set_source i ?del db) (fs_id s) = Some (?del s)"
      using s get_source_id [OF s] by (simp add: get_source_def set_source_def table_simps)
    from wp_enqueue_locked [OF inv' this, of run_id job_id now Trigger_feed_delete False] show ?thesis
      by (rule wp_mono) (auto intro: commits_wp [OF keeps_commits [OF rest]])
  qed
  then show "wp (delete_source sha256 collated entry_id run_id job_id now i actor) (\<lambda>_. feeds_inv) (\<lambda>_ _. True) db"
    by (auto simp: delete_source_def active_source_for_update_def source_for_update_def wp_andThen wp_gets wp_modify wp_ret
        wp_raise split: option.splits)
qed

section \<open>The feeds as a state machine\<close>

text \<open>
  What changes sources, runs and feed-sync jobs: the requests of the operators
  and the scheduler when they commit, and the worker's life cycle of a job.
  Recovery is started on jobs found applying.
\<close>

inductive feed_step :: "db \<Rightarrow> db \<Rightarrow> bool" where
  created: "create_source bracketed_ok new_id now payload actor db = (Inr s, db') \<Longrightarrow> feed_step db db'"
| updated: "update_source bracketed_ok now i payload actor db = (Inr s, db') \<Longrightarrow> feed_step db db'"
| enqueued: "enqueue_sync run_id job_id now i trigger dry_run db = (Inr run, db') \<Longrightarrow> feed_step db db'"
| deleted: "delete_source sha256 collated entry_id run_id job_id now i actor db = (Inr run, db') \<Longrightarrow> feed_step db db'"
| claimed_run: "feed_claim now job db = (Inr b, db') \<Longrightarrow> feed_step db db'"
| reconciled_run: "reconcile sha256 collated entry_id now run parsed db = (Inr res, db') \<Longrightarrow> feed_step db db'"
| succeeded: "feed_succeed now job outcome db = (Inr u, db') \<Longrightarrow> feed_step db db'"
| failed: "feed_fail now job e db = (Inr u, db') \<Longrightarrow> feed_step db db'"
| recovered: "feed_recover now job db = (Inr u, db') \<Longrightarrow>
    (case get_job db (jb_id job) of None \<Rightarrow> False | Some j \<Rightarrow> jb_status j = JobStatus_applying) \<Longrightarrow> feed_step db db'"

lemma feed_step_inv:
  assumes "feed_step db db'" "feeds_inv db"
  shows "feeds_inv db'"
  using assms(1)
proof (cases rule: feed_step.cases)
  case created
  then show ?thesis by (rule commitsD [OF feeds_create_source assms(2)])
next
  case updated
  then show ?thesis by (rule commitsD [OF feeds_update_source assms(2)])
next
  case enqueued
  then show ?thesis by (rule commitsD [OF feeds_enqueue_sync assms(2)])
next
  case deleted
  then show ?thesis by (rule commitsD [OF feeds_delete_source assms(2)])
next
  case claimed_run
  then show ?thesis by (rule commitsD [OF keeps_commits [OF feeds_feed_claim] assms(2)])
next
  case reconciled_run
  then show ?thesis by (rule commitsD [OF keeps_commits [OF feeds_reconcile] assms(2)])
next
  case succeeded
  then show ?thesis by (rule commitsD [OF keeps_commits [OF feeds_feed_succeed] assms(2)])
next
  case failed
  then show ?thesis by (rule commitsD [OF keeps_commits [OF feeds_feed_fail] assms(2)])
next
  case (recovered now job u)
  have "wp (feed_recover now job) (\<lambda>_. feeds_inv) (\<lambda>_. feeds_inv) db"
    by (rule wp_feed_recover [OF assms(2)]) (use recovered(2) in auto)
  then show ?thesis using recovered(1) by (rule wp_okD)
qed

lemma feeds_inv_coupled:
  assumes inv: "feeds_inv db" and j: "j \<in> set (agent_jobs db)"
    and r: "r \<in> set (feed_sync_runs db)" "jb_feed_sync_run_id j = Some (fr_id r)"
  shows "is_feed_job j \<and> feed_coupled (jb_status j) (fr_status r)"
proof -
  have "feed_job_view j \<in> set (map feed_job_view (agent_jobs db))" using j by simp
  then have v: "(jb_id j, is_feed_job j, jb_status j, Some (fr_id r)) \<in> set (map feed_job_view (agent_jobs db))"
    unfolding feed_job_view_def r(2) .
  obtain i q t where jr: "is_feed_job j" "(fr_id r, i, q, t) \<in> run_view ` set (feed_sync_runs db)" "feed_coupled (jb_status j) t"
    using feeds_okD(9) [OF inv [unfolded feeds_inv_def] v] unfolding set_map by blast
  obtain x where x: "(fr_id r, i, q, t) = run_view x" "x \<in> set (feed_sync_runs db)"
    using jr(2) by (rule imageE)
  have k: "fr_id r = fr_id x" and t: "t = fr_status x" using x(1) unfolding run_view_def prod.inject by blast+
  have "Some r = Some x"
    using get_run_distinct [OF inv r(1)] get_run_distinct [OF inv x(2)] unfolding k by (rule trans [OF sym])
  then show ?thesis using jr(1,3) unfolding t by simp
qed

section \<open>Properties\<close>

text \<open>A feed with a synchronisation under way.\<close>

definition sample_feed_job :: agent_job where
  "sample_feed_job = (new_feed_job 41 0 (sample_run False))\<lparr>jb_status := JobStatus_applying, jb_attempts := 1\<rparr>"

definition sample_feeds :: db where
  "sample_feeds = sample_deny\<lparr>feed_sync_runs := [sample_run False], agent_jobs := [sample_feed_job]\<rparr>"

lemma sample_feeds_fields [simp]:
  "threat_feed_sources sample_feeds = [sample_feed]" "feed_sync_runs sample_feeds = [sample_run False]"
  "agent_jobs sample_feeds = [sample_feed_job]" "blacklist_entries sample_feeds = blacklist_entries sample_deny"
  "feed_blacklist_assertions sample_feeds = feed_blacklist_assertions sample_deny"
  by (simp_all add: sample_feeds_def sample_deny_def)

lemma sample_feeds_ok: "feeds_inv sample_feeds" "deny_tables_ok sample_feeds" "delete_runs_wet sample_feeds"
proof -
  show "feeds_inv sample_feeds"
    by (simp add: feeds_inv_def feeds_ok_def source_view_def sample_feed_def run_view_def sample_run_def feed_job_view_def
        sample_feed_job_def new_feed_job_def is_feed_job_def feed_coupled_def)
  show "deny_tables_ok sample_feeds" using sample_deny_ok by (simp add: deny_tables_ok_def)
  show "delete_runs_wet sample_feeds" by (simp add: delete_runs_wet_def sample_run_def)
qed

lemma sample_feeds_rows:
  "get_source sample_feeds 60 = Some sample_feed" "get_run sample_feeds 80 = Some (sample_run False)"
  "get_job sample_feeds 41 = Some sample_feed_job" "feed_nets sample_feeds = feed_nets sample_deny"
  by (simp_all add: get_source_def get_run_def get_job_def feed_nets_def sample_feed_def sample_run_def sample_feed_job_def
      new_feed_job_def table_simps)

text \<open>
  C11 The ledger of feed synchronisations stays consistent.  Through any sequence of
  committed requests (create, update, sync, delete a feed) and worker steps (claim,
  reconcile, succeed, fail, recover an interrupted job), every feed has at most one
  synchronisation under way, no two runs of a feed have one sequence number, no
  two feeds have names equal up to case, intervals stay between 300 and 604800
  seconds, and the job of a run has the status that goes with the run's.
\<close>

theorem feed_ledger_stays_consistent:
  assumes "feeds_inv db" "feed_step\<^sup>*\<^sup>* db db'"
  shows "length (inflight_jobs db' i) \<le> 1 \<and>
    distinct (map (\<lambda>r. (fr_feed_source_id r, fr_sequence r)) (feed_sync_runs db')) \<and>
    violated_source_constraint (threat_feed_sources db') = None \<and>
    (\<forall>j\<in>set (agent_jobs db'). \<forall>r\<in>set (feed_sync_runs db').
      jb_feed_sync_run_id j = Some (fr_id r) \<longrightarrow> is_feed_job j \<and> feed_coupled (jb_status j) (fr_status r))"
proof -
  have inv: "feeds_inv db'"
    using assms(2,1) by (induction rule: rtranclp_induct) (assumption, rule feed_step_inv)
  have "distinct (map (\<lambda>r. (fr_feed_source_id r, fr_sequence r)) (feed_sync_runs db'))"
    using feeds_okD(5) [OF inv [unfolded feeds_inv_def]] by (simp add: o_def run_view_def)
  then show ?thesis
    by (intro conjI feeds_invD(1,4) [OF inv] ballI impI) (auto dest: feeds_inv_coupled [OF inv])
qed

theorem feed_ledger_stays_consistent_witness:
  "\<exists>run db'. enqueue_sync 81 42 5 60 Trigger_feed_manual False sample_feeds = (Inr run, db') \<and>
     length (inflight_jobs db' 60) \<le> 1"
proof -
  have "\<exists>run db'. enqueue_sync 81 42 5 60 Trigger_feed_manual False sample_feeds = (Inr run, db')"
    by (simp add: enqueue_sync_def source_for_update_def enqueue_locked_def inflight_run_def inflight_jobs_def run_simps
        sample_feeds_rows locked_run_def first_of_def is_active_job_def is_feed_job_def sample_feed_job_def new_feed_job_def
        sample_run_def sample_feed_def)
  then obtain run db' where r: "enqueue_sync 81 42 5 60 Trigger_feed_manual False sample_feeds = (Inr run, db')" by blast
  have "feed_step\<^sup>*\<^sup>* sample_feeds db'" using feed_step.enqueued [OF r] by (rule r_into_rtranclp)
  from feed_ledger_stays_consistent [OF sample_feeds_ok(1) this, of 60] r show ?thesis by blast
qed

lemma deleted_not_due:
  assumes "feeds_inv db" "feed_deleted now i db"
  shows "i \<notin> fs_id ` set (list_due_sources row_free t limit db)"
proof
  assume "i \<in> fs_id ` set (list_due_sources row_free t limit db)"
  then obtain s where s: "s \<in> set (threat_feed_sources db)" "fs_enabled s" "fs_id s = i"
    by (auto simp: list_due_sources_def dest!: in_set_takeD split: if_splits)
  have "distinct (map fs_id (threat_feed_sources db))"
    using feeds_invD(1) [OF assms(1)] by (auto simp: violated_source_constraint_def split: if_splits)
  from row_distinct [OF this s(1)] show False
    using assms(2) s(2,3) by (auto simp: feed_deleted_def get_source_def)
qed

lemma only_manual_entries:
  assumes "deny_tables_ok db" "\<And>s. feed_nets db s = {}"
  shows "filter (\<lambda>e. \<not> feed_managed e) (blacklist_entries db) = blacklist_entries db"
proof -
  have "\<not> feed_managed e" if e: "e \<in> set (blacklist_entries db)" for e
  proof
    assume m: "feed_managed e"
    then obtain s where "(s, bl_id e) \<in> links (feed_blacklist_assertions db)"
      using assms(1) e by (auto simp: deny_tables_ok_def linked_ok_def feed_managed_def)
    then have "bl_source_cidr e \<in> feed_nets db s"
      using e m by (auto simp: feed_nets_def asserted_nets_def feed_managed_def)
    then show False using assms(2) by simp
  qed
  then show ?thesis by (simp add: filter_id_conv)
qed

lemma sample_delete_returns:
  "\<exists>run db'. delete_source (map char_of) (\<lambda>xs. xs) (\<lambda>_. 90) 81 42 9 60 None sample_feeds = (Inr run, db')"
proof -
  let ?d = "set_job 41 (\<lambda>j. j\<lparr>jb_trigger := Trigger_feed_delete\<rparr>) (set_run 80 (\<lambda>r. r\<lparr>fr_trigger := Trigger_feed_delete, fr_dry_run := False\<rparr>)
     (set_source 60 (\<lambda>s. s\<lparr>fs_enabled := False, fs_next_sync_at := None, fs_deleted_at := Some 9\<rparr>) sample_feeds))"
  let ?run = "(sample_run False)\<lparr>fr_trigger := Trigger_feed_delete, fr_dry_run := False\<rparr>"
  have tables: "blacklist_entries ?d = blacklist_entries sample_deny"
      "feed_blacklist_assertions ?d = feed_blacklist_assertions sample_deny"
    by (simp_all add: set_job_def set_run_def set_source_def)
  have ok: "deny_tables_ok ?d" using sample_deny_ok unfolding deny_tables_ok_def tables .
  have live: "feed_live ?d ?run"
    by (simp add: feed_live_def get_source_def set_job_def set_run_def set_source_def table_simps sample_feed_def sample_run_def)
  have fine: "\<not> sync_refused (\<lambda>_. 90) 60 [] ?d e" for e
    unfolding sync_refused_def prospective_nets_def tables
    by (simp add: sample_deny_def is_global_def MAX_GLOBAL_DENY_ENTRIES_def)
  have "wp (reconcile (map char_of) (\<lambda>xs. xs) (\<lambda>_. 90) 9 ?run (parse_line_list [])) (\<lambda>_ _. True) (\<lambda>_ _. False) ?d"
    by (rule wp_mono [OF wp_reconcile [OF ok parsed_nothing live]]) (use fine in \<open>simp_all add: sample_run_def\<close>)
  then obtain x d' where rec: "reconcile (map char_of) (\<lambda>xs. xs) (\<lambda>_. 90) 9 ?run (parse_line_list []) ?d = (Inr x, d')"
    by (auto simp: wp_def split: prod.splits sum.splits)
  let ?before = "set_source 60 (\<lambda>s. s\<lparr>fs_enabled := False, fs_next_sync_at := None, fs_deleted_at := Some 9\<rparr>) sample_feeds"
  have rows: "get_run ?before 80 = Some (sample_run False)" "agent_jobs ?before = [sample_feed_job]"
    by (simp_all add: get_run_def set_source_def table_simps sample_run_def)
  have enq: "enqueue_locked 81 42 9 sample_feed Trigger_feed_delete False ?before = (Inr (sample_run False), ?before)"
    by (simp add: enqueue_locked_def inflight_run_def inflight_jobs_def rows run_simps locked_run_def first_of_def
        is_active_job_def is_feed_job_def sample_feed_job_def new_feed_job_def sample_run_def sample_feed_def)
  have tag: "retag_delete (sample_run False) ?before = (Inr ?run, ?d)"
    by (simp add: retag_delete_def job_for_run_for_update_def one_or_none_def rows set_tables run_simps sample_feed_job_def
        new_feed_job_def is_feed_job_def sample_run_def)
  show ?thesis
    using enq tag rec
    by (simp add: delete_source_def active_source_for_update_def source_for_update_def run_simps sample_feeds_rows
        record_event_def sample_feed_def [THEN arg_cong, of fs_deleted_at])
qed


text \<open>
  C12 Deleting a feed withdraws what it asserted, at once.  When the request
  returns, the feed asserts nothing, every other feed and every manual or service
  entry is as before, the effective list is that of the manual entries and the
  remaining feeds, the desired state is in step with it, and the source is disabled,
  marked deleted and never due again.
\<close>

theorem delete_withdraws_feed:
  assumes "feeds_inv db" "deny_tables_ok db" "delete_runs_wet db"
    and "delete_source sha256 collated entry_id run_id job_id now i actor db = (Inr run, db')"
  shows "feed_nets db' = (feed_nets db)(i := {}) \<and>
    filter (\<lambda>e. \<not> feed_managed e) (blacklist_entries db') = filter (\<lambda>e. \<not> feed_managed e) (blacklist_entries db) \<and>
    global_nets db' = manual_nets db \<union> (\<Union>s\<in>- {i}. feed_nets db s) \<and>
    deny_synced sha256 db' \<and> feed_deleted now i db' \<and> i \<notin> fs_id ` set (list_due_sources row_free t limit db')"
proof -
  note w = wp_okD [OF wp_delete_source [OF assms(1-3)] assms(4), unfolded feed_withdrawn_def]
  have g: "global_nets db' = manual_nets db \<union> (\<Union>s. feed_nets db' s)"
    using w global_nets_union [of db'] synced_manual [of i "{}" db db'] by simp
  moreover have "(\<Union>s. feed_nets db' s) = (\<Union>s\<in>- {i}. feed_nets db s)"
    using w by (auto simp: synced_feed_def split: if_splits)
  moreover have "i \<notin> fs_id ` set (list_due_sources row_free t limit db')"
    using w deleted_not_due [of db' now i] by simp
  ultimately show ?thesis using w by (auto simp: synced_feed_def)
qed

theorem delete_withdraws_feed_witness:
  "\<exists>run db'. delete_source (map char_of) (\<lambda>xs. xs) (\<lambda>_. 90) 81 42 9 60 None sample_feeds = (Inr run, db') \<and>
     feed_nets sample_feeds 60 = {Net 167772160 8} \<and> feed_nets db' 60 = {}"
proof -
  obtain run db' where r: "delete_source (map char_of) (\<lambda>xs. xs) (\<lambda>_. 90) 81 42 9 60 None sample_feeds = (Inr run, db')"
    using sample_delete_returns by blast
  show ?thesis
    using r delete_withdraws_feed [OF sample_feeds_ok r] by (auto simp: sample_feeds_rows sample_feed_nets)
qed

text \<open>
  C36 But a deletion does not stop a synchronisation that has started.  The
  deletion retags the run under way as a deletion, and the reconciliation takes a
  run with that tag although its source is deleted: when the worker, which has
  fetched the feed meanwhile, reconciles that run, the deleted feed asserts the
  fetched networks again (or the run is refused for want of room or identifiers),
  and no later run will ever withdraw them.
\<close>

theorem deleted_feed_returns:
  assumes "feeds_inv db" "deny_tables_ok db" "delete_runs_wet db" "parsed_as parsed ns"
    and "delete_source sha256 collated entry_id run_id job_id now i actor db = (Inr run, db')"
    and "reconcile sha256 collated entry_id' now' run parsed db' = (Inr result, db'')"
  shows "feed_nets db'' i = set ns \<and> set ns \<subseteq> global_nets db'' \<and> feed_deleted now i db'' \<and>
    i \<notin> fs_id ` set (list_due_sources row_free t limit db'')"
proof -
  note w = wp_okD [OF wp_delete_source [OF assms(1-3)] assms(5), unfolded feed_withdrawn_def]
  have live: "feed_live db' run" using w by (auto simp: feed_live_def feed_deleted_def split: option.splits)
  have ok: "deny_tables_ok db'" and wet: "\<not> fr_dry_run run" and i: "fr_feed_source_id run = i" using w by auto
  have "reconciled sha256 i ns db' db''"
    using wp_okD [OF wp_reconcile [OF ok assms(4) live wet] assms(6)] i by simp
  then have rec: "feed_nets db'' i = set ns" "deny_tables_ok db''" by (auto simp: reconciled_def synced_feed_def)
  have frame: "feed_frame (threat_feed_sources db') (agent_jobs db') (map run_view (feed_sync_runs db')) db''"
    using wp_okD [OF wp_reconcile_frame assms(6)] .
  have "feed_deleted now i db''" "feeds_inv db''" using w feed_frameD [OF frame] by (simp_all add: feed_deleted_def)
  moreover from this have "i \<notin> fs_id ` set (list_due_sources row_free t limit db'')" by (intro deleted_not_due)
  ultimately show ?thesis using rec global_nets_union [OF rec(2)] by auto
qed


theorem deleted_feed_returns_witness:
  "\<exists>run db' result db''. delete_source (map char_of) (\<lambda>xs. xs) (\<lambda>_. 90) 81 42 9 60 None sample_feeds = (Inr run, db') \<and>
     feed_nets db' 60 = {} \<and>
     reconcile (map char_of) (\<lambda>xs. xs) (\<lambda>_. 91) 10 run (parsed_nets [Net 134217728 8]) db' = (Inr result, db'') \<and>
     feed_nets db'' 60 = {Net 134217728 8} \<and> feed_deleted 9 60 db''"
proof -
  obtain run db' where r: "delete_source (map char_of) (\<lambda>xs. xs) (\<lambda>_. 90) 81 42 9 60 None sample_feeds = (Inr run, db')"
    using sample_delete_returns by blast
  note w = wp_okD [OF wp_delete_source [OF sample_feeds_ok] r, unfolded feed_withdrawn_def]
  have none: "feed_nets db' s = {}" for s
    using w by (auto simp: synced_feed_def feed_nets_def asserted_nets_def links_def fa_key_def sample_deny_def)
  have "blacklist_entries db' = filter (\<lambda>e. \<not> feed_managed e) (blacklist_entries sample_deny)"
    using w only_manual_entries [OF _ none] by (auto simp: synced_feed_def)
  then have entries: "blacklist_entries db' = [\<lparr> bl_id = 70, bl_scope = BlacklistScope_global, bl_source = BlacklistSource_manual,
          bl_source_cidr = Net 150994944 8, bl_created_by = None, bl_created_at = 0 \<rparr>]"
    by (simp add: sample_deny_def feed_managed_def is_global_def)
  have fine: "\<not> sync_refused (\<lambda>_. 91) 60 [Net 134217728 8] db' e" for e
    by (simp add: sync_refused_def prospective_nets_def entries is_global_def MAX_GLOBAL_DENY_ENTRIES_def)
  have live: "feed_live db' run" using w by (auto simp: feed_live_def feed_deleted_def split: option.splits)
  have "wp (reconcile (map char_of) (\<lambda>xs. xs) (\<lambda>_. 91) 10 run (parsed_nets [Net 134217728 8])) (\<lambda>_ _. True) (\<lambda>_ _. False) db'"
    by (rule wp_mono [OF wp_reconcile [OF _ sample_parsed live]]) (use w fine in simp_all)
  then obtain result db'' where
    q: "reconcile (map char_of) (\<lambda>xs. xs) (\<lambda>_. 91) 10 run (parsed_nets [Net 134217728 8]) db' = (Inr result, db'')"
    by (auto simp: wp_def split: prod.splits sum.splits)
  show ?thesis
    using r q none deleted_feed_returns [OF sample_feeds_ok sample_parsed r q, of "\<lambda>_. True" 0 0] by auto
qed

end
