(* ===== verification/FeedRunner.thy ===== *)
theory FeedRunner
  imports Feeds FeedFetch
begin

text \<open>
  The run of a feed job: the rest of \<open>app/worker/feed_runner.py\<close>, the single slot
  for downloads (\<open>app/worker/feed_coordinator.py\<close>) and the scheduling of due feeds
  (\<open>app/worker/feed_scheduler.py\<close>).  The run is a sequence of transactions with
  the download and the call of the node between them; what other sessions commit
  in the gaps is the parameter \<open>concurrent\<close>, numbered by gap.  The log messages and
  the counters they print are left out.
\<close>

section \<open>The runner\<close>

definition load_run_and_source ::
  "(uuid \<Rightarrow> db \<Rightarrow> db) \<Rightarrow> uuid option \<Rightarrow> (feed_sync_run \<times> threat_feed_source) option dbprog" where
  "load_run_and_source cb run_id =
     (case run_id of
        None \<Rightarrow> ret None
      | Some i \<Rightarrow> session_scope cb (
          andThen (gets (\<lambda>db. get_run db i)) (\<lambda>run.
          case run of
            None \<Rightarrow> ret None
          | Some r \<Rightarrow>
              andThen (gets (\<lambda>db. get_source db (fr_feed_source_id r))) (\<lambda>source.
              case source of
                None \<Rightarrow> ret None
              | Some s \<Rightarrow> if fs_deleted_at s \<noteq> None then ret None else ret (Some (r, s))))))"

definition load_source_for_fetch :: "(uuid \<Rightarrow> db \<Rightarrow> db) \<Rightarrow> agent_job \<Rightarrow> threat_feed_source option dbprog" where
  "load_source_for_fetch cb job =
     andThen (load_run_and_source cb (jb_feed_sync_run_id job)) (\<lambda>loaded. ret (map_option snd loaded))"

text \<open>The run is the object loaded in the session: the new line count is on it when it is reconciled.\<close>

definition runner_reconcile ::
  "(ustr \<Rightarrow> string) \<Rightarrow> (ustr list \<Rightarrow> ustr list) \<Rightarrow> (net \<Rightarrow> uuid) \<Rightarrow> (uuid \<Rightarrow> db \<Rightarrow> db) \<Rightarrow> timestamp \<Rightarrow> uuid \<Rightarrow> ParseResult
   \<Rightarrow> (ReconcileResult \<times> int option) dbprog" where
  "runner_reconcile sha256 collated entry_id cb now run_id parsed =
     session_scope cb (
       andThen (fetch (\<lambda>db. get_run db run_id) (RuntimeError ''Feed sync run is missing'')) (\<lambda>run.
       andThen (modify (set_run run_id (\<lambda>r. r\<lparr>fr_fetched_lines := int (pr_physical_line_count parsed)\<rparr>))) (\<lambda>_.
       andThen (reconcile sha256 collated entry_id now
         (run\<lparr>fr_fetched_lines := int (pr_physical_line_count parsed)\<rparr>) parsed) (\<lambda>result.
       if fr_dry_run run \<or> rr_noop result then ret (result, None)
       else andThen (gets global_deny_row) (\<lambda>state.
         ret (result, case state of None \<Rightarrow> None
            | Some st \<Rightarrow> if state_needs_apply st then Some (gd_desired_revision st) else None))))))"

definition finish_feed ::
  "(uuid \<Rightarrow> db \<Rightarrow> db) \<Rightarrow> timestamp \<Rightarrow> uuid \<Rightarrow> FeedSyncStatus \<Rightarrow> int option \<Rightarrow> unit dbprog" where
  "finish_feed cb now job_id outcome node_map_version =
     session_scope cb (
       andThen (gets (\<lambda>db. get_job db job_id)) (\<lambda>found.
       case found of
         None \<Rightarrow> ret ()
       | Some job \<Rightarrow>
           andThen (case (node_map_version, jb_feed_sync_run_id job) of
               (Some v, Some i) \<Rightarrow> modify (set_run i (\<lambda>r. r\<lparr>fr_node_map_version := Some v\<rparr>))
             | _ \<Rightarrow> ret ()) (\<lambda>_.
           feed_succeed now job (Some outcome))))"

definition fail_feed :: "(uuid \<Rightarrow> db \<Rightarrow> db) \<Rightarrow> (exc \<Rightarrow> string) \<Rightarrow> timestamp \<Rightarrow> uuid \<Rightarrow> exc \<Rightarrow> unit dbprog" where
  "fail_feed cb describe now job_id error =
     session_scope cb (
       andThen (gets (\<lambda>db. get_job db job_id)) (\<lambda>found.
       case found of None \<Rightarrow> ret () | Some job \<Rightarrow> feed_fail now job (describe error)))"

definition store_failed_parse_stats :: "(uuid \<Rightarrow> db \<Rightarrow> db) \<Rightarrow> uuid \<Rightarrow> ParseResult \<Rightarrow> unit dbprog" where
  "store_failed_parse_stats cb run_id parsed =
     session_scope cb (
       modify (set_run run_id (\<lambda>r. r\<lparr>fr_fetched_lines := int (pr_physical_line_count parsed),
         fr_valid := int (valid_distinct_count parsed), fr_duplicates := int (pr_duplicate_count parsed),
         fr_skipped_invalid := int (pr_invalid_count parsed)\<rparr>)))"

definition parse_failure_message :: "ParseResult \<Rightarrow> string" where
  "parse_failure_message parsed =
     (case pr_invalid_line_diagnostics parsed of
        [] \<Rightarrow> ''Feed response did not contain a valid IPv4 CIDR''
      | d # _ \<Rightarrow> if dg_line_number d = None then ''Feed response is not valid UTF-8''
                 else ''Feed response did not contain a valid IPv4 CIDR'')"

record FeedFetchCompletion =
  fc_job :: agent_job
  fc_source_id :: uuid
  fc_body :: "nat list option"
  fc_error :: "exc option"

text \<open>What runs in the worker around a feed: the world a run is carried out in.\<close>

record feed_world =
  fw_sha256 :: "ustr \<Rightarrow> string"
  fw_collated :: "ustr list \<Rightarrow> ustr list"
  fw_entry_id :: "net \<Rightarrow> uuid"
  fw_cb :: "uuid \<Rightarrow> db \<Rightarrow> db"
  fw_describe :: "exc \<Rightarrow> string"
  fw_node :: "GlobalDenySnapshot \<Rightarrow> exc + GlobalDenyApplyResult"
  fw_now :: timestamp

text \<open>The body of the \<open>try\<close> in \<open>complete_feed_fetch\<close>.\<close>

definition carry_out :: "feed_world \<Rightarrow> (nat \<Rightarrow> db \<Rightarrow> db) \<Rightarrow> FeedFetchCompletion \<Rightarrow> unit dbprog" where
  "carry_out w concurrent completion =
     (let job = fc_job completion in
      case fc_error completion of
        Some e \<Rightarrow> raise e
      | None \<Rightarrow>
     (case fc_body completion of
        None \<Rightarrow> raise (RuntimeError ''Feed fetch completed without a response body'')
      | Some body \<Rightarrow>
     (let parsed = parse_line_list body in
      if pr_outcome parsed = ParseOutcome_failed then
        andThen (case jb_feed_sync_run_id job of None \<Rightarrow> ret ()
          | Some i \<Rightarrow> store_failed_parse_stats (fw_cb w) i parsed) (\<lambda>_.
        raise (FeedParseError (parse_failure_message parsed)))
      else
     (case jb_feed_sync_run_id job of
        None \<Rightarrow> raise (RuntimeError ''Feed sync job is missing its run'')
      | Some i \<Rightarrow>
        andThen (runner_reconcile (fw_sha256 w) (fw_collated w) (fw_entry_id w) (fw_cb w) (fw_now w) i parsed)
          (\<lambda>(result, desired_revision).
        andThen (modify (concurrent 0)) (\<lambda>_.
        andThen (converge_desired_revision (fw_sha256 w) (fw_cb w) (fw_describe w) (fw_node w) (concurrent 1)
          desired_revision) (\<lambda>apply_result.
        andThen (modify (concurrent 2)) (\<lambda>_.
        finish_feed (fw_cb w) (fw_now w) (jb_id job)
          (if pr_outcome parsed = ParseOutcome_partial then FeedSync_partial else FeedSync_success)
          (map_option ga_node_map_version apply_result)))))))))"

definition complete_feed_fetch :: "feed_world \<Rightarrow> (nat \<Rightarrow> db \<Rightarrow> db) \<Rightarrow> FeedFetchCompletion \<Rightarrow> unit dbprog" where
  "complete_feed_fetch w concurrent completion =
     catch (carry_out w concurrent completion)
       (\<lambda>e. andThen (modify (concurrent 3)) (\<lambda>_.
          fail_feed (fw_cb w) (fw_describe w) (fw_now w) (jb_id (fc_job completion)) e))"

definition run_fetch :: "(threat_feed_source \<Rightarrow> exc + nat list) \<Rightarrow> agent_job \<Rightarrow> threat_feed_source \<Rightarrow> FeedFetchCompletion" where
  "run_fetch fetch_source job source =
     (case fetch_source source of
        Inl e \<Rightarrow> \<lparr> fc_job = job, fc_source_id = fs_id source, fc_body = None, fc_error = Some e \<rparr>
      | Inr body \<Rightarrow> \<lparr> fc_job = job, fc_source_id = fs_id source, fc_body = Some body, fc_error = None \<rparr>)"

definition handle_feed_sync ::
  "feed_world \<Rightarrow> (threat_feed_source \<Rightarrow> exc + nat list) \<Rightarrow> (nat \<Rightarrow> db \<Rightarrow> db) \<Rightarrow> agent_job \<Rightarrow> unit dbprog" where
  "handle_feed_sync w fetch_source concurrent job =
     catch
       (andThen (load_source_for_fetch (fw_cb w) job) (\<lambda>source.
        andThen (modify (concurrent 4)) (\<lambda>_.
        case source of
          None \<Rightarrow> finish_feed (fw_cb w) (fw_now w) (jb_id job) FeedSync_success None
        | Some s \<Rightarrow> complete_feed_fetch w concurrent (run_fetch fetch_source job s))))
       (\<lambda>e. fail_feed (fw_cb w) (fw_describe w) (fw_now w) (jb_id job) e)"

definition finish_missing_feed :: "(uuid \<Rightarrow> db \<Rightarrow> db) \<Rightarrow> timestamp \<Rightarrow> agent_job \<Rightarrow> unit dbprog" where
  "finish_missing_feed cb now job = finish_feed cb now (jb_id job) FeedSync_success None"

section \<open>The scheduler\<close>

definition DEFAULT_DUE_SOURCE_LIMIT :: int where
  "DEFAULT_DUE_SOURCE_LIMIT = 100"

text \<open>The identifiers of the runs and jobs are functions of the source.\<close>

definition enqueue_due_feed_syncs ::
  "(uuid \<Rightarrow> db \<Rightarrow> db) \<Rightarrow> (uuid \<Rightarrow> bool) \<Rightarrow> bool \<Rightarrow> (uuid \<Rightarrow> uuid) \<Rightarrow> (uuid \<Rightarrow> uuid) \<Rightarrow> uuid \<Rightarrow> timestamp \<Rightarrow> int
   \<Rightarrow> nat dbprog" where
  "enqueue_due_feed_syncs cb row_free state_free run_id job_id deny_job_id now limit =
     session_scope cb (
       andThen (gets (list_due_sources row_free now limit)) (\<lambda>sources.
       andThen (for_each sources (\<lambda>s. andThen (enqueue_sync (run_id (fs_id s)) (job_id (fs_id s)) now (fs_id s)
         Trigger_feed_schedule False) (\<lambda>_. ret ()))) (\<lambda>_.
       andThen (enqueue_global_convergence state_free deny_job_id now) (\<lambda>global_enqueued.
       ret (length sources + of_bool global_enqueued)))))"

section \<open>A claimed feed job ends\<close>

definition feed_running :: "uuid \<Rightarrow> db \<Rightarrow> bool" where
  "feed_running k db \<longleftrightarrow> feeds_inv db \<and>
     (case get_job db k of None \<Rightarrow> False | Some j \<Rightarrow> is_feed_job j \<and> jb_status j = JobStatus_applying)"

definition feed_ended :: "uuid \<Rightarrow> db \<Rightarrow> bool" where
  "feed_ended k db \<longleftrightarrow> feeds_inv db \<and>
     (case get_job db k of None \<Rightarrow> False
      | Some j \<Rightarrow> jb_status j = JobStatus_succeeded \<or> jb_status j = JobStatus_failed)"

lemma feed_running_row:
  assumes "feed_running k db"
  obtains j where "feeds_inv db" "get_job db k = Some j" "jb_status j = JobStatus_applying" "jb_id j = k"
  using assms get_job_id by (auto simp: feed_running_def split: option.splits)

lemma feed_running_run:
  assumes inv: "feeds_inv db" and j: "get_job db k = Some j" "jb_status j = JobStatus_applying"
    and r: "locked_run db (jb_feed_sync_run_id j) = Some r"
  shows "fr_status r = FeedSync_running"
proof -
  have "j \<in> set (agent_jobs db)" using j(1) by (auto simp: get_job_def dest: row_SomeD)
  moreover have "r \<in> set (feed_sync_runs db)" "jb_feed_sync_run_id j = Some (fr_id r)"
    using r by (auto simp: locked_run_def bind_eq_Some_conv get_run_def dest!: row_SomeD)
  ultimately have "feed_coupled (jb_status j) (fr_status r)" using feeds_inv_coupled [OF inv] by blast
  then show ?thesis using j(2) by (simp add: feed_coupled_def)
qed

lemma post_commit_sets:
  "post_commit (set_job k g db) = post_commit db" "post_commit (set_run i f db) = post_commit db"
  "post_commit (set_source s h db) = post_commit db"
  by (simp_all add: set_job_def set_run_def set_source_def)

text \<open>Completion and failure put the job into a final state and register nothing.\<close>

definition job_final :: "uuid \<Rightarrow> db \<Rightarrow> bool" where
  "job_final k db = (case get_job db k of None \<Rightarrow> False
     | Some j \<Rightarrow> jb_status j = JobStatus_succeeded \<or> jb_status j = JobStatus_failed)"

lemma wp_feed_completion:
  assumes inv: "feeds_inv db" and j: "get_job db (jb_id job) = Some j" "jb_status j = JobStatus_applying"
    and out: "outcome = FeedSync_success \<or> outcome = FeedSync_partial"
  shows "wp (feed_succeed now job (Some outcome))
      (\<lambda>_ db'. job_final (jb_id job) db' \<and> post_commit db' = post_commit db) (\<lambda>_ _. False) db"
    "wp (feed_fail now job e) (\<lambda>_ db'. job_final (jb_id job) db' \<and> post_commit db' = post_commit db) (\<lambda>_ _. False) db"
proof -
  have k: "jb_id j = jb_id job" using get_job_id [OF j(1)] .
  have running: "locked_run db (jb_feed_sync_run_id j) = Some r \<Longrightarrow> fr_status r = FeedSync_running" for r
    using feed_running_run [OF inv j] .
  show "wp (feed_succeed now job (Some outcome))
      (\<lambda>_ db'. job_final (jb_id job) db' \<and> post_commit db' = post_commit db) (\<lambda>_ _. False) db"
    using out j k running
    by (auto simp: feed_succeed_def finish_noop_def is_terminal_def wp_simps Let_def job_final_def read_after_write feed_moves
        post_commit_sets split: option.splits)
  show "wp (feed_fail now job e) (\<lambda>_ db'. job_final (jb_id job) db' \<and> post_commit db' = post_commit db) (\<lambda>_ _. False) db"
    using j k running
    by (auto simp: feed_fail_def finish_noop_def is_terminal_def wp_simps Let_def job_final_def read_after_write feed_moves
        post_commit_sets split: option.splits)
qed

lemma feed_running_frames [simp]:
  "feed_running k (db\<lparr>post_commit := xs\<rparr>) = feed_running k db"
  "feed_running k (db\<lparr>global_deny_row := st\<rparr>) = feed_running k db"
  by (simp_all add: feed_running_def get_job_def)

lemma feed_running_set_run:
  "(\<And>r. run_view (f r) = run_view r) \<Longrightarrow> feed_running k (set_run i f db) = feed_running k db"
  by (simp add: feed_running_def feeds_inv_set_run)

lemma feed_frame_running:
  assumes "feed_frame (threat_feed_sources db) (agent_jobs db) (map run_view (feed_sync_runs db)) db'"
  shows "feed_running k db' = feed_running k db"
  unfolding feed_running_def feed_frameD(1) [OF assms] get_job_def using assms by (simp add: feed_frame_def)

lemma feed_running_reconcile: "keeps (feed_running k) (reconcile sha256 collated entry_id now run parsed)"
proof (rule keepsI)
  fix db assume busy: "feed_running k db"
  have "feed_frame (threat_feed_sources db) (agent_jobs db) (map run_view (feed_sync_runs db)) db"
    by (simp add: feed_frame_def)
  from keepsD [OF feed_frame_reconcile this]
  show "wp (reconcile sha256 collated entry_id now run parsed) (\<lambda>_. feed_running k) (\<lambda>_. feed_running k) db"
    by (rule wp_mono) (rule feed_frame_running [THEN iffD2, OF _ busy], assumption)+
qed

lemma wp_completion_commit:
  assumes inv: "feeds_inv d" and j: "get_job d (jb_id j) = Some j" "jb_status j = JobStatus_applying" and idle: "post_commit d = []"
    and out: "outcome = FeedSync_success \<or> outcome = FeedSync_partial"
  shows "wp (feed_succeed now j (Some outcome))
      (\<lambda>_ d'. feed_ended (jb_id j) (fold cb (post_commit d') (d'\<lparr>post_commit := []\<rparr>))) (\<lambda>_ _. False) d"
    "wp (feed_fail now j e)
      (\<lambda>_ d'. feed_ended (jb_id j) (fold cb (post_commit d') (d'\<lparr>post_commit := []\<rparr>))) (\<lambda>_ _. False) d"
proof -
  show "wp (feed_succeed now j (Some outcome))
      (\<lambda>_ d'. feed_ended (jb_id j) (fold cb (post_commit d') (d'\<lparr>post_commit := []\<rparr>))) (\<lambda>_ _. False) d"
    using wp_conj [OF keepsD [OF feeds_feed_succeed inv] wp_feed_completion(1) [OF inv j out, of now]]
    by (rule wp_mono) (use idle in \<open>auto simp: feed_ended_def job_final_def get_job_def\<close>)
  show "wp (feed_fail now j e)
      (\<lambda>_ d'. feed_ended (jb_id j) (fold cb (post_commit d') (d'\<lparr>post_commit := []\<rparr>))) (\<lambda>_ _. False) d"
    using wp_conj [OF keepsD [OF feeds_feed_fail inv] wp_feed_completion(2) [OF inv j out, of now]]
    by (rule wp_mono) (use idle in \<open>auto simp: feed_ended_def job_final_def get_job_def\<close>)
qed

lemma wp_finish_feed:
  assumes "feed_running k db" "outcome = FeedSync_success \<or> outcome = FeedSync_partial"
  shows "wp (finish_feed cb now k outcome v) (\<lambda>_. feed_ended k) (\<lambda>_ _. False) db"
proof -
  obtain j where j: "feeds_inv db" "get_job db k = Some j" "jb_status j = JobStatus_applying" "jb_id j = k"
    using assms(1) by (rule feed_running_row)
  let ?d = "db\<lparr>post_commit := []\<rparr>"
  have d: "get_job ?d k = Some j" using j(2) by (simp add: get_job_def)
  have "feeds_inv (set_run i (\<lambda>r. r\<lparr>fr_node_map_version := Some x\<rparr>) ?d)" for i x
    using j(1) by (simp add: feeds_inv_set_run run_view_def)
  then have "wp (feed_succeed now j (Some outcome))
      (\<lambda>_ d'. feed_ended k (fold cb (post_commit d') (d'\<lparr>post_commit := []\<rparr>))) (\<lambda>_ _. False)
      (set_run i (\<lambda>r. r\<lparr>fr_node_map_version := Some x\<rparr>) ?d)" for i x
    using wp_completion_commit(1) [OF _ _ j(3) _ assms(2), unfolded j(4)] d by (simp add: post_commit_sets)
  moreover have "wp (feed_succeed now j (Some outcome))
      (\<lambda>_ d'. feed_ended k (fold cb (post_commit d') (d'\<lparr>post_commit := []\<rparr>))) (\<lambda>_ _. False) ?d"
    using wp_completion_commit(1) [OF _ _ j(3) _ assms(2), unfolded j(4)] d j(1) by simp
  ultimately show ?thesis
    using d by (simp add: finish_feed_def wp_session_scope wp_simps split: option.splits)
qed

lemma wp_fail_feed:
  assumes "feed_running k db"
  shows "wp (fail_feed cb describe now k e) (\<lambda>_. feed_ended k) (\<lambda>_ _. False) db"
proof -
  obtain j where j: "feeds_inv db" "get_job db k = Some j" "jb_status j = JobStatus_applying" "jb_id j = k"
    using assms(1) by (rule feed_running_row)
  let ?d = "db\<lparr>post_commit := []\<rparr>"
  have d: "feeds_inv ?d" "get_job ?d k = Some j" "post_commit ?d = []" using j(1,2) by (simp_all add: get_job_def)
  show ?thesis
    using wp_completion_commit(2) [of ?d j FeedSync_success now "describe e" cb] d j(3,4)
    by (simp add: fail_feed_def wp_session_scope wp_simps)
qed

text \<open>What else goes on in the system leaves the job to the worker that has claimed it.\<close>

definition undisturbed :: "uuid \<Rightarrow> feed_world \<Rightarrow> (nat \<Rightarrow> db \<Rightarrow> db) \<Rightarrow> bool" where
  "undisturbed k w concurrent \<longleftrightarrow> (\<forall>d. feed_running k d \<longrightarrow>
     (\<forall>n. feed_running k (concurrent n d)) \<and> (\<forall>i. feed_running k (fw_cb w i d)))"

lemma undisturbedD:
  assumes "undisturbed k w concurrent"
  shows "feed_running k d \<Longrightarrow> feed_running k (concurrent n d)" "feed_running k d \<Longrightarrow> feed_running k (fw_cb w i d)"
  using assms unfolding undisturbed_def by blast+

lemma keeps_runner_reconcile:
  assumes "undisturbed k w concurrent"
  shows "keeps (feed_running k) (runner_reconcile sha256 collated entry_id (fw_cb w) now i parsed)"
  unfolding runner_reconcile_def
  by (intro keeps_session_scope inv_intros feed_running_reconcile)
    (auto simp: feed_running_set_run run_view_def undisturbedD [OF assms])

lemma keeps_converge:
  assumes "undisturbed k w concurrent"
  shows "keeps (feed_running k) (converge_desired_revision sha256 (fw_cb w) describe node (concurrent n) expected)"
proof (cases expected)
  case None
  then show ?thesis by (simp add: converge_desired_revision_def keeps_ret)
next
  case (Some r)
  have load: "keeps (feed_running k) (session_scope (fw_cb w) (load_pending_snapshot sha256 r))"
    unfolding load_pending_snapshot_def load_global_snapshot_def locked_global_state_def
    by (intro keeps_session_scope inv_intros) (auto simp: undisturbedD [OF assms] split: option.splits)
  have marks: "keeps (feed_running k) (session_scope (fw_cb w) (mark_global_apply_failed describe s e))"
      "keeps (feed_running k) (session_scope (fw_cb w) (mark_global_active s x))" for s e x
    unfolding mark_global_apply_failed_def mark_global_active_def
    by (intro keeps_session_scope inv_intros; auto simp: undisturbedD [OF assms])+
  show ?thesis
    unfolding converge_desired_revision_def Some option.case
    by (intro inv_intros load marks keeps_case_sum) (auto simp: undisturbedD [OF assms])
qed


lemma wp_carry_out:
  assumes und: "undisturbed k w concurrent" and busy: "feed_running k db" and k: "jb_id (fc_job completion) = k"
  shows "wp (carry_out w concurrent completion) (\<lambda>_. feed_ended k) (\<lambda>_. feed_running k) db"
proof -
  have stats: "wp (store_failed_parse_stats (fw_cb w) i parsed) (\<lambda>_. feed_running k) (\<lambda>_. feed_running k) db" for i parsed
  proof (rule keepsD [where I = "feed_running k"])
    show "keeps (feed_running k) (store_failed_parse_stats (fw_cb w) i parsed)"
      unfolding store_failed_parse_stats_def
      by (intro keeps_session_scope inv_intros) (auto simp: feed_running_set_run run_view_def undisturbedD [OF und])
  qed (fact busy)
  have finish: "wp (finish_feed (fw_cb w) now k (if partial then FeedSync_partial else FeedSync_success) v) (\<lambda>_. feed_ended k)
      (\<lambda>_. feed_running k) d" if "feed_running k d" for now partial v d
    by (rule wp_mono [OF wp_finish_feed [OF that]]) auto
  have after: "wp (converge_desired_revision (fw_sha256 w) (fw_cb w) (fw_describe w) (fw_node w) (concurrent 1) rev)
      (\<lambda>x d. wp (finish_feed (fw_cb w) (fw_now w) k (if partial then FeedSync_partial else FeedSync_success)
         (map_option ga_node_map_version x)) (\<lambda>_. feed_ended k) (\<lambda>_. feed_running k) (concurrent 2 d)) (\<lambda>_. feed_running k) d"
    if "feed_running k d" for d rev partial
    by (rule wp_mono [OF keepsD [OF keeps_converge [OF und] that]])
      (rule finish [OF undisturbedD(1) [OF und]], assumption+)
  have rec: "wp (runner_reconcile (fw_sha256 w) (fw_collated w) (fw_entry_id w) (fw_cb w) (fw_now w) i parsed)
     (\<lambda>x d. wp (converge_desired_revision (fw_sha256 w) (fw_cb w) (fw_describe w) (fw_node w) (concurrent 1) (snd x))
      (\<lambda>y d. wp (finish_feed (fw_cb w) (fw_now w) k (if partial then FeedSync_partial else FeedSync_success)
         (map_option ga_node_map_version y)) (\<lambda>_. feed_ended k) (\<lambda>_. feed_running k) (concurrent 2 d)) (\<lambda>_. feed_running k)
      (concurrent 0 d)) (\<lambda>_. feed_running k) db" for i parsed partial
    by (rule wp_mono [OF keepsD [OF keeps_runner_reconcile [OF und] busy]])
      (rule after [OF undisturbedD(1) [OF und]], assumption+)
  show ?thesis
    unfolding carry_out_def Let_def
    using stats rec [where partial = True, unfolded if_True] rec [where partial = False, unfolded if_False] busy k
    by (simp add: wp_simps wp_fun case_prod_beta del: One_nat_def split: option.split)
qed

section \<open>From the download to the node\<close>

lemma reconcile_registers_nothing:
  "keeps (\<lambda>d. post_commit d = xs) (reconcile sha256 collated entry_id now run parsed)"
  unfolding reconcile_def locked_source_def locked_global_state_def reconcile_dry_def reconcile_wet_def enforce_capacity_def
    upsert_feed_entries_def replace_source_assertions_def delete_orphaned_feed_entries_def materialize_locked_def
    persist_overlaps_def record_overlap_summary_def record_event_def store_run_stats_def
  by (intro inv_intros) (auto simp: set_run_def split: option.splits)

lemma reconciled_post_commit [simp]:
  "reconciled sha256 s ns db (d\<lparr>post_commit := xs\<rparr>) = reconciled sha256 s ns db d"
  "reconciled sha256 s ns (d\<lparr>post_commit := xs\<rparr>) db = reconciled sha256 s ns d db"
  by (rule reconciled_cong; simp) (simp add: reconciled_def synced_feed_def feed_nets_def prospective_nets_def)

lemma wp_runner_reconcile:
  assumes ok: "deny_tables_ok db" and run: "get_run db i = Some run" and live: "feed_live db run" "\<not> fr_dry_run run"
    and parsed: "parsed_as parsed ns" and room: "\<And>e. \<not> sync_refused entry_id (fr_feed_source_id run) ns db e"
  shows "wp (runner_reconcile sha256 collated entry_id cb now i parsed)
    (\<lambda>(res, rev) d. reconciled sha256 (fr_feed_source_id run) ns db d \<and> post_commit d = [] \<and>
       (\<exists>st. global_deny_row d = Some st \<and> rev = (if state_needs_apply st then Some (gd_desired_revision st) else None)))
    (\<lambda>_ _. False) db"
proof -
  let ?f = "\<lambda>r. r\<lparr>fr_fetched_lines := int (pr_physical_line_count parsed)\<rparr>"
  let ?d = "set_run i ?f (db\<lparr>post_commit := []\<rparr>)"
  have d: "deny_tables_ok ?d" "feed_live ?d (?f run)" "\<not> fr_dry_run (?f run)" "fr_feed_source_id (?f run) = fr_feed_source_id run"
      "post_commit ?d = []"
    using ok live by (simp_all add: deny_tables_ok_def feed_live_def get_source_def set_run_def)
  have refused: "sync_refused entry_id s ns ?d e = sync_refused entry_id s ns db e" for s e
    by (simp add: sync_refused_def prospective_nets_def set_run_def)
  have rec: "reconciled sha256 s ns ?d x = reconciled sha256 s ns db x" for s x
    by (simp add: reconciled_def synced_feed_def feed_nets_def prospective_nets_def set_run_def)
  have "wp (reconcile sha256 collated entry_id now (?f run) parsed)
      (\<lambda>r x. \<not> rr_noop r \<and> reconciled sha256 (fr_feed_source_id run) ns db x \<and> post_commit x = [] \<and> (\<exists>st. global_deny_row x = Some st))
      (\<lambda>_ _. False) ?d"
    by (rule wp_mono [OF wp_conj [OF wp_reconcile [OF d(1) parsed d(2,3), of sha256 collated entry_id now]
          keepsD [OF reconcile_registers_nothing d(5), of sha256 collated entry_id now "?f run" parsed]]])
      (use room in \<open>auto simp: d(4) rec refused\<close>)
  then show ?thesis
    using run live(2)
    by (simp add: runner_reconcile_def wp_session_scope wp_simps get_run_def [of "db\<lparr>post_commit := []\<rparr>"] get_run_def [of db, symmetric])
      (erule wp_mono; auto simp: wp_simps)
qed


definition deny_view :: "db \<Rightarrow> blacklist_entry list \<times> feed_blacklist_assertion list \<times> global_deny_state option" where
  "deny_view db = (blacklist_entries db, feed_blacklist_assertions db, global_deny_row db)"

definition job_succeeded :: "uuid \<Rightarrow> db \<Rightarrow> bool" where
  "job_succeeded k db = (case get_job db k of None \<Rightarrow> False | Some j \<Rightarrow> jb_status j = JobStatus_succeeded)"

lemma deny_view_sets:
  "deny_view (set_job k g db) = deny_view db" "deny_view (set_run i f db) = deny_view db"
  "deny_view (set_source s h db) = deny_view db" "deny_view (db\<lparr>post_commit := xs\<rparr>) = deny_view db"
  by (simp_all add: deny_view_def set_job_def set_run_def set_source_def)

lemma wp_feed_succeed_result:
  assumes inv: "feeds_inv db" and j: "get_job db (jb_id job) = Some j" "jb_status j = JobStatus_applying"
    and out: "outcome = FeedSync_success \<or> outcome = FeedSync_partial"
  shows "wp (feed_succeed now job (Some outcome))
      (\<lambda>_ db'. job_succeeded (jb_id job) db' \<and> post_commit db' = post_commit db \<and> deny_view db' = deny_view db) (\<lambda>_ _. False) db"
proof -
  have k: "jb_id j = jb_id job" using get_job_id [OF j(1)] .
  have running: "locked_run db (jb_feed_sync_run_id j) = Some r \<Longrightarrow> fr_status r = FeedSync_running" for r
    using feed_running_run [OF inv j] .
  show ?thesis
    using out j k running
    by (auto simp: feed_succeed_def finish_noop_def is_terminal_def wp_simps Let_def job_succeeded_def read_after_write feed_moves
        post_commit_sets deny_view_sets split: option.splits)
qed

lemma wp_finish_feed_result:
  assumes "feed_running k db" "outcome = FeedSync_success \<or> outcome = FeedSync_partial"
  shows "wp (finish_feed cb now k outcome v) (\<lambda>_ d. job_succeeded k d \<and> deny_view d = deny_view db) (\<lambda>_ _. False) db"
proof -
  obtain j where j: "feeds_inv db" "get_job db k = Some j" "jb_status j = JobStatus_applying" "jb_id j = k"
    using assms(1) by (rule feed_running_row)
  have step: "wp (feed_succeed now j (Some outcome))
      (\<lambda>_ d'. job_succeeded k (fold cb (post_commit d') (d'\<lparr>post_commit := []\<rparr>)) \<and>
         deny_view (fold cb (post_commit d') (d'\<lparr>post_commit := []\<rparr>)) = deny_view db) (\<lambda>_ _. False) d"
    if "feeds_inv d" "get_job d k = Some j" "post_commit d = []" "deny_view d = deny_view db" for d
  proof -
    have g: "get_job d (jb_id j) = Some j" using that(2) j(4) by simp
    show ?thesis
      by (rule wp_mono [OF wp_feed_succeed_result [OF that(1) g j(3) assms(2)]])
        (use that j(4) in \<open>auto simp: deny_view_sets job_succeeded_def get_job_def\<close>)
  qed
  let ?d = "db\<lparr>post_commit := []\<rparr>"
  have d: "get_job ?d k = Some j" using j(2) by (simp add: get_job_def)
  have inv: "feeds_inv (set_run i (\<lambda>r. r\<lparr>fr_node_map_version := Some x\<rparr>) ?d)" for i x
    using j(1) by (simp add: feeds_inv_set_run run_view_def)
  show ?thesis
    using d step [of ?d] step [OF inv] j(1)
    by (simp add: finish_feed_def wp_session_scope wp_simps deny_view_sets post_commit_sets split: option.splits)
qed


text \<open>A feed in force on the node: the list that is active there is the current one.\<close>

definition deny_in_force :: "(ustr \<Rightarrow> string) \<Rightarrow> db \<Rightarrow> bool" where
  "deny_in_force sha256 db = (case global_deny_row db of None \<Rightarrow> False
     | Some st \<Rightarrow> \<not> state_needs_apply st \<and> gd_active_digest st = Some (digest sha256 (global_cidrs db)))"

lemma deny_in_force_view:
  "deny_view d = deny_view db \<Longrightarrow> deny_in_force sha256 d = deny_in_force sha256 db"
  "deny_view d = deny_view db \<Longrightarrow> feed_nets d = feed_nets db"
  using global_cidrs_cong [of d db] by (auto simp: deny_view_def deny_in_force_def feed_nets_def split: option.splits)

lemma wp_converge_in_force:
  assumes synced: "deny_synced sha256 db" and st: "global_deny_row db = Some st" and busy: "feed_running k db"
    and node: "\<And>snapshot. \<exists>result. node snapshot = Inr result"
  shows "wp (converge_desired_revision sha256 cb describe node (\<lambda>d. d)
      (if state_needs_apply st then Some (gd_desired_revision st) else None))
    (\<lambda>_ d. deny_in_force sha256 d \<and> feed_nets d = feed_nets db \<and> feed_running k d) (\<lambda>_ _. False) db"
proof (cases "state_needs_apply st")
  case False
  have "deny_in_force sha256 db"
    using False synced st by (auto simp: deny_in_force_def deny_synced_def state_needs_apply_def)
  then show ?thesis using False busy by (simp add: converge_desired_revision_def wp_simps)
next
  case True
  obtain result where "node \<lparr> sn_revision = gd_desired_revision st, sn_digest = digest sha256 (global_cidrs db),
           sn_cidrs = global_cidrs db \<rparr> = Inr result"
    using node by blast
  from converge_activates [OF synced st True, where apply_global = node, OF this, of cb describe]
  obtain st' where st': "converge_desired_revision sha256 cb describe node (\<lambda>db. db) (Some (gd_desired_revision st)) db =
      (Inr (Some result), db\<lparr>post_commit := [], global_deny_row := Some st'\<rparr>)" "\<not> state_needs_apply st'"
      "gd_desired_digest st' = gd_desired_digest st"
    by auto
  have "global_cidrs (db\<lparr>post_commit := [], global_deny_row := Some st'\<rparr>) = global_cidrs db"
    by (rule global_cidrs_cong) simp
  then show ?thesis
    using True st' synced st busy
    by (auto simp: wp_def deny_in_force_def deny_synced_def state_needs_apply_def feed_nets_def)
qed


lemma wp_carry_out_result:
  assumes und: "undisturbed k w (\<lambda>_ d. d)" and busy: "feed_running k db" and k: "jb_id (fc_job c) = k"
    and fetched: "fc_error c = None" "fc_body c = Some body" "pr_outcome (parse_line_list body) \<noteq> ParseOutcome_failed"
      "parsed_as (parse_line_list body) ns"
    and run: "jb_feed_sync_run_id (fc_job c) = Some i" "get_run db i = Some run" "feed_live db run" "\<not> fr_dry_run run"
    and room: "deny_tables_ok db" "\<forall>e. \<not> sync_refused (fw_entry_id w) (fr_feed_source_id run) ns db e"
    and node: "\<forall>snapshot. \<exists>result. fw_node w snapshot = Inr result"
  shows "wp (carry_out w (\<lambda>_ d. d) c) (\<lambda>_ d. job_succeeded k d \<and> deny_in_force (fw_sha256 w) d \<and>
      feed_nets d = (feed_nets db)(fr_feed_source_id run := set ns)) (\<lambda>_ _. False) db"
proof -
  let ?out = "if pr_outcome (parse_line_list body) = ParseOutcome_partial then FeedSync_partial else FeedSync_success"
  let ?goal = "\<lambda>d. job_succeeded k d \<and> deny_in_force (fw_sha256 w) d \<and>
      feed_nets d = (feed_nets db)(fr_feed_source_id run := set ns)"
  have finish: "wp (finish_feed (fw_cb w) (fw_now w) k ?out v) (\<lambda>_. ?goal) (\<lambda>_ _. False) d"
    if "feed_running k d" "deny_in_force (fw_sha256 w) d" "feed_nets d = (feed_nets db)(fr_feed_source_id run := set ns)" for v d
  proof (rule wp_mono [OF wp_finish_feed_result [OF that(1)]], goal_cases)
    case (2 x d')
    then have v: "deny_view d' = deny_view d" by (rule conjunct2)
    show ?case using 2 that(2,3) unfolding deny_in_force_view [OF v] by simp
  qed simp_all
  have converge: "wp (converge_desired_revision (fw_sha256 w) (fw_cb w) (fw_describe w) (fw_node w) (\<lambda>d. d) rev)
      (\<lambda>x. wp (finish_feed (fw_cb w) (fw_now w) k ?out (map_option ga_node_map_version x)) (\<lambda>_. ?goal) (\<lambda>_ _. False))
      (\<lambda>_ _. False) d"
    if "feed_running k d" "reconciled (fw_sha256 w) (fr_feed_source_id run) ns db d" "global_deny_row d = Some st"
      "rev = (if state_needs_apply st then Some (gd_desired_revision st) else None)" for d st rev
  proof -
    have "deny_synced (fw_sha256 w) d" "feed_nets d = (feed_nets db)(fr_feed_source_id run := set ns)"
      using that(2) by (simp_all add: reconciled_def synced_feed_def)
    note s = this
    have n: "\<And>snapshot. \<exists>result. fw_node w snapshot = Inr result" using node by blast
    show ?thesis
      unfolding that(4)
    proof (rule wp_mono [OF wp_converge_in_force [OF s(1) that(3,1), of "fw_node w" "fw_cb w" "fw_describe w", OF n]], goal_cases)
      case (1 x d')
      then show ?case using s(2) by (intro finish) simp_all
    qed
  qed
  have "wp (runner_reconcile (fw_sha256 w) (fw_collated w) (fw_entry_id w) (fw_cb w) (fw_now w) i (parse_line_list body))
      (\<lambda>x. wp (converge_desired_revision (fw_sha256 w) (fw_cb w) (fw_describe w) (fw_node w) (\<lambda>d. d) (snd x))
        (\<lambda>y. wp (finish_feed (fw_cb w) (fw_now w) k ?out (map_option ga_node_map_version y)) (\<lambda>_. ?goal) (\<lambda>_ _. False))
        (\<lambda>_ _. False)) (\<lambda>_ _. False) db"
  proof (rule wp_mono [OF wp_conj [OF wp_runner_reconcile [OF room(1) run(2-4) fetched(4)]
          keepsD [OF keeps_runner_reconcile [OF und] busy]]], goal_cases)
    case (1 e)
    then show ?case using room(2) by blast
  next
    case (2 x d)
    then obtain st where "global_deny_row d = Some st" "reconciled (fw_sha256 w) (fr_feed_source_id run) ns db d"
        "feed_running k d" "snd x = (if state_needs_apply st then Some (gd_desired_revision st) else None)"
      by (auto simp: case_prod_beta simp del: if_split)
    then show ?case by (intro converge)
  qed simp
  then show ?thesis
    using fetched run(1) k by (simp add: carry_out_def wp_simps wp_fun case_prod_beta)
qed


section \<open>Properties\<close>

definition sample_world :: feed_world where
  "sample_world = \<lparr> fw_sha256 = map char_of, fw_collated = (\<lambda>xs. xs), fw_entry_id = (\<lambda>_. 91), fw_cb = (\<lambda>_ d. d),
     fw_describe = (\<lambda>_. ''error''), fw_node = (\<lambda>_. Inr \<lparr> ga_active_slot = 1, ga_node_map_version = 7 \<rparr>), fw_now = 9 \<rparr>"

definition sample_completion :: FeedFetchCompletion where
  "sample_completion = \<lparr> fc_job = sample_feed_job, fc_source_id = 60,
     fc_body = Some (feed_bytes [(Net 134217728 8, [])]), fc_error = None \<rparr>"

lemma sample_completion_job: "jb_id (fc_job sample_completion) = 41" "jb_feed_sync_run_id (fc_job sample_completion) = Some 80"
  by (simp_all add: sample_completion_def sample_feed_job_def new_feed_job_def sample_run_def)

lemma sample_undisturbed: "undisturbed 41 sample_world (\<lambda>_ d. d)"
  by (simp add: undisturbed_def sample_world_def)

lemma sample_running: "feed_running 41 sample_feeds"
  using sample_feeds_ok(1)
  by (simp add: feed_running_def sample_feeds_rows sample_feed_job_def new_feed_job_def is_feed_job_def)

text \<open>
  C13 A claimed feed job always ends.  Whatever the download, the body of the
  feed and the node answer, and whatever other sessions commit meanwhile as long
  as they leave the job to its worker, completing the fetch returns, the job is
  succeeded or failed, and the ledger of feed runs is consistent: no feed is
  stuck behind a run that never finishes.
\<close>

theorem feed_job_always_ends:
  assumes "undisturbed (jb_id (fc_job completion)) w concurrent" "feed_running (jb_id (fc_job completion)) db"
  shows "\<exists>db'. complete_feed_fetch w concurrent completion db = (Inr (), db') \<and>
    feed_ended (jb_id (fc_job completion)) db'"
proof -
  let ?k = "jb_id (fc_job completion)"
  have "wp (complete_feed_fetch w concurrent completion) (\<lambda>_. feed_ended ?k) (\<lambda>_ _. False) db"
    unfolding complete_feed_fetch_def wp_catch
    by (rule wp_mono [OF wp_carry_out [OF assms refl]])
      (simp_all add: wp_simps wp_fail_feed undisturbedD(1) [OF assms(1)])
  then show ?thesis by (auto simp: wp_def split: prod.splits sum.splits)
qed

theorem feed_job_always_ends_witness:
  "\<exists>db'. complete_feed_fetch sample_world (\<lambda>_ d. d) sample_completion sample_feeds = (Inr (), db') \<and> feed_ended 41 db'"
  using feed_job_always_ends [of sample_completion sample_world "\<lambda>_ d. d" sample_feeds] sample_undisturbed sample_running
  by (simp add: sample_completion_job)

text \<open>
  C14 A download reaches the node.  When the feed's server answers with a body
  that holds a network, there is room in the list and the node accepts it, then
  after completing the fetch with nothing else going on the job has succeeded, the feed
  asserts exactly the networks of the body, other feeds are as before, and the list
  in force on the node is the current one.
\<close>

theorem feed_download_reaches_node:
  assumes "undisturbed (jb_id (fc_job c)) w (\<lambda>_ d. d)" "feed_running (jb_id (fc_job c)) db"
    and "fc_error c = None" "fc_body c = Some body" "pr_outcome (parse_line_list body) \<noteq> ParseOutcome_failed"
      "parsed_as (parse_line_list body) ns"
    and "jb_feed_sync_run_id (fc_job c) = Some i" "get_run db i = Some run" "feed_live db run" "\<not> fr_dry_run run"
    and "deny_tables_ok db" "\<forall>e. \<not> sync_refused (fw_entry_id w) (fr_feed_source_id run) ns db e"
    and "\<forall>snapshot. \<exists>result. fw_node w snapshot = Inr result"
  shows "\<exists>db'. complete_feed_fetch w (\<lambda>_ d. d) c db = (Inr (), db') \<and> job_succeeded (jb_id (fc_job c)) db' \<and>
    feed_nets db' = (feed_nets db)(fr_feed_source_id run := set ns) \<and> deny_in_force (fw_sha256 w) db'"
proof -
  have "wp (complete_feed_fetch w (\<lambda>_ d. d) c) (\<lambda>_ d. job_succeeded (jb_id (fc_job c)) d \<and> deny_in_force (fw_sha256 w) d \<and>
      feed_nets d = (feed_nets db)(fr_feed_source_id run := set ns)) (\<lambda>_ _. False) db"
    unfolding complete_feed_fetch_def wp_catch
    by (rule wp_mono [OF wp_carry_out_result [OF assms(1,2) refl assms(3-13)]]) simp_all
  then show ?thesis by (auto simp: wp_def split: prod.splits sum.splits)
qed

theorem feed_download_reaches_node_witness:
  "\<exists>db'. complete_feed_fetch sample_world (\<lambda>_ d. d) sample_completion sample_feeds = (Inr (), db') \<and>
     job_succeeded 41 db' \<and> feed_nets db' 60 = {Net 134217728 8} \<and> deny_in_force (map char_of) db'"
proof -
  have v: "valid_net (Net 134217728 8)" by (simp add: valid_net_def net_size_def)
  have p: "pr_outcome (parse_line_list (feed_bytes [(Net 134217728 8, [])])) \<noteq> ParseOutcome_failed"
      "parsed_as (parse_line_list (feed_bytes [(Net 134217728 8, [])])) [Net 134217728 8]"
    using feed_print_parse [of "[(Net 134217728 8, [])]"] v by (simp_all add: printable_def parsed_as_def firsts_def)
  have live: "feed_live sample_feeds (sample_run False)"
    by (simp add: feed_live_def sample_run_def sample_feeds_rows sample_feed_def)
  have room: "\<forall>e. \<not> sync_refused (fw_entry_id sample_world) (fr_feed_source_id (sample_run False)) [Net 134217728 8] sample_feeds e"
    by (simp add: sync_refused_def prospective_nets_def sample_deny_def is_global_def MAX_GLOBAL_DENY_ENTRIES_def
        sample_world_def sample_run_def)
  show ?thesis
    using feed_download_reaches_node [of sample_completion sample_world sample_feeds _ "[Net 134217728 8]" 80 "sample_run False",
        OF _ _ _ _ p] sample_undisturbed sample_running sample_feeds_ok(2) room live
    by (auto simp: sample_completion_job sample_completion_def [THEN arg_cong, of fc_error]
        sample_completion_def [THEN arg_cong, of fc_body] sample_feeds_rows sample_run_def sample_world_def)
qed

end
