(* ===== verification/Sessions.thy ===== *)
theory Sessions
  imports Models "HOL-Library.Char_ord" "HOL-Library.List_Lexorder"
begin

text \<open>
  The session store, \<open>app/core/sessions.py\<close>, on the part of Redis it uses:
  string values with an expiry time, and sets.  The value of a session is the
  document \<open>_dump\<close> builds; a key whose time has passed is no longer there.
  The session identifier that \<open>new_session_id\<close> draws and the time of the clock
  are arguments.
\<close>

section \<open>Redis\<close>

record redis =
  rd_values :: "string \<Rightarrow> (json \<times> timestamp) option"
  rd_members :: "uuid \<Rightarrow> string list"

type_synonym 'a redisprog = "(redis, exc, 'a) prog"

definition empty_redis :: redis where
  "empty_redis = \<lparr> rd_values = (\<lambda>_. None), rd_members = (\<lambda>_. []) \<rparr>"

text \<open>
  The commands on the keys \<open>session:<sid>\<close> and \<open>user_sessions:<user>\<close>.
  \<open>SET\<close> with an expiry that is not positive is an error of Redis.
\<close>

definition redis_get :: "timestamp \<Rightarrow> redis \<Rightarrow> string \<Rightarrow> json option" where
  "redis_get now r sid =
     (case rd_values r sid of
        None \<Rightarrow> None
      | Some (raw, deadline) \<Rightarrow> if now < deadline then Some raw else None)"

definition redis_set :: "timestamp \<Rightarrow> int \<Rightarrow> string \<Rightarrow> json \<Rightarrow> unit redisprog" where
  "redis_set now ex sid raw =
     andThen (ensure (0 < ex) RedisError) (\<lambda>_.
     modify (\<lambda>r. r\<lparr>rd_values := (rd_values r)(sid \<mapsto> (raw, now + ex * 1000000))\<rparr>))"

definition redis_delete :: "string \<Rightarrow> redis \<Rightarrow> redis" where
  "redis_delete sid r = r\<lparr>rd_values := (rd_values r)(sid := None)\<rparr>"

definition redis_sadd :: "uuid \<Rightarrow> string \<Rightarrow> redis \<Rightarrow> redis" where
  "redis_sadd user_id sid r =
     r\<lparr>rd_members := (rd_members r)(user_id := List.insert sid (rd_members r user_id))\<rparr>"

definition redis_srem :: "uuid \<Rightarrow> string \<Rightarrow> redis \<Rightarrow> redis" where
  "redis_srem user_id sid r =
     r\<lparr>rd_members := (rd_members r)(user_id := removeAll sid (rd_members r user_id))\<rparr>"

definition redis_drop_set :: "uuid \<Rightarrow> redis \<Rightarrow> redis" where
  "redis_drop_set user_id r = r\<lparr>rd_members := (rd_members r)(user_id := [])\<rparr>"

section \<open>Sessions\<close>

record SessionData =
  sd_sid :: string
  sd_user_id :: uuid
  sd_session_version :: int
  sd_created_at :: timestamp
  sd_absolute_expiry :: timestamp
  sd_last_seen :: timestamp
  sd_ip :: "string option"

text \<open>The two periods of the settings, in seconds.\<close>

record session_settings =
  ss_idle_seconds :: int
  ss_absolute_seconds :: int

definition dump_session :: "SessionData \<Rightarrow> json" where
  "dump_session s = JObj
     [(''user_id'', JUuid (sd_user_id s)),
      (''session_version'', JInt (sd_session_version s)),
      (''created_at'', JInt (sd_created_at s)),
      (''absolute_expiry'', JInt (sd_absolute_expiry s)),
      (''last_seen'', JInt (sd_last_seen s)),
      (''ip'', case sd_ip s of None \<Rightarrow> JNull | Some a \<Rightarrow> JStr a)]"

text \<open>\<open>payload[key]\<close> with the conversion the field needs.\<close>

definition payload_field :: "json \<Rightarrow> string \<Rightarrow> exc + json" where
  "payload_field payload key =
     (case payload of
        JObj items \<Rightarrow> (case map_of items key of None \<Rightarrow> Inl (KeyError key) | Some v \<Rightarrow> Inr v)
      | _ \<Rightarrow> Inl TypeError)"

definition payload_uuid :: "json \<Rightarrow> string \<Rightarrow> exc + uuid" where
  "payload_uuid payload key =
     (case payload_field payload key of
        Inl e \<Rightarrow> Inl e
      | Inr (JUuid i) \<Rightarrow> Inr i
      | Inr _ \<Rightarrow> Inl (ValueError ''badly formed hexadecimal UUID string''))"

definition payload_int :: "json \<Rightarrow> string \<Rightarrow> exc + int" where
  "payload_int payload key =
     (case payload_field payload key of
        Inl e \<Rightarrow> Inl e | Inr (JInt n) \<Rightarrow> Inr n | Inr _ \<Rightarrow> Inl TypeError)"

definition payload_text :: "json \<Rightarrow> string \<Rightarrow> exc + string option" where
  "payload_text payload key =
     (case payload_field payload key of
        Inl e \<Rightarrow> Inl e | Inr (JStr t) \<Rightarrow> Inr (Some t) | Inr JNull \<Rightarrow> Inr None | Inr _ \<Rightarrow> Inl TypeError)"

definition load_session :: "string \<Rightarrow> json \<Rightarrow> exc + SessionData" where
  "load_session sid payload =
     (case payload_uuid payload ''user_id'' of Inl e \<Rightarrow> Inl e | Inr user_id \<Rightarrow>
     (case payload_int payload ''session_version'' of Inl e \<Rightarrow> Inl e | Inr session_version \<Rightarrow>
     (case payload_int payload ''created_at'' of Inl e \<Rightarrow> Inl e | Inr created_at \<Rightarrow>
     (case payload_int payload ''absolute_expiry'' of Inl e \<Rightarrow> Inl e | Inr absolute_expiry \<Rightarrow>
     (case payload_int payload ''last_seen'' of Inl e \<Rightarrow> Inl e | Inr last_seen \<Rightarrow>
     (case payload_text payload ''ip'' of Inl e \<Rightarrow> Inl e | Inr ip \<Rightarrow>
       Inr \<lparr> sd_sid = sid, sd_user_id = user_id, sd_session_version = session_version,
         sd_created_at = created_at, sd_absolute_expiry = absolute_expiry,
         sd_last_seen = last_seen, sd_ip = ip \<rparr>))))))"

definition read_session :: "timestamp \<Rightarrow> string \<Rightarrow> SessionData option redisprog" where
  "read_session now sid =
     andThen (gets (\<lambda>r. redis_get now r sid)) (\<lambda>raw.
     case raw of
       None \<Rightarrow> ret None
     | Some payload \<Rightarrow> andThen (of_result (load_session sid payload)) (\<lambda>s. ret (Some s)))"

definition is_absolute_expired :: "timestamp \<Rightarrow> SessionData \<Rightarrow> bool" where
  "is_absolute_expired now s \<longleftrightarrow> sd_absolute_expiry s \<le> now"

section \<open>Operations\<close>

definition create_session ::
  "session_settings \<Rightarrow> timestamp \<Rightarrow> string \<Rightarrow> uuid \<Rightarrow> int \<Rightarrow> string option \<Rightarrow> string redisprog" where
  "create_session cfg now sid user_id session_version ip =
     (let session = \<lparr> sd_sid = sid, sd_user_id = user_id, sd_session_version = session_version,
        sd_created_at = now, sd_absolute_expiry = now + ss_absolute_seconds cfg * 1000000,
        sd_last_seen = now, sd_ip = ip \<rparr> in
     andThen (redis_set now (ss_idle_seconds cfg) sid (dump_session session)) (\<lambda>_.
     andThen (modify (redis_sadd user_id sid)) (\<lambda>_.
     ret sid)))"

definition revoke_session :: "timestamp \<Rightarrow> string \<Rightarrow> unit redisprog" where
  "revoke_session now sid =
     andThen (read_session now sid) (\<lambda>session.
     andThen (modify (redis_delete sid)) (\<lambda>_.
     case session of None \<Rightarrow> ret () | Some s \<Rightarrow> modify (redis_srem (sd_user_id s) sid)))"

text \<open>
  \<open>get\<close> reads the session and then writes it back with a new \<open>last_seen\<close>.  The
  two halves are separate commands, between which other requests run.
\<close>

definition get_session_read :: "timestamp \<Rightarrow> string \<Rightarrow> SessionData option redisprog" where
  "get_session_read now sid =
     andThen (read_session now sid) (\<lambda>session.
     case session of
       None \<Rightarrow> ret None
     | Some s \<Rightarrow>
         if is_absolute_expired now s then andThen (revoke_session now sid) (\<lambda>_. ret None)
         else ret (Some s))"

definition refresh_session ::
  "session_settings \<Rightarrow> timestamp \<Rightarrow> SessionData \<Rightarrow> SessionData redisprog" where
  "refresh_session cfg now s =
     (let refreshed = s\<lparr>sd_last_seen := now\<rparr> in
     andThen (redis_set now (ss_idle_seconds cfg) (sd_sid s) (dump_session refreshed)) (\<lambda>_.
     ret refreshed))"

definition get_session ::
  "session_settings \<Rightarrow> timestamp \<Rightarrow> string \<Rightarrow> SessionData option redisprog" where
  "get_session cfg now sid =
     andThen (get_session_read now sid) (\<lambda>session.
     case session of
       None \<Rightarrow> ret None
     | Some s \<Rightarrow> andThen (refresh_session cfg now s) (\<lambda>refreshed. ret (Some refreshed)))"

definition revoke_all_sessions :: "uuid \<Rightarrow> unit redisprog" where
  "revoke_all_sessions user_id =
     andThen (gets (\<lambda>r. rd_members r user_id)) (\<lambda>sids.
     andThen (modify (fold redis_delete sids)) (\<lambda>_.
     modify (redis_drop_set user_id)))"

fun list_sessions :: "timestamp \<Rightarrow> string list \<Rightarrow> SessionData list redisprog" where
  "list_sessions now [] = ret []"
| "list_sessions now (sid # sids) =
     andThen (read_session now sid) (\<lambda>session.
     case session of
       None \<Rightarrow> andThen (revoke_session now sid) (\<lambda>_. list_sessions now sids)
     | Some s \<Rightarrow>
         if is_absolute_expired now s
         then andThen (revoke_session now sid) (\<lambda>_. list_sessions now sids)
         else andThen (list_sessions now sids) (\<lambda>rest. ret (s # rest)))"

definition list_for_user :: "timestamp \<Rightarrow> uuid \<Rightarrow> SessionData list redisprog" where
  "list_for_user now user_id =
     andThen (gets (\<lambda>r. sort (rd_members r user_id))) (\<lambda>sids. list_sessions now sids)"

definition set_session_version ::
  "session_settings \<Rightarrow> timestamp \<Rightarrow> string \<Rightarrow> int \<Rightarrow> bool redisprog" where
  "set_session_version cfg now sid session_version =
     andThen (read_session now sid) (\<lambda>session.
     if (case session of None \<Rightarrow> True | Some s \<Rightarrow> is_absolute_expired now s)
     then andThen (revoke_session now sid) (\<lambda>_. ret False)
     else
       let updated = (the session)\<lparr>sd_session_version := session_version, sd_last_seen := now\<rparr> in
       andThen (redis_set now (ss_idle_seconds cfg) sid (dump_session updated)) (\<lambda>_. ret True))"

section \<open>What a store holds\<close>

text \<open>Every value is a document of \<open>dump_session\<close>.\<close>

definition redis_ok :: "redis \<Rightarrow> bool" where
  "redis_ok r \<longleftrightarrow> (\<forall>sid raw deadline. rd_values r sid = Some (raw, deadline) \<longrightarrow>
     (\<exists>s. raw = dump_session s))"

text \<open>The owner of a session and the version it was issued for, whether or not it has expired.\<close>

definition ident :: "redis \<Rightarrow> string \<Rightarrow> (uuid \<times> int) option" where
  "ident r sid =
     (case rd_values r sid of
        None \<Rightarrow> None
      | Some (raw, _) \<Rightarrow>
          (case load_session sid raw of
             Inl _ \<Rightarrow> None | Inr s \<Rightarrow> Some (sd_user_id s, sd_session_version s)))"

definition live :: "timestamp \<Rightarrow> redis \<Rightarrow> string \<Rightarrow> SessionData option" where
  "live now r sid =
     (case redis_get now r sid of
        None \<Rightarrow> None
      | Some raw \<Rightarrow> (case load_session sid raw of Inl _ \<Rightarrow> None | Inr s \<Rightarrow> Some s))"

lemma load_dump: "load_session sid (dump_session s) = Inr (s\<lparr>sd_sid := sid\<rparr>)"
  by (cases "sd_ip s") (simp_all add: load_session_def dump_session_def payload_uuid_def payload_int_def
      payload_text_def payload_field_def)

lemma ident_dump [simp]:
  "rd_values r sid = Some (dump_session s, d) \<Longrightarrow> ident r sid = Some (sd_user_id s, sd_session_version s)"
  by (simp add: ident_def load_dump)

lemma load_sid: "load_session sid raw = Inr s \<Longrightarrow> sd_sid s = sid"
  by (auto simp: load_session_def split: sum.splits)

lemma live_sid: "live now r sid = Some s \<Longrightarrow> sd_sid s = sid"
  by (auto simp: live_def load_sid split: option.splits sum.splits)

lemma redis_get_dump:
  assumes "redis_ok r" "redis_get now r sid = Some raw"
  obtains s where "raw = dump_session s"
proof -
  obtain d where "rd_values r sid = Some (raw, d)"
    using assms(2) by (auto simp: redis_get_def split: option.splits if_splits)
  with assms(1) that show ?thesis unfolding redis_ok_def by blast
qed

lemma live_ident: "live now r sid = Some s \<Longrightarrow> ident r sid = Some (sd_user_id s, sd_session_version s)"
  by (auto simp: live_def redis_get_def ident_def split: option.splits sum.splits if_splits)

lemma wp_read_session:
  assumes "redis_ok r"
  shows "wp (read_session now sid) Q E r = Q (live now r sid) r"
proof (cases "redis_get now r sid")
  case None
  then show ?thesis by (simp add: read_session_def wp_simps live_def)
next
  case (Some raw)
  obtain s where "raw = dump_session s" by (rule redis_get_dump [OF assms Some])
  with Some show ?thesis by (simp add: read_session_def wp_simps live_def load_dump)
qed

lemma redis_ok_update [simp]:
  "redis_ok r \<Longrightarrow> redis_ok (redis_delete sid r)"
  "redis_ok (redis_srem u sid r) = redis_ok r"
  "redis_ok (redis_sadd u sid r) = redis_ok r"
  "redis_ok (redis_drop_set u r) = redis_ok r"
  "redis_ok r \<Longrightarrow> redis_ok (r\<lparr>rd_values := (rd_values r)(sid \<mapsto> (dump_session s, d))\<rparr>)"
  by (auto simp: redis_ok_def redis_delete_def redis_srem_def redis_sadd_def redis_drop_set_def)

lemma ident_update [simp]:
  "ident (redis_delete sid r) = (ident r)(sid := None)"
  "ident (redis_srem u sid r) = ident r"
  "ident (redis_sadd u sid r) = ident r"
  "ident (redis_drop_set u r) = ident r"
  "ident (r\<lparr>rd_values := (rd_values r)(sid \<mapsto> (dump_session s, d))\<rparr>)
     = (ident r)(sid \<mapsto> (sd_user_id s, sd_session_version s))"
  by (auto simp: ident_def redis_delete_def redis_srem_def redis_sadd_def redis_drop_set_def load_dump)

lemma fold_redis_delete:
  "redis_ok r \<Longrightarrow> redis_ok (fold redis_delete sids r)"
  "ident (fold redis_delete sids r) = (\<lambda>sid. if sid \<in> set sids then None else ident r sid)"
  by (induction sids arbitrary: r) (auto simp: fun_eq_iff)

section \<open>What the operations do to it\<close>

lemma wp_revoke_session:
  assumes "redis_ok r"
  shows "wp (revoke_session now sid) (\<lambda>_ r'. redis_ok r' \<and> ident r' = (ident r)(sid := None)) (\<lambda>_ _. False) r"
  using assms by (auto simp: revoke_session_def wp_simps wp_read_session split: option.splits)

lemma wp_create_session:
  assumes "redis_ok r" "0 < ss_idle_seconds cfg"
  shows "wp (create_session cfg now sid u v ip)
    (\<lambda>x r'. x = sid \<and> redis_ok r' \<and> ident r' = (ident r)(sid \<mapsto> (u, v))) (\<lambda>_ _. False) r"
  using assms by (simp add: create_session_def redis_set_def wp_simps)

lemma wp_get_session_read:
  assumes "redis_ok r"
  shows "wp (get_session_read now sid) (\<lambda>x r'. redis_ok r' \<and>
      (case x of
         None \<Rightarrow> ident r' = ident r \<or> ident r' = (ident r)(sid := None)
       | Some s \<Rightarrow> ident r' = ident r \<and> ident r sid = Some (sd_user_id s, sd_session_version s) \<and>
           sd_sid s = sid \<and> now < sd_absolute_expiry s)) (\<lambda>_ _. False) r"
proof (cases "live now r sid")
  case None
  with assms show ?thesis by (simp add: get_session_read_def wp_simps wp_read_session)
next
  case (Some s)
  have "wp (revoke_session now sid) (\<lambda>_ r'. redis_ok r' \<and> (ident r' = ident r \<or> ident r' = (ident r)(sid := None)))
      (\<lambda>_ _. False) r"
    by (rule wp_mono [OF wp_revoke_session [OF assms]]) auto
  with Some assms live_sid [OF Some] live_ident [OF Some] show ?thesis
    by (simp add: get_session_read_def wp_simps wp_read_session is_absolute_expired_def)
qed

lemma wp_refresh_session:
  assumes "redis_ok r" "0 < ss_idle_seconds cfg"
  shows "wp (refresh_session cfg now s)
    (\<lambda>x r'. x = s\<lparr>sd_last_seen := now\<rparr> \<and> redis_ok r' \<and>
       ident r' = (ident r)(sd_sid s \<mapsto> (sd_user_id s, sd_session_version s))) (\<lambda>_ _. False) r"
  using assms by (simp add: refresh_session_def redis_set_def wp_simps)

lemma wp_revoke_all_sessions:
  assumes "redis_ok r"
  shows "wp (revoke_all_sessions u) (\<lambda>_ r'. redis_ok r' \<and>
      ident r' = (\<lambda>sid. if sid \<in> set (rd_members r u) then None else ident r sid)) (\<lambda>_ _. False) r"
  using assms by (simp add: revoke_all_sessions_def wp_simps fold_redis_delete)

lemma wp_set_session_version:
  assumes "redis_ok r" "0 < ss_idle_seconds cfg"
  shows "wp (set_session_version cfg now sid v) (\<lambda>x r'. redis_ok r' \<and>
      (if x then (\<exists>u w. ident r sid = Some (u, w) \<and> ident r' = (ident r)(sid \<mapsto> (u, v)))
       else ident r' = (ident r)(sid := None))) (\<lambda>_ _. False) r"
proof (cases "live now r sid")
  case None
  with assms wp_revoke_session [OF assms(1), of now sid] show ?thesis
    by (simp add: set_session_version_def wp_simps wp_read_session)
next
  case (Some s)
  with assms live_ident [OF Some] wp_revoke_session [OF assms(1), of now sid] show ?thesis
    by (simp add: set_session_version_def wp_simps wp_read_session redis_set_def Let_def)
qed

text \<open>Two stores of which the second holds nothing the first does not.\<close>

definition fewer :: "redis \<Rightarrow> redis \<Rightarrow> bool" where
  "fewer r r' \<longleftrightarrow> redis_ok r' \<and> (\<forall>sid. ident r' sid = None \<or> ident r' sid = ident r sid)"

lemma fewer_refl: "redis_ok r \<Longrightarrow> fewer r r"
  by (simp add: fewer_def)

lemma fewer_trans: "fewer r r' \<Longrightarrow> fewer r' r'' \<Longrightarrow> fewer r r''"
  unfolding fewer_def by metis

lemma fewer_delete: "redis_ok r' \<Longrightarrow> ident r' = (ident r)(sid := None) \<Longrightarrow> fewer r r'"
  by (simp add: fewer_def)

lemma wp_list_sessions:
  assumes "redis_ok r"
  shows "wp (list_sessions now sids) (\<lambda>_ r'. fewer r r') (\<lambda>_ _. False) r"
  using assms
proof (induction sids arbitrary: r)
  case Nil
  then show ?case by (simp add: wp_simps fewer_refl)
next
  case (Cons sid sids)
  have later: "wp (list_sessions now sids) (\<lambda>_. fewer r) (\<lambda>_ _. False) r'"
    if "redis_ok r'" "ident r' = (ident r)(sid := None)" for r'
    by (rule wp_mono [OF Cons.IH [OF that(1)]]) (auto intro: fewer_trans [OF fewer_delete [OF that]])
  have revoked: "wp (revoke_session now sid) (\<lambda>_. wp (list_sessions now sids) (\<lambda>_. fewer r) (\<lambda>_ _. False))
      (\<lambda>_ _. False) r"
    by (rule wp_mono [OF wp_revoke_session [OF Cons.prems]]) (use later in auto)
  have kept: "wp (list_sessions now sids) (\<lambda>_. fewer r) (\<lambda>_ _. False) r"
    by (rule Cons.IH [OF Cons.prems])
  show ?case
    using revoked kept
    by (cases "live now r sid") (simp_all add: wp_simps wp_read_session [OF Cons.prems])
qed

lemma wp_list_for_user:
  "redis_ok r \<Longrightarrow> wp (list_for_user now u) (\<lambda>_ r'. fewer r r') (\<lambda>_ _. False) r"
  by (simp add: list_for_user_def wp_simps wp_list_sessions)

end
