(* ===== verification/Access.thy ===== *)
theory Access
  imports Sessions Services
begin

text \<open>
  Who may use the control plane: authentication of a request
  (\<open>app/core/deps.py\<close>, \<open>app/core/security.py\<close>), login and logout
  (\<open>app/services/auth.py\<close>), the administration of users
  (\<open>app/services/users.py\<close>) and the requests of the two routers that carry them.
  A request works on the database and on Redis; when it fails the database is
  rolled back and Redis is not.
\<close>

section \<open>The state of a request\<close>

record access =
  ac_db :: db
  ac_redis :: redis
  ac_inflight :: "SessionData list"
  ac_issued :: "string list"
  ac_user_ids :: "uuid list"

text \<open>
  The last three fields belong to the interleaving of requests further below:
  the sessions that requests under way have read, and every session and user
  identifier drawn so far.
\<close>

type_synonym 'a accprog = "(access, exc, 'a) prog"

definition on_db :: "'a dbprog \<Rightarrow> 'a accprog" where
  "on_db m st = (case m (ac_db st) of (x, d) \<Rightarrow> (x, st\<lparr>ac_db := d\<rparr>))"

definition on_redis :: "'a redisprog \<Rightarrow> 'a accprog" where
  "on_redis m st = (case m (ac_redis st) of (x, r) \<Rightarrow> (x, st\<lparr>ac_redis := r\<rparr>))"

text \<open>\<open>get_db\<close> around a request; none of these registers a callback.\<close>

definition request :: "'a accprog \<Rightarrow> 'a accprog" where
  "request m st =
     (case m st of
        (Inl e, st') \<Rightarrow> (Inl e, st'\<lparr>ac_db := ac_db st\<rparr>)
      | (Inr x, st') \<Rightarrow> (Inr x, st'))"

section \<open>Passwords\<close>

text \<open>
  The two functions of pwdlib are parameters: \<open>hash\<close>, and \<open>verify\<close> with
  \<open>None\<close> for its \<open>UnknownHashError\<close>.
\<close>

definition hash_password :: "(string \<Rightarrow> string) \<Rightarrow> string \<Rightarrow> string" where
  "hash_password hash plain = hash plain"

definition verify_password :: "(string \<Rightarrow> string \<Rightarrow> bool option) \<Rightarrow> string \<Rightarrow> string \<Rightarrow> bool" where
  "verify_password verify plain hashed =
     (case verify plain hashed of None \<Rightarrow> False | Some b \<Rightarrow> b)"

section \<open>Authentication and authorization\<close>

record Principal =
  pc_user_id :: uuid
  pc_username :: string
  pc_role :: Role
  pc_tenant_id :: "uuid option"
  pc_session_id :: string

definition unauthenticated :: exc where
  "unauthenticated = HTTPException 401 (JStr ''Not authenticated'')"

definition forbidden :: exc where
  "forbidden = HTTPException 403 (JStr ''Forbidden'')"

text \<open>\<open>user.tenant\<close>.\<close>

definition user_tenant :: "db \<Rightarrow> user \<Rightarrow> tenant option" where
  "user_tenant db u = Option.bind (us_tenant_id u) (get_tenant db)"

definition tenant_active :: "db \<Rightarrow> user \<Rightarrow> bool" where
  "tenant_active db u \<longleftrightarrow>
     (case user_tenant db u of None \<Rightarrow> False | Some t \<Rightarrow> tn_status t = TenantStatus_active)"

definition principal_of_session :: "string \<Rightarrow> SessionData \<Rightarrow> Principal dbprog" where
  "principal_of_session sid session =
     andThen (fetch (\<lambda>db. get_user db (sd_user_id session)) unauthenticated) (\<lambda>user.
     andThen (ensure (us_status user = UserStatus_active) unauthenticated) (\<lambda>_.
     andThen (ensure (us_session_version user = sd_session_version session) unauthenticated) (\<lambda>_.
     andThen (gets (\<lambda>db. tenant_active db user)) (\<lambda>active.
     andThen (ensure (us_role user = Role_tenant_user \<longrightarrow> us_tenant_id user \<noteq> None \<and> active)
       unauthenticated) (\<lambda>_.
     ret \<lparr> pc_user_id = us_id user, pc_username = us_username user, pc_role = us_role user,
       pc_tenant_id = us_tenant_id user, pc_session_id = sid \<rparr>)))))"

definition resolve_current_user :: "session_settings \<Rightarrow> timestamp \<Rightarrow> string \<Rightarrow> Principal accprog" where
  "resolve_current_user cfg now sid =
     andThen (on_redis (get_session cfg now sid)) (\<lambda>session.
     case session of
       None \<Rightarrow> raise unauthenticated
     | Some s \<Rightarrow> on_db (principal_of_session sid s))"

definition get_current_user ::
  "session_settings \<Rightarrow> timestamp \<Rightarrow> string option \<Rightarrow> Principal accprog" where
  "get_current_user cfg now cookie =
     (case cookie of None \<Rightarrow> raise unauthenticated | Some sid \<Rightarrow> resolve_current_user cfg now sid)"

definition require_admin :: "Principal \<Rightarrow> exc + Principal" where
  "require_admin p = (if pc_role p \<noteq> Role_admin then Inl forbidden else Inr p)"

definition authorize_tenant_resource :: "Principal \<Rightarrow> uuid option \<Rightarrow> exc + unit" where
  "authorize_tenant_resource p resource_tenant_id =
     (if pc_role p = Role_admin then Inr ()
      else if pc_tenant_id p = None \<or> resource_tenant_id = None then Inl forbidden
      else if pc_tenant_id p \<noteq> resource_tenant_id then Inl forbidden
      else Inr ())"

definition load_service_for_principal :: "db \<Rightarrow> uuid \<Rightarrow> Principal \<Rightarrow> exc + protected_service" where
  "load_service_for_principal db service_id p =
     (case get_service_row db service_id of
        None \<Rightarrow> Inl (HTTPException 404 (JStr ''Service not found''))
      | Some service \<Rightarrow>
          (case authorize_tenant_resource p (Some (sv_tenant_id service)) of
             Inr _ \<Rightarrow> Inr service
           | Inl (HTTPException code detail) \<Rightarrow>
               if code = 403 then Inl (HTTPException 404 (JStr ''Service not found''))
               else Inl (HTTPException code detail)
           | Inl e \<Rightarrow> Inl e))"

text \<open>
  \<open>scope_to_tenant\<close> on a query for rows with a tenant column, \<open>column\<close>, or
  without one.
\<close>

definition scope_to_tenant :: "('r \<Rightarrow> uuid) option \<Rightarrow> 'r list \<Rightarrow> Principal \<Rightarrow> exc + 'r list" where
  "scope_to_tenant column rows p =
     (if pc_role p = Role_admin then Inr rows
      else case pc_tenant_id p of
        None \<Rightarrow> Inl forbidden
      | Some t \<Rightarrow>
          (case column of
             None \<Rightarrow> Inl forbidden
           | Some tenant_id \<Rightarrow> Inr (filter (\<lambda>r. tenant_id r = t) rows)))"

section \<open>Rows of users\<close>

text \<open>
  The flush of a new or a changed user: primary key, unique user name
  (\<open>CITEXT\<close>), \<open>ck_users_role_tenant\<close> and the foreign key to the tenant.  A
  row that did not change is not written.
\<close>

definition role_tenant_ok :: "user \<Rightarrow> bool" where
  "role_tenant_ok u \<longleftrightarrow>
     us_role u = Role_admin \<and> us_tenant_id u = None \<or>
     us_role u = Role_tenant_user \<and> us_tenant_id u \<noteq> None"

definition check_user_row :: "user \<Rightarrow> unit dbprog" where
  "check_user_row u =
     andThen (ensure (role_tenant_ok u) (IntegrityError ''ck_users_role_tenant'')) (\<lambda>_.
     andThen (gets (\<lambda>db. list_ex (\<lambda>o'. us_id o' \<noteq> us_id u \<and>
       citext_eq (us_username o') (us_username u)) (users db))) (\<lambda>taken.
     andThen (ensure (\<not> taken) (IntegrityError ''users_username_key'')) (\<lambda>_.
     andThen (gets (\<lambda>db. us_tenant_id u \<noteq> None \<longrightarrow> user_tenant db u \<noteq> None)) (\<lambda>fk.
     ensure fk (IntegrityError ''users_tenant_id_fkey'')))))"

definition insert_user :: "user \<Rightarrow> unit dbprog" where
  "insert_user u =
     andThen (gets (\<lambda>db. get_user db (us_id u) = None)) (\<lambda>fresh.
     andThen (ensure fresh (IntegrityError ''users_pkey'')) (\<lambda>_.
     andThen (check_user_row u) (\<lambda>_.
     modify (\<lambda>db. db\<lparr>users := users db @ [u]\<rparr>))))"

definition flush_user :: "timestamp \<Rightarrow> user \<Rightarrow> user \<Rightarrow> user dbprog" where
  "flush_user now before u =
     (if u = before then ret u
      else
        let u' = u\<lparr>us_updated_at := now\<rparr> in
        andThen (check_user_row u') (\<lambda>_.
        andThen (modify (\<lambda>db. db\<lparr>users := update_row us_id (us_id u) (\<lambda>_. u') (users db)\<rparr>)) (\<lambda>_.
        ret u')))"

text \<open>The actor of an event is the row object of the session, so it shows the row's new name.\<close>

definition current_actor :: "user option \<Rightarrow> user \<Rightarrow> user option" where
  "current_actor actor u =
     (case actor of None \<Rightarrow> None | Some a \<Rightarrow> Some (if us_id a = us_id u then u else a))"

definition json_of_uuid :: "uuid option \<Rightarrow> json" where
  "json_of_uuid i = (case i of None \<Rightarrow> JNull | Some x \<Rightarrow> JUuid x)"

definition role_value :: "Role \<Rightarrow> string" where
  "role_value r = (case r of Role_admin \<Rightarrow> ''admin'' | Role_tenant_user \<Rightarrow> ''tenant_user'')"

definition user_status_value :: "UserStatus \<Rightarrow> string" where
  "user_status_value s =
     (case s of UserStatus_active \<Rightarrow> ''active'' | UserStatus_disabled \<Rightarrow> ''disabled'')"

section \<open>Login and logout\<close>

record LoginResult =
  lr_session_id :: string
  lr_user :: user

definition failed_login :: "timestamp \<Rightarrow> user option \<Rightarrow> string \<Rightarrow> string option \<Rightarrow> 'a accprog" where
  "failed_login now actor username ip =
     andThen (on_db (record_event now actor ''auth.login.failed'' (Some ''user'')
       (json_of_uuid (map_option us_id actor)) ''denied'' ip
       (Some [(''username'', JStr username)]))) (\<lambda>_.
     raise (HTTPException 401 (JStr ''Invalid credentials'')))"

definition login ::
  "(string \<Rightarrow> string \<Rightarrow> bool option) \<Rightarrow> session_settings \<Rightarrow> timestamp \<Rightarrow> string \<Rightarrow> string \<Rightarrow> string
   \<Rightarrow> string option \<Rightarrow> LoginResult accprog" where
  "login verify cfg now new_sid username password ip =
     andThen (gets (\<lambda>st. filter (\<lambda>u. citext_eq (us_username u) username) (users (ac_db st)))) (\<lambda>rows.
     andThen (one_or_none rows) (\<lambda>found.
     case found of
       None \<Rightarrow> failed_login now None username ip
     | Some user \<Rightarrow>
         if \<not> verify_password verify password (us_password_hash user)
         then failed_login now (Some user) username ip
         else if us_status user \<noteq> UserStatus_active then failed_login now (Some user) username ip
         else
           andThen (gets (\<lambda>st. tenant_active (ac_db st) user)) (\<lambda>active.
           if us_role user = Role_tenant_user \<and> \<not> active
           then failed_login now (Some user) username ip
           else
             andThen (on_redis (create_session cfg now new_sid (us_id user) (us_session_version user) ip))
               (\<lambda>session_id.
             andThen (on_db (flush_user now user (user\<lparr>us_last_login_at := Some now\<rparr>))) (\<lambda>user'.
             andThen (on_db (record_event now (Some user') ''auth.login'' (Some ''user'')
               (JUuid (us_id user')) ''success'' ip None)) (\<lambda>_.
             ret \<lparr> lr_session_id = session_id, lr_user = user' \<rparr>))))))"

definition logout ::
  "timestamp \<Rightarrow> user option \<Rightarrow> string \<Rightarrow> string option \<Rightarrow> unit accprog" where
  "logout now actor session_id ip =
     andThen (on_redis (revoke_session now session_id)) (\<lambda>_.
     on_db (record_event now actor ''auth.logout'' (Some ''session'') (JStr session_id)
       ''success'' ip None))"

text \<open>\<open>a or b\<close> on optional texts: the empty text counts as absent.\<close>

definition text_or :: "string option \<Rightarrow> string option \<Rightarrow> string option" where
  "text_or a b = (case a of None \<Rightarrow> b | Some t \<Rightarrow> if t = [] then b else Some t)"

definition bootstrap_admin ::
  "(string \<Rightarrow> string) \<Rightarrow> string option \<Rightarrow> string option \<Rightarrow> uuid \<Rightarrow> timestamp \<Rightarrow> string option
   \<Rightarrow> string option \<Rightarrow> string option \<Rightarrow> user dbprog" where
  "bootstrap_admin hash cfg_username cfg_password new_id now username password ip =
     andThen (gets (\<lambda>db. first_of (sort_key us_created_at
       (filter (\<lambda>u. us_role u = Role_admin) (users db))))) (\<lambda>existing.
     case existing of
       Some u \<Rightarrow> ret u
     | None \<Rightarrow>
         (case (text_or username cfg_username, text_or password cfg_password) of
            (Some name, Some pass) \<Rightarrow>
              if name = [] \<or> pass = []
              then raise (HTTPException 422 (JStr ''Bootstrap credentials are required''))
              else
                let user = \<lparr> us_id = new_id, us_tenant_id = None, us_role = Role_admin,
                      us_username = name, us_password_hash = hash_password hash pass,
                      us_status = UserStatus_active, us_session_version = 1,
                      us_last_login_at = None, us_created_at = now, us_updated_at = now \<rparr> in
                andThen (insert_user user) (\<lambda>_.
                andThen (record_event now None ''auth.bootstrap'' (Some ''user'') (JUuid new_id)
                  ''success'' ip (Some [(''username'', JStr name)])) (\<lambda>_.
                ret user))
          | _ \<Rightarrow> raise (HTTPException 422 (JStr ''Bootstrap credentials are required''))))"

section \<open>Administration of users\<close>

definition get_existing_user :: "uuid \<Rightarrow> user dbprog" where
  "get_existing_user user_id =
     fetch (\<lambda>db. get_user db user_id) (HTTPException 404 (JStr ''User not found''))"

definition validate_role_tenant :: "Role \<Rightarrow> uuid option \<Rightarrow> unit dbprog" where
  "validate_role_tenant role tenant_id =
     andThen (ensure (\<not> (role = Role_admin \<and> tenant_id \<noteq> None))
       (HTTPException 422 (JStr ''Invalid role scope''))) (\<lambda>_.
     whenever (role = Role_tenant_user)
       (andThen (gets (\<lambda>db. Option.bind tenant_id (get_tenant db) = None)) (\<lambda>missing.
        ensure (\<not> missing) (HTTPException 422 (JStr ''Invalid role scope'')))))"

definition ensure_unique_username :: "string \<Rightarrow> uuid option \<Rightarrow> unit dbprog" where
  "ensure_unique_username username exclude_user_id =
     andThen (gets (\<lambda>db. filter (\<lambda>u. citext_eq (us_username u) username) (users db))) (\<lambda>rows.
     andThen (one_or_none rows) (\<lambda>existing.
     ensure (case existing of None \<Rightarrow> True | Some u \<Rightarrow> Some (us_id u) = exclude_user_id)
       (HTTPException 409 (JStr ''Username already exists''))))"

definition active_admin :: "user \<Rightarrow> bool" where
  "active_admin u \<longleftrightarrow> us_role u = Role_admin \<and> us_status u = UserStatus_active"

definition ensure_not_last_active_admin :: "user \<Rightarrow> unit dbprog" where
  "ensure_not_last_active_admin user =
     whenever (active_admin user)
       (andThen (gets (\<lambda>db. filter (\<lambda>u. active_admin u \<and> us_id u \<noteq> us_id user) (users db))) (\<lambda>rows.
        andThen (one_or_none rows) (\<lambda>other_admin.
        ensure (other_admin \<noteq> None) (HTTPException 409 (JStr ''Cannot remove last admin'')))))"

text \<open>\<open>_bump_version_and_revoke\<close>, returning the changed row object.\<close>

definition bump_version_and_revoke :: "user \<Rightarrow> user accprog" where
  "bump_version_and_revoke user =
     andThen (on_redis (revoke_all_sessions (us_id user))) (\<lambda>_.
     ret (user\<lparr>us_session_version := us_session_version user + 1\<rparr>))"

definition create_user ::
  "(string \<Rightarrow> string) \<Rightarrow> uuid \<Rightarrow> timestamp \<Rightarrow> user option \<Rightarrow> string \<Rightarrow> string \<Rightarrow> Role \<Rightarrow> uuid option
   \<Rightarrow> string option \<Rightarrow> user accprog" where
  "create_user hash new_id now actor username password role tenant_id ip =
     on_db (
       andThen (validate_role_tenant role tenant_id) (\<lambda>_.
       andThen (ensure_unique_username username None) (\<lambda>_.
       let user = \<lparr> us_id = new_id, us_tenant_id = tenant_id, us_role = role,
             us_username = username, us_password_hash = hash_password hash password,
             us_status = UserStatus_active, us_session_version = 1,
             us_last_login_at = None, us_created_at = now, us_updated_at = now \<rparr> in
       andThen (insert_user user) (\<lambda>_.
       andThen (record_event now actor ''user.create'' (Some ''user'') (JUuid new_id) ''success'' ip
         (Some [(''role'', JStr (role_value role)), (''tenant_id'', json_of_uuid tenant_id)])) (\<lambda>_.
       ret user)))))"

text \<open>The end of an update: the flush and its event.\<close>

definition save_user ::
  "timestamp \<Rightarrow> user option \<Rightarrow> user \<Rightarrow> user \<Rightarrow> string \<Rightarrow> string option
   \<Rightarrow> (user \<Rightarrow> (string \<times> json) list option) \<Rightarrow> user accprog" where
  "save_user now actor user changed action ip metadata =
     andThen (on_db (flush_user now user changed)) (\<lambda>flushed.
     andThen (on_db (record_event now (current_actor actor flushed) action (Some ''user'')
       (JUuid (us_id user)) ''success'' ip (metadata flushed))) (\<lambda>_.
     ret flushed))"

definition rename_user :: "user \<Rightarrow> string option \<Rightarrow> user dbprog" where
  "rename_user user username =
     (case username of
        None \<Rightarrow> ret user
      | Some name \<Rightarrow>
          if name = us_username user then ret user
          else andThen (ensure_unique_username name (Some (us_id user))) (\<lambda>_.
               ret (user\<lparr>us_username := name\<rparr>)))"

definition rescope_user :: "user \<Rightarrow> user \<Rightarrow> Role \<Rightarrow> uuid option \<Rightarrow> user accprog" where
  "rescope_user user renamed new_role new_tenant_id =
     (if new_role \<noteq> us_role user \<or> new_tenant_id \<noteq> us_tenant_id user then
        andThen (whenever (us_role user = Role_admin \<and> new_role \<noteq> Role_admin)
          (on_db (ensure_not_last_active_admin user))) (\<lambda>_.
        bump_version_and_revoke (renamed\<lparr>us_role := new_role, us_tenant_id := new_tenant_id\<rparr>))
      else ret renamed)"

definition update_user ::
  "timestamp \<Rightarrow> user option \<Rightarrow> uuid \<Rightarrow> string option \<Rightarrow> Role option \<Rightarrow> uuid option \<Rightarrow> string option
   \<Rightarrow> user accprog" where
  "update_user now actor user_id username role tenant_id ip =
     andThen (on_db (get_existing_user user_id)) (\<lambda>user.
     let new_role = (case role of None \<Rightarrow> us_role user | Some r \<Rightarrow> r);
         new_tenant_id = (if role \<noteq> None \<or> tenant_id \<noteq> None then tenant_id else us_tenant_id user) in
     andThen (on_db (validate_role_tenant new_role new_tenant_id)) (\<lambda>_.
     andThen (on_db (rename_user user username)) (\<lambda>renamed.
     andThen (rescope_user user renamed new_role new_tenant_id) (\<lambda>changed.
     save_user now actor user changed ''user.update'' ip
       (\<lambda>u. Some [(''role'', JStr (role_value (us_role u))),
         (''tenant_id'', json_of_uuid (us_tenant_id u))])))))"

definition set_user_status ::
  "timestamp \<Rightarrow> user option \<Rightarrow> uuid \<Rightarrow> UserStatus \<Rightarrow> string option \<Rightarrow> user accprog" where
  "set_user_status now actor user_id status ip =
     andThen (on_db (get_existing_user user_id)) (\<lambda>user.
     andThen (whenever (status = UserStatus_disabled) (on_db (ensure_not_last_active_admin user))) (\<lambda>_.
     andThen (if us_status user \<noteq> status then bump_version_and_revoke (user\<lparr>us_status := status\<rparr>)
       else ret user) (\<lambda>changed.
     save_user now actor user changed ''user.status'' ip
       (\<lambda>_. Some [(''status'', JStr (user_status_value status))]))))"

definition reset_password ::
  "(string \<Rightarrow> string) \<Rightarrow> timestamp \<Rightarrow> user option \<Rightarrow> uuid \<Rightarrow> string \<Rightarrow> string option \<Rightarrow> user accprog" where
  "reset_password hash now actor user_id new_password ip =
     andThen (on_db (get_existing_user user_id)) (\<lambda>user.
     andThen (bump_version_and_revoke (user\<lparr>us_password_hash := hash_password hash new_password\<rparr>)) (\<lambda>changed.
     save_user now actor user changed ''user.password.reset'' ip (\<lambda>_. None)))"

text \<open>The deletion of a row, with the \<open>SET NULL\<close> actions of the keys that refer to it.\<close>

definition forget :: "uuid \<Rightarrow> uuid option \<Rightarrow> uuid option" where
  "forget i x = (if x = Some i then None else x)"

definition cascade_delete_user :: "uuid \<Rightarrow> db \<Rightarrow> db" where
  "cascade_delete_user i db =
     db\<lparr>users := delete_row us_id i (users db),
        allocated_cidrs :=
          map (\<lambda>a. a\<lparr>al_allocated_by := forget i (al_allocated_by a)\<rparr>) (allocated_cidrs db),
        audit_events :=
          map (\<lambda>e. e\<lparr>ev_actor_user_id := forget i (ev_actor_user_id e)\<rparr>) (audit_events db),
        protected_services :=
          map (\<lambda>s. s\<lparr>sv_created_by := forget i (sv_created_by s)\<rparr>) (protected_services db),
        whitelist_entries :=
          map (\<lambda>w. w\<lparr>wl_created_by := forget i (wl_created_by w)\<rparr>) (whitelist_entries db),
        blacklist_entries :=
          map (\<lambda>b. b\<lparr>bl_created_by := forget i (bl_created_by b)\<rparr>) (blacklist_entries db),
        blocked_udp_ports :=
          map (\<lambda>p. p\<lparr>bp_created_by := forget i (bp_created_by p)\<rparr>) (blocked_udp_ports db),
        node_control_row := map_option (\<lambda>n. n\<lparr>
          nc_bypass_actor_user_id := forget i (nc_bypass_actor_user_id n),
          nc_maintenance_actor_user_id := forget i (nc_maintenance_actor_user_id n)\<rparr>)
          (node_control_row db),
        alerts := map (\<lambda>a. a\<lparr>at_acknowledged_by := forget i (at_acknowledged_by a)\<rparr>) (alerts db)\<rparr>"

definition delete_user ::
  "timestamp \<Rightarrow> user option \<Rightarrow> uuid \<Rightarrow> string option \<Rightarrow> unit accprog" where
  "delete_user now actor user_id ip =
     andThen (on_db (get_existing_user user_id)) (\<lambda>user.
     andThen (on_db (ensure_not_last_active_admin user)) (\<lambda>_.
     andThen (on_redis (revoke_all_sessions (us_id user))) (\<lambda>_.
     andThen (on_db (record_event now actor ''user.delete'' (Some ''user'') (JUuid user_id)
       ''success'' ip None)) (\<lambda>_.
     on_db (modify (cascade_delete_user user_id))))))"

definition change_own_password ::
  "(string \<Rightarrow> string) \<Rightarrow> (string \<Rightarrow> string \<Rightarrow> bool option) \<Rightarrow> session_settings \<Rightarrow> timestamp \<Rightarrow> user
   \<Rightarrow> string \<Rightarrow> string \<Rightarrow> string \<Rightarrow> string option \<Rightarrow> user accprog" where
  "change_own_password hash verify cfg now user current_session_id current_password new_password ip =
     (if \<not> verify_password verify current_password (us_password_hash user) then
        andThen (on_db (record_event now (Some user) ''user.password.change_failed'' (Some ''user'')
          (JUuid (us_id user)) ''denied'' ip None)) (\<lambda>_.
        raise (HTTPException 401 (JStr ''Invalid credentials'')))
      else
        let changed = user\<lparr>us_password_hash := hash_password hash new_password,
              us_session_version := us_session_version user + 1\<rparr> in
        andThen (on_redis (list_for_user now (us_id user))) (\<lambda>sessions.
        andThen (for_each sessions (\<lambda>s.
          if sd_sid s = current_session_id
          then andThen (on_redis (set_session_version cfg now current_session_id
                 (us_session_version changed))) (\<lambda>_. ret ())
          else on_redis (revoke_session now (sd_sid s)))) (\<lambda>_.
        andThen (on_db (flush_user now user changed)) (\<lambda>flushed.
        andThen (on_db (record_event now (Some flushed) ''user.password.change'' (Some ''user'')
          (JUuid (us_id user)) ''success'' ip None)) (\<lambda>_.
        ret flushed)))))"

section \<open>Requests\<close>

text \<open>
  The bodies of the requests once the principal is known; the ones of
  \<open>api/routers/users.py\<close> are for administrators.  A request names what it was
  sent with; the identifier of a new user and the passwords' hashes are drawn
  when it runs.
\<close>

datatype user_request =
    LogoutRequest
  | PasswordChangeRequest string string
  | UserCreateRequest uuid string string Role "uuid option"
  | UserPatchRequest uuid "string option" "Role option" "uuid option" "UserStatus option"
  | UserDeleteRequest uuid
  | ResetPasswordRequest uuid string

definition as_admin :: "Principal \<Rightarrow> (user option \<Rightarrow> unit accprog) \<Rightarrow> unit accprog" where
  "as_admin p body =
     andThen (of_result (require_admin p)) (\<lambda>_.
     andThen (gets (\<lambda>st. get_user (ac_db st) (pc_user_id p))) (\<lambda>actor.
     body actor))"

definition logout_request :: "timestamp \<Rightarrow> Principal \<Rightarrow> unit accprog" where
  "logout_request now p =
     andThen (gets (\<lambda>st. get_user (ac_db st) (pc_user_id p))) (\<lambda>actor.
     logout now actor (pc_session_id p) None)"

definition change_password_request ::
  "(string \<Rightarrow> string) \<Rightarrow> (string \<Rightarrow> string \<Rightarrow> bool option) \<Rightarrow> session_settings \<Rightarrow> timestamp
   \<Rightarrow> Principal \<Rightarrow> string \<Rightarrow> string \<Rightarrow> unit accprog" where
  "change_password_request hash verify cfg now p current_password new_password =
     andThen (fetch (\<lambda>st. get_user (ac_db st) (pc_user_id p)) unauthenticated) (\<lambda>user.
     andThen (change_own_password hash verify cfg now user (pc_session_id p) current_password
       new_password None) (\<lambda>_.
     ret ()))"

definition patch_user_request ::
  "timestamp \<Rightarrow> user option \<Rightarrow> uuid \<Rightarrow> string option \<Rightarrow> Role option \<Rightarrow> uuid option
   \<Rightarrow> UserStatus option \<Rightarrow> unit accprog" where
  "patch_user_request now actor user_id username role tenant_id status =
     andThen (update_user now actor user_id username role tenant_id None) (\<lambda>updated.
     case status of
       None \<Rightarrow> ret ()
     | Some s \<Rightarrow> andThen (set_user_status now (current_actor actor updated) user_id s None) (\<lambda>_. ret ()))"

fun serve ::
  "(string \<Rightarrow> string) \<Rightarrow> (string \<Rightarrow> string \<Rightarrow> bool option) \<Rightarrow> session_settings \<Rightarrow> timestamp
   \<Rightarrow> Principal \<Rightarrow> user_request \<Rightarrow> unit accprog" where
  "serve hash verify cfg now p LogoutRequest = logout_request now p"
| "serve hash verify cfg now p (PasswordChangeRequest current new) =
     change_password_request hash verify cfg now p current new"
| "serve hash verify cfg now p (UserCreateRequest new_id username password role tenant_id) =
     as_admin p (\<lambda>actor.
       andThen (create_user hash new_id now actor username password role tenant_id None) (\<lambda>_. ret ()))"
| "serve hash verify cfg now p (UserPatchRequest user_id username role tenant_id status) =
     as_admin p (\<lambda>actor. patch_user_request now actor user_id username role tenant_id status)"
| "serve hash verify cfg now p (UserDeleteRequest user_id) =
     as_admin p (\<lambda>actor. delete_user now actor user_id None)"
| "serve hash verify cfg now p (ResetPasswordRequest user_id new_password) =
     as_admin p (\<lambda>actor.
       andThen (reset_password hash now actor user_id new_password None) (\<lambda>_. ret ()))"

section \<open>Running the pieces\<close>

lemma wp_on_db [wp_simps]:
  "wp (on_db m) Q E st = wp m (\<lambda>x d. Q x (st\<lparr>ac_db := d\<rparr>)) (\<lambda>e d. E e (st\<lparr>ac_db := d\<rparr>)) (ac_db st)"
  by (simp add: wp_def on_db_def split: prod.splits sum.splits)

lemma wp_on_redis:
  "wp (on_redis m) Q E st
     = wp m (\<lambda>x r. Q x (st\<lparr>ac_redis := r\<rparr>)) (\<lambda>e r. E e (st\<lparr>ac_redis := r\<rparr>)) (ac_redis st)"
  by (simp add: wp_def on_redis_def split: prod.splits sum.splits)

lemma wp_request:
  "wp (request m) Q E st = wp m Q (\<lambda>e st'. E e (st'\<lparr>ac_db := ac_db st\<rparr>)) st"
  by (simp add: wp_def request_def split: prod.splits sum.splits)

lemma wp_one_or_none [wp_simps]:
  "wp (one_or_none rows) Q E s =
     (case rows of [] \<Rightarrow> Q None s | [r] \<Rightarrow> Q (Some r) s | _ \<Rightarrow> E MultipleResultsFound s)"
  by (simp add: one_or_none_def wp_simps split: list.splits)

text \<open>The constraints of the table of users.\<close>

definition users_ok :: "db \<Rightarrow> bool" where
  "users_ok db \<longleftrightarrow> distinct (map us_id (users db)) \<and>
     distinct (map (\<lambda>u. lower (us_username u)) (users db)) \<and>
     (\<forall>u\<in>set (users db). role_tenant_ok u \<and> (us_tenant_id u \<noteq> None \<longrightarrow> user_tenant db u \<noteq> None))"

definition versions :: "db \<Rightarrow> uuid \<Rightarrow> int option" where
  "versions db i = map_option us_session_version (get_user db i)"

lemma user_tenant_alt:
  "user_tenant db u = (case us_tenant_id u of None \<Rightarrow> None | Some t \<Rightarrow> row tn_id t (tenants db))"
  by (simp add: user_tenant_def get_tenant_def split: option.splits)

lemma users_ok_cong: "users db' = users db \<Longrightarrow> tenants db' = tenants db \<Longrightarrow> users_ok db' = users_ok db"
  by (simp only: users_ok_def user_tenant_alt)

lemma user_tenant_frame [simp]:
  "user_tenant (db\<lparr>users := us\<rparr>) u = user_tenant db u"
  "user_tenant (db\<lparr>audit_events := evs\<rparr>) u = user_tenant db u"
  by (simp_all add: user_tenant_alt split: option.splits)

lemma get_user_cong: "users db' = users db \<Longrightarrow> get_user db' i = get_user db i"
  by (simp add: get_user_def)

lemma get_user_id: "get_user db i = Some u \<Longrightarrow> us_id u = i"
  unfolding get_user_def by (drule row_SomeD) simp

lemma get_user_in: "get_user db i = Some u \<Longrightarrow> u \<in> set (users db)"
  unfolding get_user_def by (drule row_SomeD) simp

lemma update_row_self:
  assumes "distinct (map key rs)" "row key k rs = Some r"
  shows "update_row key k (\<lambda>_. r) rs = rs"
  using assms by (induction rs) (auto simp: table_simps row_None_iff [symmetric] update_row_absent)

lemma update_row_const_names:
  assumes "distinct (map key rs)" "distinct (map f rs)" "row key k rs = Some r" "key x = k"
    "\<And>o'. o' \<in> set rs \<Longrightarrow> key o' \<noteq> k \<Longrightarrow> f o' \<noteq> f x"
  shows "distinct (map f (update_row key k (\<lambda>_. x) rs))"
  using assms
proof (induction rs)
  case (Cons y ys)
  have tail: "f x \<notin> f ` set ys" if "key y = k"
    using Cons.prems(1,5) that by (metis distinct.simps(2) image_iff list.set_intros(2) list.simps(9) set_map)
  show ?case
  proof (cases "key y = k")
    case True
    then have "update_row key k (\<lambda>_. x) ys = ys"
      using Cons.prems(1) by (intro update_row_absent) auto
    with True tail Cons.prems(2) show ?thesis by (simp add: table_simps)
  next
    case False
    then have IH: "distinct (map f (update_row key k (\<lambda>_. x) ys))"
      using Cons by (auto simp: table_simps)
    have "f y \<noteq> f x" using Cons.prems(5) False by simp
    then have "f y \<notin> f ` set (update_row key k (\<lambda>_. x) ys)"
      using Cons.prems(2) by (auto simp: set_update_row)
    with IH False show ?thesis by (simp add: table_simps)
  qed
qed simp

lemma users_ok_update:
  assumes ok: "users_ok db" and u: "get_user db (us_id x) = Some u" and x: "role_tenant_ok x"
    and fk: "us_tenant_id x \<noteq> None \<longrightarrow> user_tenant db x \<noteq> None"
    and free: "\<not> list_ex (\<lambda>o'. us_id o' \<noteq> us_id x \<and> citext_eq (us_username o') (us_username x)) (users db)"
  shows "users_ok (db\<lparr>users := update_row us_id (us_id x) (\<lambda>_. x) (users db)\<rparr>)"
proof -
  have "distinct (map (\<lambda>u. lower (us_username u)) (update_row us_id (us_id x) (\<lambda>_. x) (users db)))"
    using ok u free
    by (intro update_row_const_names) (auto simp: users_ok_def get_user_def list_ex_iff citext_eq_def)
  moreover have "map us_id (update_row us_id (us_id x) (\<lambda>_. x) (users db)) = map us_id (users db)"
    by (auto simp: update_row_def)
  ultimately show ?thesis
    using ok x fk by (auto simp: users_ok_def set_update_row)
qed

text \<open>
  What a request leaves when it fails: Redis may have lost sessions, and the
  rest is as before once the database is rolled back.
\<close>

definition aborted :: "access \<Rightarrow> access \<Rightarrow> bool" where
  "aborted st st' \<longleftrightarrow> fewer (ac_redis st) (ac_redis st') \<and> ac_inflight st' = ac_inflight st \<and>
     ac_issued st' = ac_issued st \<and> ac_user_ids st' = ac_user_ids st"

text \<open>What it leaves when it rewrote the row \<open>user\<close> as \<open>u'\<close>.\<close>

definition rewrote :: "access \<Rightarrow> user \<Rightarrow> user \<Rightarrow> access \<Rightarrow> bool" where
  "rewrote st user u' st' \<longleftrightarrow> aborted st st' \<and> get_user (ac_db st) (us_id user) = Some user \<and>
     us_id u' = us_id user \<and> users_ok (ac_db st') \<and> tenants (ac_db st') = tenants (ac_db st) \<and>
     users (ac_db st') = update_row us_id (us_id user) (\<lambda>_. u') (users (ac_db st))"

lemma aborted_refl: "redis_ok (ac_redis st) \<Longrightarrow> aborted st st"
  by (simp add: aborted_def fewer_refl)

lemma aborted_db [simp]: "aborted st (st'\<lparr>ac_db := d\<rparr>) = aborted st st'"
  by (simp add: aborted_def)

lemma aborted_redis: "fewer (ac_redis st) r \<Longrightarrow> aborted st (st\<lparr>ac_redis := r\<rparr>)"
  by (simp add: aborted_def)

lemma wp_revoke_all_fewer:
  assumes "redis_ok (ac_redis st)"
    "\<And>r. fewer (ac_redis st) r \<Longrightarrow> Q () (st\<lparr>ac_redis := r\<rparr>)"
  shows "wp (on_redis (revoke_all_sessions i)) Q E st"
  unfolding wp_on_redis
  by (rule wp_mono [OF wp_revoke_all_sessions [OF assms(1)]]) (use assms(2) in \<open>auto simp: fewer_def\<close>)

lemma wp_bump:
  assumes "redis_ok (ac_redis st)"
    "\<And>r. fewer (ac_redis st) r \<Longrightarrow> Q (u\<lparr>us_session_version := us_session_version u + 1\<rparr>) (st\<lparr>ac_redis := r\<rparr>)"
  shows "wp (bump_version_and_revoke u) Q E st"
  unfolding bump_version_and_revoke_def wp_simps
  by (rule wp_revoke_all_fewer [OF assms(1)]) (simp add: assms(2))

lemma wp_check_user_row:
  "wp (check_user_row u) Q E db =
     (if \<not> role_tenant_ok u then E (IntegrityError ''ck_users_role_tenant'') db
      else if list_ex (\<lambda>o'. us_id o' \<noteq> us_id u \<and> citext_eq (us_username o') (us_username u)) (users db)
      then E (IntegrityError ''users_username_key'') db
      else if us_tenant_id u \<noteq> None \<and> user_tenant db u = None
      then E (IntegrityError ''users_tenant_id_fkey'') db
      else Q () db)"
  by (auto simp: check_user_row_def wp_simps)

lemma user_tenant_touch [simp]: "user_tenant db (u\<lparr>us_updated_at := t\<rparr>) = user_tenant db u"
  by (simp add: user_tenant_def)

lemma role_tenant_ok_touch [simp]: "role_tenant_ok (u\<lparr>us_updated_at := t\<rparr>) = role_tenant_ok u"
  by (simp add: role_tenant_ok_def)

lemma wp_flush_user:
  assumes ok: "users_ok db" and before: "get_user db (us_id before) = Some before"
    and u: "us_id u = us_id before"
    and Q: "\<And>t. users_ok (db\<lparr>users := update_row us_id (us_id before) (\<lambda>_. u\<lparr>us_updated_at := t\<rparr>) (users db)\<rparr>) \<Longrightarrow>
      Q (u\<lparr>us_updated_at := t\<rparr>) (db\<lparr>users := update_row us_id (us_id before) (\<lambda>_. u\<lparr>us_updated_at := t\<rparr>) (users db)\<rparr>)"
    and E: "\<And>e. E e db"
  shows "wp (flush_user now before u) Q E db"
proof (cases "u = before")
  case True
  have "update_row us_id (us_id before) (\<lambda>_. u) (users db) = users db"
    using ok before True by (intro update_row_self) (auto simp: users_ok_def get_user_def)
  then show ?thesis using Q [of "us_updated_at u"] True ok by (simp add: flush_user_def wp_simps)
next
  case False
  have "users_ok (db\<lparr>users := update_row us_id (us_id before) (\<lambda>_. u\<lparr>us_updated_at := now\<rparr>) (users db)\<rparr>)"
    if "role_tenant_ok u" "us_tenant_id u \<noteq> None \<longrightarrow> user_tenant db u \<noteq> None"
      "\<not> list_ex (\<lambda>o'. us_id o' \<noteq> us_id u \<and> citext_eq (us_username o') (us_username u)) (users db)"
    using users_ok_update [OF ok, of "u\<lparr>us_updated_at := now\<rparr>" before] before u that by simp
  with Q [of now] E u show ?thesis
    by (auto simp: flush_user_def Let_def wp_simps wp_check_user_row False)
qed

lemma wp_record_event_access:
  assumes "\<And>evs. Q () (st\<lparr>ac_db := ac_db st\<lparr>audit_events := evs\<rparr>\<rparr>)"
  shows "wp (on_db (record_event now actor action target_type target_id outcome ip metadata)) Q E st"
  using assms by (simp add: record_event_def wp_simps)

lemma wp_save_user:
  assumes st': "aborted st st'" "ac_db st' = ac_db st" and ok: "users_ok (ac_db st)"
    and user: "get_user (ac_db st) (us_id user) = Some user" and u: "us_id u = us_id user"
    and Q: "\<And>t st''. rewrote st user (u\<lparr>us_updated_at := t\<rparr>) st'' \<Longrightarrow> Q (u\<lparr>us_updated_at := t\<rparr>) st''"
    and E: "\<And>e st''. aborted st st'' \<Longrightarrow> E e st''"
  shows "wp (save_user now actor user u action ip metadata) Q E st'"
  unfolding save_user_def wp_andThen wp_on_db st'(2)
proof (rule wp_flush_user [OF ok user u])
  fix t
  let ?u = "u\<lparr>us_updated_at := t\<rparr>"
  let ?d = "ac_db st\<lparr>users := update_row us_id (us_id user) (\<lambda>_. ?u) (users (ac_db st))\<rparr>"
  assume d: "users_ok ?d"
  have "rewrote st user ?u (st'\<lparr>ac_db := ?d\<lparr>audit_events := evs\<rparr>\<rparr>)" for evs
  proof -
    have "users_ok (?d\<lparr>audit_events := evs\<rparr>)"
      by (rule users_ok_cong [THEN iffD2, OF _ _ d]) simp_all
    then show ?thesis using st' user u by (simp add: rewrote_def)
  qed
  from Q [OF this] show "wp (record_event now (current_actor actor ?u) action (Some ''user'')
      (JUuid (us_id user)) ''success'' ip (metadata ?u))
    (\<lambda>x d. wp (ret ?u) Q E (st'\<lparr>ac_db := ?d, ac_db := d\<rparr>)) (\<lambda>e d. E e (st'\<lparr>ac_db := ?d, ac_db := d\<rparr>))
    (ac_db (st'\<lparr>ac_db := ?d\<rparr>))"
    by (simp add: record_event_def wp_simps)
qed (simp add: E st')

section \<open>What the operations on users do\<close>

definition other_admin :: "db \<Rightarrow> uuid \<Rightarrow> bool" where
  "other_admin db i \<longleftrightarrow> (\<exists>o'\<in>set (users db). active_admin o' \<and> us_id o' \<noteq> i)"

text \<open>What a session's rights rest on.\<close>

definition credentials :: "user \<Rightarrow> Role \<times> uuid option \<times> UserStatus \<times> string" where
  "credentials u = (us_role u, us_tenant_id u, us_status u, us_password_hash u)"

definition changes :: "access \<Rightarrow> uuid \<Rightarrow> user \<Rightarrow> access \<Rightarrow> bool" where
  "changes st i u st' \<longleftrightarrow> (\<exists>user. us_id user = i \<and> rewrote st user u st' \<and>
     us_session_version user \<le> us_session_version u \<and>
     (credentials u \<noteq> credentials user \<longrightarrow> us_session_version user < us_session_version u) \<and>
     (active_admin user \<and> \<not> active_admin u \<longrightarrow> other_admin (ac_db st) i))"

lemma wp_ensure_not_last:
  assumes "active_admin user \<longrightarrow> other_admin db (us_id user) \<Longrightarrow> Q () db" "\<And>e. E e db"
  shows "wp (ensure_not_last_active_admin user) Q E db"
proof -
  let ?rows = "filter (\<lambda>u. active_admin u \<and> us_id u \<noteq> us_id user) (users db)"
  have "other_admin db (us_id user)" if "?rows = r # rs" for r rs
  proof -
    have "r \<in> set ?rows" using that by simp
    then show ?thesis by (auto simp: other_admin_def)
  qed
  with assms show ?thesis
    by (simp add: ensure_not_last_active_admin_def wp_simps split: list.splits)
qed

lemma wp_rename_user:
  assumes "\<And>name. Q (user\<lparr>us_username := name\<rparr>) db" "\<And>e. E e db"
  shows "wp (rename_user user username) Q E db"
  using assms(1) [of "us_username user"] assms
  by (auto simp: rename_user_def wp_simps ensure_unique_username_def split: option.splits list.splits)

text \<open>The changed row object that a program hands to \<open>save_user\<close>.\<close>

definition prepared :: "access \<Rightarrow> user \<Rightarrow> user \<Rightarrow> access \<Rightarrow> bool" where
  "prepared st user u st' \<longleftrightarrow> aborted st st' \<and> ac_db st' = ac_db st \<and> us_id u = us_id user \<and>
     us_session_version user \<le> us_session_version u \<and>
     (credentials u \<noteq> credentials user \<longrightarrow> us_session_version user < us_session_version u) \<and>
     (active_admin user \<and> \<not> active_admin u \<longrightarrow> other_admin (ac_db st) (us_id user))"

lemma prepared_same: "redis_ok (ac_redis st) \<Longrightarrow> prepared st user (user\<lparr>us_username := name\<rparr>) st"
  by (auto simp: prepared_def aborted_refl credentials_def active_admin_def)

lemma wp_prepare_bump:
  assumes "redis_ok (ac_redis st)" "us_id u = us_id user" "us_session_version u = us_session_version user"
    "active_admin user \<and> \<not> active_admin u \<longrightarrow> other_admin (ac_db st) (us_id user)"
  shows "wp (bump_version_and_revoke u) (\<lambda>u. prepared st user u) E st"
  by (rule wp_bump [OF assms(1)]) (use assms in \<open>auto simp: prepared_def aborted_redis active_admin_def\<close>)

lemma wp_rescope_user:
  assumes ok: "redis_ok (ac_redis st)"
  shows "wp (rescope_user user (user\<lparr>us_username := name\<rparr>) new_role new_tenant) (\<lambda>u. prepared st user u)
    (\<lambda>_. aborted st) st"
proof (cases "new_role \<noteq> us_role user \<or> new_tenant \<noteq> us_tenant_id user")
  case False
  then show ?thesis using prepared_same [OF ok, of user name] by (simp add: rescope_user_def wp_ret)
next
  case changed: True
  let ?u = "user\<lparr>us_username := name, us_role := new_role, us_tenant_id := new_tenant\<rparr>"
  have bump: "wp (bump_version_and_revoke ?u) (\<lambda>u. prepared st user u) (\<lambda>_. aborted st) st"
    if "active_admin user \<and> new_role \<noteq> Role_admin \<longrightarrow> other_admin (ac_db st) (us_id user)"
    by (rule wp_prepare_bump [OF ok]) (use that in \<open>auto simp: active_admin_def\<close>)
  have "wp (ensure_not_last_active_admin user)
      (\<lambda>_ d. wp (bump_version_and_revoke ?u) (\<lambda>u. prepared st user u) (\<lambda>_. aborted st) (st\<lparr>ac_db := d\<rparr>))
      (\<lambda>_ d. aborted st (st\<lparr>ac_db := d\<rparr>)) (ac_db st)"
    by (rule wp_ensure_not_last) (simp_all add: bump aborted_refl ok)
  then show ?thesis
    using changed bump by (auto simp: rescope_user_def wp_andThen wp_when wp_on_db active_admin_def)
qed

lemma wp_save_prepared:
  assumes "prepared st user u st'" "users_ok (ac_db st)" "get_user (ac_db st) (us_id user) = Some user"
  shows "wp (save_user now actor user u action ip metadata) (\<lambda>u'. changes st (us_id user) u')
    (\<lambda>_. aborted st) st'"
proof (rule wp_save_user)
  fix t st''
  assume "rewrote st user (u\<lparr>us_updated_at := t\<rparr>) st''"
  then show "changes st (us_id user) (u\<lparr>us_updated_at := t\<rparr>) st''"
    using assms(1) unfolding changes_def prepared_def
    by (intro exI [of _ user]) (simp add: credentials_def active_admin_def)
qed (use assms in \<open>auto simp: prepared_def\<close>)

lemma wp_existing_user:
  assumes "\<And>user. get_user (ac_db st) i = Some user \<Longrightarrow> us_id user = i \<Longrightarrow> wp (f user) Q E st"
    "E (HTTPException 404 (JStr ''User not found'')) st"
  shows "wp (andThen (on_db (get_existing_user i)) f) Q E st"
  using assms get_user_id
  by (auto simp: get_existing_user_def wp_simps split: option.splits)

lemma wp_update_user:
  assumes ok: "users_ok (ac_db st)" "redis_ok (ac_redis st)"
  shows "wp (update_user now actor i username role tenant_id ip) (\<lambda>u. changes st i u) (\<lambda>_. aborted st) st"
  unfolding update_user_def
proof (rule wp_existing_user, goal_cases)
  case (1 user)
  have save: "wp (save_user now actor user u action ip metadata) (\<lambda>u'. changes st i u') (\<lambda>_. aborted st) st'"
    if "prepared st user u st'" for u st' action metadata
    using wp_save_prepared [OF that ok(1), of now actor action ip metadata] 1 by simp
  have scope: "wp (rescope_user user (user\<lparr>us_username := name\<rparr>) r t)
      (\<lambda>u. wp (save_user now actor user u action ip metadata) (\<lambda>u'. changes st i u') (\<lambda>_. aborted st))
      (\<lambda>_. aborted st) st" for name r t action metadata
    by (rule wp_mono [OF wp_rescope_user [OF ok(2)]]) (auto intro: save)
  show ?case
    using aborted_refl [OF ok(2)]
    by (auto simp: Let_def wp_andThen wp_on_db validate_role_tenant_def wp_ensure wp_when wp_gets
        intro!: wp_rename_user scope)
qed (simp add: aborted_refl ok)

lemma wp_set_user_status:
  assumes ok: "users_ok (ac_db st)" "redis_ok (ac_redis st)"
  shows "wp (set_user_status now actor i status ip) (\<lambda>u st'. changes st i u st' \<and> us_status u = status)
    (\<lambda>_. aborted st) st"
  unfolding set_user_status_def
proof (rule wp_existing_user, goal_cases)
  case (1 user)
  have save: "wp (save_user now actor user u action ip metadata)
      (\<lambda>u' st'. changes st i u' st' \<and> us_status u' = status) (\<lambda>_. aborted st) st'"
    if "prepared st user u st'" "us_status u = status" for u st' action metadata
    by (rule wp_save_user [where st = st]) (use that ok 1 in \<open>auto simp: prepared_def changes_def credentials_def active_admin_def\<close>)
  have bump: "wp (bump_version_and_revoke (user\<lparr>us_status := status\<rparr>))
      (\<lambda>u. wp (save_user now actor user u action ip metadata)
        (\<lambda>u' st'. changes st i u' st' \<and> us_status u' = status) (\<lambda>_. aborted st)) (\<lambda>_. aborted st) st"
    if "status = UserStatus_disabled \<longrightarrow> active_admin user \<longrightarrow> other_admin (ac_db st) i" for action metadata
  proof (rule wp_bump [OF ok(2)], rule save)
    fix r assume "fewer (ac_redis st) r"
    then show "prepared st user (user\<lparr>us_status := status, us_session_version :=
        us_session_version (user\<lparr>us_status := status\<rparr>) + 1\<rparr>) (st\<lparr>ac_redis := r\<rparr>)"
      using that 1 by (cases status) (auto simp: prepared_def aborted_redis active_admin_def)
  qed simp
  have same: "wp (save_user now actor user user action ip metadata)
        (\<lambda>u' st'. changes st i u' st' \<and> us_status u' = status) (\<lambda>_. aborted st) st"
    if "us_status user = status" for action metadata
    by (rule save) (use that prepared_same [OF ok(2), of user "us_username user"] in auto)
  show ?case
    using aborted_refl [OF ok(2)] 1 bump same
    by (auto simp: wp_andThen wp_on_db wp_when wp_if wp_ret intro!: wp_ensure_not_last)
qed (simp add: aborted_refl ok)

lemma wp_reset_password:
  assumes ok: "users_ok (ac_db st)" "redis_ok (ac_redis st)"
  shows "wp (reset_password hash now actor i new_password ip)
    (\<lambda>u st'. changes st i u st' \<and>
       (\<exists>user. get_user (ac_db st) i = Some user \<and> us_session_version user < us_session_version u))
    (\<lambda>_. aborted st) st"
  unfolding reset_password_def
proof (rule wp_existing_user, goal_cases)
  case (1 user)
  let ?u = "user\<lparr>us_password_hash := hash_password hash new_password\<rparr>"
  show ?case unfolding wp_andThen
  proof (rule wp_bump [OF ok(2)], rule wp_save_user [where st = st])
    fix r assume "fewer (ac_redis st) r"
    then show "aborted st (st\<lparr>ac_redis := r\<rparr>)" by (rule aborted_redis)
  qed (use ok 1 in \<open>auto simp: changes_def active_admin_def\<close>)
qed (simp add: aborted_refl ok)

definition removed :: "access \<Rightarrow> uuid \<Rightarrow> access \<Rightarrow> bool" where
  "removed st i st' \<longleftrightarrow> aborted st st' \<and> users_ok (ac_db st') \<and>
     users (ac_db st') = delete_row us_id i (users (ac_db st)) \<and>
     (\<exists>user. get_user (ac_db st) i = Some user \<and> (active_admin user \<longrightarrow> other_admin (ac_db st) i))"

lemma users_ok_delete:
  assumes "users_ok db" "users db' = delete_row us_id i (users db)" "tenants db' = tenants db"
  shows "users_ok db'"
  using assms by (auto simp: users_ok_def user_tenant_alt delete_row_def)

lemma wp_delete_user:
  assumes ok: "users_ok (ac_db st)" "redis_ok (ac_redis st)"
  shows "wp (delete_user now actor i ip) (\<lambda>_. removed st i) (\<lambda>_. aborted st) st"
  unfolding delete_user_def
proof (rule wp_existing_user, goal_cases)
  case (1 user)
  have gone: "removed st (us_id user) (st\<lparr>ac_redis := r,
      ac_db := cascade_delete_user (us_id user) (ac_db st\<lparr>audit_events := evs\<rparr>)\<rparr>)"
    if "fewer (ac_redis st) r" "active_admin user \<longrightarrow> other_admin (ac_db st) (us_id user)" for r evs
  proof -
    have "users_ok (cascade_delete_user (us_id user) (ac_db st\<lparr>audit_events := evs\<rparr>))"
      by (rule users_ok_delete [OF ok(1), of _ "us_id user"]) (simp_all add: cascade_delete_user_def)
    with that 1 show ?thesis by (simp add: removed_def aborted_redis cascade_delete_user_def)
  qed
  show ?case
    using 1 aborted_refl [OF ok(2)]
    by (auto simp: wp_andThen wp_on_db record_event_def wp_modify gone
        intro!: wp_ensure_not_last wp_revoke_all_fewer ok)
qed (simp add: aborted_refl ok)

definition added :: "access \<Rightarrow> user \<Rightarrow> access \<Rightarrow> bool" where
  "added st u st' \<longleftrightarrow> ac_redis st' = ac_redis st \<and> ac_inflight st' = ac_inflight st \<and>
     ac_issued st' = ac_issued st \<and> ac_user_ids st' = ac_user_ids st \<and>
     get_user (ac_db st) (us_id u) = None \<and> users_ok (ac_db st') \<and>
     users (ac_db st') = users (ac_db st) @ [u]"

lemma users_ok_insert:
  assumes "users_ok db" "get_user db (us_id u) = None" "role_tenant_ok u"
    "us_tenant_id u \<noteq> None \<longrightarrow> user_tenant db u \<noteq> None"
    "\<not> list_ex (\<lambda>o'. us_id o' \<noteq> us_id u \<and> citext_eq (us_username o') (us_username u)) (users db)"
  shows "users_ok (db\<lparr>users := users db @ [u], audit_events := evs\<rparr>)"
proof -
  have "us_id o' \<noteq> us_id u" if "o' \<in> set (users db)" for o'
    by (rule row_NoneD [OF assms(2) [unfolded get_user_def] that])
  with assms show ?thesis
    by (auto simp: users_ok_def get_user_def row_None_iff list_ex_iff citext_eq_def)
qed

lemma wp_insert_user:
  assumes "users_ok db" "\<And>e. E e db"
    "\<lbrakk>get_user db (us_id u) = None; \<And>evs. users_ok (db\<lparr>users := users db @ [u], audit_events := evs\<rparr>)\<rbrakk>
       \<Longrightarrow> Q () (db\<lparr>users := users db @ [u]\<rparr>)"
  shows "wp (insert_user u) Q E db"
  using assms users_ok_insert [OF assms(1), of u]
  by (auto simp: insert_user_def wp_simps wp_check_user_row)

lemma wp_create_user:
  assumes ok: "users_ok (ac_db st)" "redis_ok (ac_redis st)"
  shows "wp (create_user hash new_id now actor username password role tenant_id ip)
    (\<lambda>u st'. added st u st' \<and> us_id u = new_id \<and> us_session_version u = 1) (\<lambda>_. aborted st) st"
  using aborted_refl [OF ok(2)]
  by (auto simp: create_user_def Let_def wp_on_db wp_andThen validate_role_tenant_def ensure_unique_username_def
      record_event_def wp_simps added_def split: option.splits list.splits intro!: wp_insert_user ok)

lemma wp_bootstrap_admin:
  assumes ok: "users_ok (ac_db st)" "redis_ok (ac_redis st)"
  shows "wp (on_db (bootstrap_admin hash cu cp new_id now username password ip))
    (\<lambda>u st'. st' = st \<or> added st u st' \<and> us_id u = new_id) (\<lambda>_. aborted st) st"
  using aborted_refl [OF ok(2)]
  by (auto simp: bootstrap_admin_def Let_def wp_on_db wp_andThen record_event_def wp_simps added_def
      split: option.splits intro!: wp_insert_user ok)

text \<open>
  The two operations that give a session a version, and to the session \<open>sid\<close>
  only: the version of the row they write.
\<close>

definition regrant :: "redis \<Rightarrow> string \<Rightarrow> uuid \<times> int \<Rightarrow> redis \<Rightarrow> bool" where
  "regrant r sid g r' \<longleftrightarrow> redis_ok r' \<and>
     (\<forall>x. ident r' x = None \<or> ident r' x = ident r x \<or> x = sid \<and> ident r' x = Some g)"

definition regranted :: "access \<Rightarrow> string \<Rightarrow> user \<Rightarrow> access \<Rightarrow> bool" where
  "regranted st sid u st' \<longleftrightarrow> regrant (ac_redis st) sid (us_id u, us_session_version u) (ac_redis st') \<and>
     ac_inflight st' = ac_inflight st \<and> ac_issued st' = ac_issued st \<and> ac_user_ids st' = ac_user_ids st \<and>
     users_ok (ac_db st') \<and>
     (\<exists>user. get_user (ac_db st) (us_id u) = Some user \<and> us_session_version user \<le> us_session_version u \<and>
       (active_admin user \<longrightarrow> active_admin u) \<and>
       users (ac_db st') = update_row us_id (us_id u) (\<lambda>_. u) (users (ac_db st)))"

lemma fewer_regrant: "fewer r r' \<Longrightarrow> regrant r sid g r'"
  unfolding fewer_def regrant_def by metis

lemma regrant_fewer: "regrant r sid g r' \<Longrightarrow> fewer r' r'' \<Longrightarrow> regrant r sid g r''"
  unfolding regrant_def fewer_def by metis

lemma regrant_update:
  assumes "regrant r sid g r'" "redis_ok r''"
  shows "ident r'' = (ident r')(sid \<mapsto> g) \<Longrightarrow> regrant r sid g r''"
    and "ident r'' = (ident r')(x := None) \<Longrightarrow> regrant r sid g r''"
  using assms unfolding regrant_def by (metis fun_upd_apply)+

text \<open>A row whose name, role and tenant stay meets the constraints it met before.\<close>

lemma wp_flush_kept:
  assumes ok: "users_ok db" and before: "get_user db (us_id u) = Some before"
    and kept: "us_username u = us_username before" "us_role u = us_role before" "us_tenant_id u = us_tenant_id before"
    and Q: "\<And>t. users_ok (db\<lparr>users := update_row us_id (us_id u) (\<lambda>_. u\<lparr>us_updated_at := t\<rparr>) (users db)\<rparr>) \<Longrightarrow>
      Q (u\<lparr>us_updated_at := t\<rparr>) (db\<lparr>users := update_row us_id (us_id u) (\<lambda>_. u\<lparr>us_updated_at := t\<rparr>) (users db)\<rparr>)"
  shows "wp (flush_user now before u) Q E db"
proof -
  have id: "us_id before = us_id u" and mem: "before \<in> set (users db)"
    using get_user_id [OF before] get_user_in [OF before] by simp_all
  have "lower (us_username o') \<noteq> lower (us_username before)" if "o' \<in> set (users db)" "us_id o' \<noteq> us_id u" for o'
    using ok that mem id by (auto simp: users_ok_def distinct_map inj_on_def)
  then have "wp (check_user_row (u\<lparr>us_updated_at := now\<rparr>)) Q' E' db = Q' () db" for Q' E'
    using ok mem kept
    by (auto simp: wp_check_user_row users_ok_def role_tenant_ok_def list_ex_iff citext_eq_def user_tenant_def)
  then have total: "wp (flush_user now before u) (\<lambda>_ _. True) (\<lambda>_ _. False) db"
    by (simp add: flush_user_def Let_def wp_simps)
  have "wp (flush_user now before u) Q (\<lambda>_ _. True) db"
    by (rule wp_flush_user [OF ok]) (use before id Q in auto)
  from wp_conj [OF this total] show ?thesis by (rule wp_mono) simp_all
qed

lemma wp_regrant_save:
  assumes ok: "users_ok (ac_db st)" and before: "get_user (ac_db st) (us_id u) = Some before"
    and kept: "us_username u = us_username before" "us_role u = us_role before"
      "us_tenant_id u = us_tenant_id before" "us_status u = us_status before"
      "us_session_version before \<le> us_session_version u"
    and r: "regrant (ac_redis st) sid (us_id u, us_session_version u) r"
    and Q: "\<And>t st'. regranted st sid (u\<lparr>us_updated_at := t\<rparr>) st' \<Longrightarrow> Q (h (u\<lparr>us_updated_at := t\<rparr>)) st'"
  shows "wp (andThen (on_db (flush_user now before u)) (\<lambda>flushed.
    andThen (on_db (record_event now (Some flushed) action (Some ''user'') (JUuid (g flushed)) ''success'' ip None))
      (\<lambda>_. ret (h flushed)))) Q E (st\<lparr>ac_redis := r\<rparr>)"
proof -
  have "wp (flush_user now before u)
     (\<lambda>x d. wp (on_db (record_event now (Some x) action (Some ''user'') (JUuid (g x)) ''success'' ip None))
        (\<lambda>_. Q (h x)) E (st\<lparr>ac_redis := r, ac_db := d\<rparr>)) (\<lambda>e d. E e (st\<lparr>ac_redis := r, ac_db := d\<rparr>)) (ac_db st)"
  proof (rule wp_flush_kept [OF ok before kept(1-3)], rule wp_record_event_access, rule Q)
    fix t evs
    let ?d = "ac_db st\<lparr>users := update_row us_id (us_id u) (\<lambda>_. u\<lparr>us_updated_at := t\<rparr>) (users (ac_db st))\<rparr>"
    assume d: "users_ok ?d"
    have "users_ok (?d\<lparr>audit_events := evs\<rparr>)" by (rule users_ok_cong [THEN iffD2, OF _ _ d]) simp_all
    then show "regranted st sid (u\<lparr>us_updated_at := t\<rparr>) ((st\<lparr>ac_redis := r, ac_db := ?d\<rparr>)
        \<lparr>ac_db := ac_db (st\<lparr>ac_redis := r, ac_db := ?d\<rparr>)\<lparr>audit_events := evs\<rparr>\<rparr>)"
      using r before kept by (simp add: regranted_def active_admin_def)
  qed
  then show ?thesis by (simp add: wp_andThen wp_on_db wp_ret)
qed

lemma wp_failed_login: "redis_ok (ac_redis st) \<Longrightarrow> wp (failed_login now actor username ip) Q (\<lambda>_. aborted st) st"
  by (simp add: failed_login_def record_event_def wp_simps aborted_refl)

lemma wp_create_regrant:
  assumes "redis_ok (ac_redis st)" "0 < ss_idle_seconds cfg"
    "\<And>r. \<lbrakk>regrant (ac_redis st) sid (i, v) r; ident r sid = Some (i, v)\<rbrakk> \<Longrightarrow> Q sid (st\<lparr>ac_redis := r\<rparr>)"
  shows "wp (on_redis (create_session cfg now sid i v ip)) Q E st"
  unfolding wp_on_redis
  by (rule wp_mono [OF wp_create_session [OF assms(1,2)]]) (use assms(3) in \<open>auto simp: regrant_def\<close>)

lemma wp_login:
  assumes ok: "users_ok (ac_db st)" "redis_ok (ac_redis st)" "0 < ss_idle_seconds cfg"
  shows "wp (login verify cfg now sid username password ip)
    (\<lambda>res st'. lr_session_id res = sid \<and> regranted st sid (lr_user res) st') (\<lambda>_. aborted st) st"
proof -
  have granted: "wp (on_redis (create_session cfg now sid (us_id user) (us_session_version user) ip))
     (\<lambda>session_id. wp (andThen (on_db (flush_user now user (user\<lparr>us_last_login_at := Some now\<rparr>))) (\<lambda>user'.
        andThen (on_db (record_event now (Some user') ''auth.login'' (Some ''user'')
          (JUuid (us_id user')) ''success'' ip None)) (\<lambda>_.
        ret \<lparr> lr_session_id = session_id, lr_user = user' \<rparr>)))
      (\<lambda>res st'. lr_session_id res = sid \<and> regranted st sid (lr_user res) st') (\<lambda>_. aborted st)) (\<lambda>_. aborted st) st"
    if "user \<in> set (users (ac_db st))" for user
  proof (rule wp_create_regrant [OF ok(2,3)], rule wp_regrant_save [OF ok(1)])
    show "get_user (ac_db st) (us_id (user\<lparr>us_last_login_at := Some now\<rparr>)) = Some user"
      using row_distinct [of us_id "users (ac_db st)" user] ok(1) that by (simp add: users_ok_def get_user_def)
  qed (simp_all add: regrant_def)
  show ?thesis
  proof (cases "filter (\<lambda>u. citext_eq (us_username u) username) (users (ac_db st))")
    case Nil
    then show ?thesis by (simp add: login_def wp_andThen wp_gets wp_one_or_none wp_failed_login ok)
  next
    case (Cons user rest)
    then have "user \<in> set (filter (\<lambda>u. citext_eq (us_username u) username) (users (ac_db st)))" by simp
    then have "user \<in> set (users (ac_db st))" by simp
    from granted [OF this] show ?thesis
      using Cons by (cases rest)
        (simp_all add: login_def wp_andThen wp_gets wp_one_or_none wp_failed_login wp_if wp_ret ok aborted_refl)
  qed
qed

section \<open>Changing one's own password\<close>

lemma wp_password_loop:
  assumes ok: "redis_ok r" "0 < ss_idle_seconds cfg" and owner: "\<And>w. ident r cur = Some w \<Longrightarrow> fst w = i"
  shows "wp (for_each sessions (\<lambda>s.
      if sd_sid s = cur then andThen (on_redis (set_session_version cfg now cur v)) (\<lambda>_. ret ())
      else on_redis (revoke_session now (sd_sid s))))
    (\<lambda>_ st'. \<exists>r'. st' = st\<lparr>ac_redis := r'\<rparr> \<and> regrant r cur (i, v) r') E (st\<lparr>ac_redis := r\<rparr>)"
proof (rule wp_for_each)
  show "\<exists>r'. st\<lparr>ac_redis := r\<rparr> = st\<lparr>ac_redis := r'\<rparr> \<and> regrant r cur (i, v) r'"
    using ok(1) by (intro exI [of _ r]) (simp add: regrant_def)
next
  fix s st'
  assume "\<exists>r'. st' = st\<lparr>ac_redis := r'\<rparr> \<and> regrant r cur (i, v) r'"
  then obtain r' where st': "st' = st\<lparr>ac_redis := r'\<rparr>" and r': "regrant r cur (i, v) r'" by blast
  have ok': "redis_ok r'" using r' by (simp add: regrant_def)
  have owner': "fst w = i" if "ident r' cur = Some w" for w
    using that r' owner unfolding regrant_def by (metis fst_conv option.distinct(1) option.inject)
  have set: "wp (set_session_version cfg now cur v) (\<lambda>_ r''. regrant r cur (i, v) r'') (\<lambda>_ _. False) r'"
    by (rule wp_mono [OF wp_set_session_version [OF ok' ok(2)]])
      (use owner' in \<open>auto intro: regrant_update [OF r'] split: if_splits\<close>)
  have drop: "wp (revoke_session now sid) (\<lambda>_ r''. regrant r cur (i, v) r'') (\<lambda>_ _. False) r'" for sid
    by (rule wp_mono [OF wp_revoke_session [OF ok']]) (auto intro: regrant_update [OF r'])
  show "wp (if sd_sid s = cur then andThen (on_redis (set_session_version cfg now cur v)) (\<lambda>_. ret ())
      else on_redis (revoke_session now (sd_sid s)))
    (\<lambda>_ st'. \<exists>r'. st' = st\<lparr>ac_redis := r'\<rparr> \<and> regrant r cur (i, v) r') E st'"
  proof (cases "sd_sid s = cur")
    case True
    show ?thesis unfolding st' if_P [OF True] wp_andThen wp_on_redis wp_ret
      by (simp, rule wp_mono [OF set]) auto
  next
    case False
    show ?thesis unfolding st' if_not_P [OF False] wp_on_redis
      by (simp, rule wp_mono [OF drop]) auto
  qed
qed

lemma wp_change_own_password:
  assumes ok: "users_ok (ac_db st)" "redis_ok (ac_redis st)" "0 < ss_idle_seconds cfg"
    and user: "get_user (ac_db st) (us_id user) = Some user"
    and owner: "\<And>w. ident (ac_redis st) cur = Some w \<Longrightarrow> fst w = us_id user"
  shows "wp (change_own_password hash verify cfg now user cur current_password new_password ip)
    (\<lambda>u st'. regranted st cur u st' \<and> us_id u = us_id user) (\<lambda>_. aborted st) st"
proof (cases "verify_password verify current_password (us_password_hash user)")
  case False
  then show ?thesis
    by (simp add: change_own_password_def record_event_def wp_simps aborted_refl ok)
next
  case True
  let ?u = "user\<lparr>us_password_hash := hash_password hash new_password,
      us_session_version := us_session_version user + 1\<rparr>"
  let ?finish = "andThen (on_db (flush_user now user ?u)) (\<lambda>flushed.
      andThen (on_db (record_event now (Some flushed) ''user.password.change'' (Some ''user'')
        (JUuid (us_id user)) ''success'' ip None)) (\<lambda>_. ret flushed))"
  have finish: "wp ?finish (\<lambda>u st'. regranted st cur u st' \<and> us_id u = us_id user) (\<lambda>_. aborted st) (st\<lparr>ac_redis := r\<rparr>)"
    if "regrant (ac_redis st) cur (us_id user, us_session_version user + 1) r" for r
    by (rule wp_regrant_save [OF ok(1), where h = "\<lambda>f. f" and g = "\<lambda>_. us_id user"]) (use user that in simp_all)
  have loop: "wp (for_each sessions (\<lambda>s. if sd_sid s = cur
        then andThen (on_redis (set_session_version cfg now cur (us_session_version ?u))) (\<lambda>_. ret ())
        else on_redis (revoke_session now (sd_sid s))))
      (\<lambda>_. wp ?finish (\<lambda>u st'. regranted st cur u st' \<and> us_id u = us_id user) (\<lambda>_. aborted st)) (\<lambda>_. aborted st) (st\<lparr>ac_redis := r\<rparr>)"
    if r: "fewer (ac_redis st) r" for r sessions
  proof (rule wp_mono [OF wp_password_loop [where i = "us_id user" and E = "\<lambda>_ _. False"]])
    show "redis_ok r" using r by (simp add: fewer_def)
    show "fst w = us_id user" if "ident r cur = Some w" for w
      using owner that r unfolding fewer_def by (metis option.distinct(1))
    fix x st'
    assume "\<exists>r'. st' = st\<lparr>ac_redis := r'\<rparr> \<and> regrant r cur (us_id user, us_session_version ?u) r'"
    then obtain r' where r': "st' = st\<lparr>ac_redis := r'\<rparr>" "regrant r cur (us_id user, us_session_version ?u) r'" by blast
    then have "regrant (ac_redis st) cur (us_id user, us_session_version user + 1) r'"
      using r unfolding fewer_def regrant_def by (simp, metis)
    from finish [OF this] r'(1) show "wp ?finish (\<lambda>u st'. regranted st cur u st' \<and> us_id u = us_id user) (\<lambda>_. aborted st) st'" by simp
  qed (simp_all add: ok)
  have "wp (list_for_user now (us_id user)) (\<lambda>sessions r. wp (for_each sessions (\<lambda>s. if sd_sid s = cur
        then andThen (on_redis (set_session_version cfg now cur (us_session_version ?u))) (\<lambda>_. ret ())
        else on_redis (revoke_session now (sd_sid s))))
      (\<lambda>_. wp ?finish (\<lambda>u st'. regranted st cur u st' \<and> us_id u = us_id user) (\<lambda>_. aborted st)) (\<lambda>_. aborted st) (st\<lparr>ac_redis := r\<rparr>))
      (\<lambda>_ r. aborted st (st\<lparr>ac_redis := r\<rparr>)) (ac_redis st)"
    by (rule wp_mono [OF wp_list_for_user [OF ok(2)]]) (use loop in auto)
  then show ?thesis
    using True by (simp add: change_own_password_def Let_def wp_andThen wp_on_redis)
qed

end
