(* ===== verification/Revocation.thy ===== *)
theory Revocation
  imports Access
begin

text \<open>
  Requests interleave between the two Redis commands of the session lookup, the
  rest of a request being one step.  What holds of sessions, versions and
  administrators along every such run, and the properties of the access layer.
\<close>

section \<open>Interleaved requests\<close>

text \<open>
  A request that carries a session cookie reads the session, and later writes it
  back, finds its user and does its work; other requests run in between.  The
  second half is \<open>resume_request\<close>.
\<close>

definition authenticated_request ::
  "(string \<Rightarrow> string) \<Rightarrow> (string \<Rightarrow> string \<Rightarrow> bool option) \<Rightarrow> session_settings \<Rightarrow> timestamp
   \<Rightarrow> string option \<Rightarrow> user_request \<Rightarrow> unit accprog" where
  "authenticated_request hash verify cfg now cookie req =
     request (andThen (get_current_user cfg now cookie) (\<lambda>p. serve hash verify cfg now p req))"

definition resume_request ::
  "(string \<Rightarrow> string) \<Rightarrow> (string \<Rightarrow> string \<Rightarrow> bool option) \<Rightarrow> session_settings \<Rightarrow> timestamp
   \<Rightarrow> SessionData \<Rightarrow> user_request \<Rightarrow> unit accprog" where
  "resume_request hash verify cfg now s req =
     andThen (on_redis (refresh_session cfg now s)) (\<lambda>refreshed.
     andThen (on_db (principal_of_session (sd_sid s) refreshed)) (\<lambda>p.
     serve hash verify cfg now p req))"

lemma authenticated_request_split:
  "authenticated_request hash verify cfg now (Some sid) req =
     request (andThen (on_redis (get_session_read now sid)) (\<lambda>session.
       case session of
         None \<Rightarrow> raise unauthenticated
       | Some s \<Rightarrow> andThen (on_redis (refresh_session cfg now s)) (\<lambda>refreshed.
           andThen (on_db (principal_of_session sid refreshed)) (\<lambda>p. serve hash verify cfg now p req))))"
  by (rule ext) (auto simp: authenticated_request_def get_current_user_def resolve_current_user_def
      get_session_def request_def andThen_def on_redis_def ret_def raise_def split: prod.splits sum.splits option.splits)

fun new_ids :: "user_request \<Rightarrow> uuid set" where
  "new_ids (UserCreateRequest i _ _ _ _) = {i}"
| "new_ids _ = {}"

text \<open>
  Identifiers of sessions and of users are drawn at random and taken to be new.
  Requests of other kinds leave the users alone.
\<close>

inductive access_step ::
  "(string \<Rightarrow> string) \<Rightarrow> (string \<Rightarrow> string \<Rightarrow> bool option) \<Rightarrow> session_settings \<Rightarrow> access \<Rightarrow> access \<Rightarrow> bool"
  for hash verify cfg where
  login_step: "\<lbrakk>sid \<notin> set (ac_issued st);
      request (login verify cfg now sid username password ip) st = (res, st')\<rbrakk>
    \<Longrightarrow> access_step hash verify cfg st (st'\<lparr>ac_issued := sid # ac_issued st\<rparr>)"
| bootstrap_step: "\<lbrakk>i \<notin> set (ac_user_ids st);
      request (on_db (bootstrap_admin hash cu cp i now username password ip)) st = (res, st')\<rbrakk>
    \<Longrightarrow> access_step hash verify cfg st (st'\<lparr>ac_user_ids := i # ac_user_ids st\<rparr>)"
| arrive_step: "get_session_read now sid (ac_redis st) = (Inr found, r)
    \<Longrightarrow> access_step hash verify cfg st (st\<lparr>ac_redis := r,
         ac_inflight := (case found of None \<Rightarrow> ac_inflight st | Some s \<Rightarrow> s # ac_inflight st)\<rparr>)"
| resume_step: "\<lbrakk>s \<in> set (ac_inflight st); new_ids req \<inter> set (ac_user_ids st) = {};
      request (resume_request hash verify cfg now s req) st = (res, st')\<rbrakk>
    \<Longrightarrow> access_step hash verify cfg st (st'\<lparr>ac_inflight := remove1 s (ac_inflight st),
         ac_user_ids := (case req of UserCreateRequest i _ _ _ _ \<Rightarrow> [i] | _ \<Rightarrow> []) @ ac_user_ids st\<rparr>)"
| other_step: "\<lbrakk>users d = users (ac_db st); users_ok d\<rbrakk> \<Longrightarrow> access_step hash verify cfg st (st\<lparr>ac_db := d\<rparr>)"

text \<open>The sessions known to Redis or to a request under way, with owner and version.\<close>

definition holdings :: "access \<Rightarrow> (string \<times> uuid \<times> int) set" where
  "holdings st = {(x, i, v). ident (ac_redis st) x = Some (i, v)} \<union>
     {(sd_sid s, sd_user_id s, sd_session_version s) | s. s \<in> set (ac_inflight st)}"

definition access_inv :: "access \<Rightarrow> bool" where
  "access_inv st \<longleftrightarrow> redis_ok (ac_redis st) \<and> users_ok (ac_db st) \<and>
     us_id ` set (users (ac_db st)) \<subseteq> set (ac_user_ids st) \<and>
     (\<forall>x i v. (x, i, v) \<in> holdings st \<longrightarrow> x \<in> set (ac_issued st) \<and> i \<in> set (ac_user_ids st) \<and>
        (\<forall>w. versions (ac_db st) i = Some w \<longrightarrow> v \<le> w) \<and>
        (\<forall>j w. (x, j, w) \<in> holdings st \<longrightarrow> j = i))"

text \<open>A version of a user that is no longer good, and a session that is no longer good.\<close>

definition stale :: "db \<Rightarrow> uuid \<Rightarrow> int \<Rightarrow> bool" where
  "stale db i v \<longleftrightarrow> (\<forall>w. versions db i = Some w \<longrightarrow> v < w)"

definition dead :: "access \<Rightarrow> string \<Rightarrow> bool" where
  "dead st x \<longleftrightarrow> x \<in> set (ac_issued st) \<and> (\<forall>i v. (x, i, v) \<in> holdings st \<longrightarrow> stale (ac_db st) i v)"

definition has_admin :: "db \<Rightarrow> bool" where
  "has_admin db \<longleftrightarrow> (\<exists>u\<in>set (users db). active_admin u)"

text \<open>
  What a request may do to all this: sessions \<open>X\<close> may get the present version
  of their owner, users \<open>N\<close> may be new, and versions only grow.
\<close>

definition versions_grow :: "uuid set \<Rightarrow> db \<Rightarrow> db \<Rightarrow> bool" where
  "versions_grow N db db' \<longleftrightarrow>
     (\<forall>i. i \<notin> N \<longrightarrow> versions db i = None \<longrightarrow> versions db' i = None) \<and>
     (\<forall>i v w. versions db i = Some v \<longrightarrow> versions db' i = Some w \<longrightarrow> v \<le> w)"

definition evolves :: "string set \<Rightarrow> uuid set \<Rightarrow> access \<Rightarrow> access \<Rightarrow> bool" where
  "evolves X N st st' \<longleftrightarrow> redis_ok (ac_redis st') \<and> users_ok (ac_db st') \<and>
     ac_issued st' = ac_issued st \<and> ac_user_ids st' = ac_user_ids st \<and> ac_inflight st' = ac_inflight st \<and>
     us_id ` set (users (ac_db st')) \<subseteq> us_id ` set (users (ac_db st)) \<union> N \<and>
     (\<forall>x i v. (x, i, v) \<in> holdings st' \<longrightarrow> (x, i, v) \<in> holdings st \<or>
        x \<in> X \<and> versions (ac_db st') i = Some v \<and> (\<forall>j w. (x, j, w) \<in> holdings st \<longrightarrow> j = i)) \<and>
     versions_grow N (ac_db st) (ac_db st') \<and> (has_admin (ac_db st) \<longrightarrow> has_admin (ac_db st'))"

section \<open>Every operation evolves the state\<close>

lemma row_update_const:
  "key x = j \<Longrightarrow> row key k (update_row key j (\<lambda>_. x) rs) =
     (if k = j then map_option (\<lambda>_. x) (row key k rs) else row key k rs)"
  by (induction rs) (auto simp: row_Cons update_row_def)

lemma update_row_ids: "us_id ` set (update_row us_id (us_id u) (\<lambda>_. u) us) = us_id ` set us"
proof -
  have "map us_id (update_row us_id (us_id u) (\<lambda>_. u) us) = map us_id us" by (auto simp: update_row_def)
  then show ?thesis by (metis list.set_map)
qed

lemma versions_update:
  assumes "get_user db (us_id u) = Some user" "users db' = update_row us_id (us_id u) (\<lambda>_. u) (users db)"
  shows "versions db' i = (if i = us_id u then Some (us_session_version u) else versions db i)"
  using assms by (simp add: versions_def get_user_def row_update_const)

lemma versions_grow_update:
  assumes user: "get_user db (us_id u) = Some user"
    and "users db' = update_row us_id (us_id u) (\<lambda>_. u) (users db)"
    and "us_session_version user \<le> us_session_version u"
  shows "versions_grow N db db'"
proof -
  have "versions db (us_id u) = Some (us_session_version user)" using user by (simp add: versions_def)
  with assms(3) show ?thesis by (auto simp: versions_grow_def versions_update [OF assms(1,2)])
qed

lemma versions_delete:
  assumes "users db' = delete_row us_id i (users db)"
  shows "versions db' j = (if j = i then None else versions db j)"
  using assms by (simp add: versions_def get_user_def table_simps)

lemma versions_insert:
  assumes "users db' = users db @ [u]" "get_user db (us_id u) = None"
  shows "versions db' i = (if i = us_id u then Some (us_session_version u) else versions db i)"
  using assms by (auto simp: versions_def get_user_def table_simps row_Cons split: option.splits)

lemma versions_same: "users db' = users db \<Longrightarrow> versions db' i = versions db i"
  by (simp add: versions_def get_user_def)

lemma fewer_holdings:
  assumes "fewer (ac_redis st) (ac_redis st')" "ac_inflight st' = ac_inflight st"
  shows "holdings st' \<subseteq> holdings st"
  using assms by (auto simp: holdings_def fewer_def) (metis option.distinct(1))

lemma regrant_holdings:
  assumes "regrant (ac_redis st) x (i, v) (ac_redis st')" "ac_inflight st' = ac_inflight st"
  shows "holdings st' \<subseteq> insert (x, i, v) (holdings st)"
  using assms by (auto simp: holdings_def regrant_def) (metis option.distinct(1) option.inject prod.inject)+

text \<open>A rewritten row, with an administrator left.\<close>

lemma update_keeps_admin:
  assumes "has_admin db" "get_user db (us_id u) = Some user"
    and other: "active_admin user \<and> \<not> active_admin u \<longrightarrow> other_admin db (us_id u)"
    and users: "users db' = update_row us_id (us_id u) (\<lambda>_. u) (users db)"
    and ok: "users_ok db"
  shows "has_admin db'"
proof -
  obtain a where a: "a \<in> set (users db)" "active_admin a" using assms(1) by (auto simp: has_admin_def)
  have kept: "b \<in> set (users db')" if "b \<in> set (users db)" "us_id b \<noteq> us_id u" for b
    using that users by (auto simp: set_update_row)
  have written: "u \<in> set (users db')"
    using get_user_in [OF assms(2)] get_user_id [OF assms(2)] users by (force simp: set_update_row)
  show ?thesis
  proof (cases "us_id a = us_id u")
    case True
    then have "a = user"
      using a ok assms(2) row_distinct [of us_id "users db" a] by (simp add: users_ok_def get_user_def)
    then show ?thesis using a other written kept by (auto simp: has_admin_def other_admin_def)
  next
    case False
    then show ?thesis using a kept by (auto simp: has_admin_def)
  qed
qed

lemma delete_keeps_admin:
  assumes "has_admin db" "get_user db i = Some user" "active_admin user \<longrightarrow> other_admin db i"
    "users db' = delete_row us_id i (users db)" "users_ok db"
  shows "has_admin db'"
proof -
  obtain a where a: "a \<in> set (users db)" "active_admin a" using assms(1) by (auto simp: has_admin_def)
  show ?thesis
  proof (cases "us_id a = i")
    case True
    then have "a = user"
      using a assms(2,5) row_distinct [of us_id "users db" a] by (simp add: users_ok_def get_user_def)
    then show ?thesis using a assms(3,4) by (auto simp: has_admin_def other_admin_def)
  next
    case False
    then show ?thesis using a assms(4) by (auto simp: has_admin_def)
  qed
qed

lemma aborted_evolves:
  assumes "aborted st st'" "users_ok (ac_db st)"
  shows "evolves X N st (st'\<lparr>ac_db := ac_db st\<rparr>)"
proof -
  have "holdings (st'\<lparr>ac_db := ac_db st\<rparr>) \<subseteq> holdings st"
    by (rule fewer_holdings) (use assms in \<open>simp_all add: aborted_def\<close>)
  with assms show ?thesis by (auto simp: evolves_def aborted_def fewer_def versions_grow_def)
qed

lemma changes_evolves:
  assumes "changes st i u st'" "users_ok (ac_db st)"
  shows "evolves X N st st'"
proof -
  obtain user where user: "rewrote st user u st'" "us_session_version user \<le> us_session_version u"
      "active_admin user \<and> \<not> active_admin u \<longrightarrow> other_admin (ac_db st) (us_id u)"
    using assms(1) by (auto simp: changes_def rewrote_def)
  have id: "us_id u = us_id user" "get_user (ac_db st) (us_id u) = Some user"
      "users (ac_db st') = update_row us_id (us_id u) (\<lambda>_. u) (users (ac_db st))"
      "aborted st st'" "users_ok (ac_db st')"
    using user(1) by (simp_all add: rewrote_def)
  have "holdings st' \<subseteq> holdings st"
    by (rule fewer_holdings) (use id(4) in \<open>simp_all add: aborted_def\<close>)
  moreover have "versions_grow N (ac_db st) (ac_db st')"
    by (rule versions_grow_update [OF id(2,3) user(2)])
  moreover have "us_id ` set (users (ac_db st')) \<subseteq> us_id ` set (users (ac_db st))"
    by (simp add: id(3) update_row_ids)
  moreover have "has_admin (ac_db st) \<longrightarrow> has_admin (ac_db st')"
    using update_keeps_admin [OF _ id(2) user(3) id(3) assms(2)] by blast
  ultimately show ?thesis using id(4,5) by (auto simp: evolves_def aborted_def fewer_def)
qed

lemma removed_evolves:
  assumes "removed st i st'" "users_ok (ac_db st)"
  shows "evolves X N st st'"
proof -
  obtain user where user: "get_user (ac_db st) i = Some user" "active_admin user \<longrightarrow> other_admin (ac_db st) i"
    and st': "aborted st st'" "users_ok (ac_db st')" "users (ac_db st') = delete_row us_id i (users (ac_db st))"
    using assms(1) by (auto simp: removed_def)
  have "holdings st' \<subseteq> holdings st"
    by (rule fewer_holdings) (use st' in \<open>simp_all add: aborted_def\<close>)
  moreover have "has_admin (ac_db st) \<longrightarrow> has_admin (ac_db st')"
    using delete_keeps_admin [OF _ user st'(3) assms(2)] by blast
  ultimately show ?thesis
    using st' by (auto simp: evolves_def aborted_def fewer_def versions_grow_def versions_delete [OF st'(3)])
qed

lemma added_evolves:
  assumes "added st u st'" "redis_ok (ac_redis st)"
  shows "evolves X {us_id u} st st'"
proof -
  note st' = assms(1) [unfolded added_def]
  have "holdings st' = holdings st" using st' by (simp add: holdings_def)
  moreover have "versions (ac_db st') i = (if i = us_id u then Some (us_session_version u) else versions (ac_db st) i)" for i
    using st' by (intro versions_insert) simp_all
  moreover have "versions (ac_db st) (us_id u) = None" using st' by (simp add: versions_def)
  ultimately show ?thesis
    using st' assms(2) by (auto simp: evolves_def versions_grow_def has_admin_def)
qed

lemma regranted_evolves:
  assumes "regranted st x u st'" "users_ok (ac_db st)"
    and owner: "\<And>j w. (x, j, w) \<in> holdings st \<Longrightarrow> j = us_id u"
  shows "evolves {x} N st st'"
proof -
  obtain user where user: "get_user (ac_db st) (us_id u) = Some user" "us_session_version user \<le> us_session_version u"
      "active_admin user \<longrightarrow> active_admin u"
      "users (ac_db st') = update_row us_id (us_id u) (\<lambda>_. u) (users (ac_db st))"
    and st': "regrant (ac_redis st) x (us_id u, us_session_version u) (ac_redis st')"
      "ac_inflight st' = ac_inflight st" "ac_issued st' = ac_issued st" "ac_user_ids st' = ac_user_ids st"
      "users_ok (ac_db st')"
    using assms(1) by (auto simp: regranted_def)
  note h = regrant_holdings [OF st'(1,2)] and v = versions_update [OF user(1,4)]
  have "versions_grow N (ac_db st) (ac_db st')"
    by (rule versions_grow_update [OF user(1,4,2)])
  moreover have "us_id ` set (users (ac_db st')) \<subseteq> us_id ` set (users (ac_db st))"
    by (simp add: user(4) update_row_ids)
  moreover have "has_admin (ac_db st) \<longrightarrow> has_admin (ac_db st')"
    using update_keeps_admin [OF _ user(1) _ user(4) assms(2)] user(3) by blast
  moreover have "redis_ok (ac_redis st')" using st'(1) by (simp add: regrant_def)
  moreover have "(y, i, w) \<in> holdings st \<or> y \<in> {x} \<and> versions (ac_db st') i = Some w \<and>
      (\<forall>j w. (y, j, w) \<in> holdings st \<longrightarrow> j = i)" if "(y, i, w) \<in> holdings st'" for y i w
    using h owner that by (auto simp: v)
  ultimately show ?thesis using st' unfolding evolves_def by blast
qed

lemma evolves_none: "evolves {} {} st st' \<Longrightarrow> evolves X N st st'"
  by (auto simp: evolves_def versions_grow_def)

lemma versions_grow_trans: "versions_grow {} a b \<Longrightarrow> versions_grow {} b c \<Longrightarrow> versions_grow {} a c"
  unfolding versions_grow_def by (metis empty_iff option.exhaust order_trans)

lemma evolves_trans:
  assumes "evolves {} {} st st'" "evolves {} {} st' st''"
  shows "evolves {} {} st st''"
  using assms versions_grow_trans unfolding evolves_def by (auto 0 3)

lemma aborted_trans: "aborted st st' \<Longrightarrow> aborted st' st'' \<Longrightarrow> aborted st st''"
  by (auto simp: aborted_def intro: fewer_trans)

text \<open>The same after a session that is held has been written back.\<close>

lemma evolves_after:
  assumes "evolves {x} N st' st''" "ac_db st' = ac_db st" "holdings st' \<subseteq> holdings st"
    "ac_issued st' = ac_issued st" "ac_user_ids st' = ac_user_ids st" "ac_inflight st' = ac_inflight st"
    and held: "(x, i, v) \<in> holdings st'" and owner: "\<And>j w. (x, j, w) \<in> holdings st \<Longrightarrow> j = i"
  shows "evolves {x} N st st''"
proof -
  have "(y, k, u) \<in> holdings st \<or> y = x \<and> versions (ac_db st'') k = Some u \<and>
      (\<forall>j w. (y, j, w) \<in> holdings st \<longrightarrow> j = k)" if "(y, k, u) \<in> holdings st''" for y k u
  proof -
    have "(y, k, u) \<in> holdings st' \<or> y = x \<and> versions (ac_db st'') k = Some u \<and>
        (\<forall>j w. (y, j, w) \<in> holdings st' \<longrightarrow> j = k)"
      using assms(1) that unfolding evolves_def by blast
    with held owner assms(3) show ?thesis by blast
  qed
  with assms(1-6) show ?thesis unfolding evolves_def by simp
qed

section \<open>Requests\<close>

lemma aborted_users_evolves:
  assumes "aborted st st'" "users (ac_db st') = users (ac_db st)" "users_ok (ac_db st')"
  shows "evolves X N st st'"
proof -
  have "holdings st' \<subseteq> holdings st"
    by (rule fewer_holdings) (use assms in \<open>simp_all add: aborted_def\<close>)
  with assms show ?thesis
    by (auto simp: evolves_def aborted_def fewer_def versions_grow_def has_admin_def versions_same [OF assms(2)])
qed

lemma wp_logout_request:
  assumes "users_ok (ac_db st)" "redis_ok (ac_redis st)"
  shows "wp (logout_request now p) (\<lambda>_. evolves X N st) (\<lambda>_. aborted st) st"
proof -
  have "evolves X N st (st\<lparr>ac_redis := r, ac_db := ac_db st\<lparr>audit_events := evs\<rparr>\<rparr>)"
    if "redis_ok r" "ident r = (ident (ac_redis st))(pc_session_id p := None)" for r evs
  proof (rule aborted_users_evolves)
    show "aborted st (st\<lparr>ac_redis := r, ac_db := ac_db st\<lparr>audit_events := evs\<rparr>\<rparr>)"
      using fewer_delete [OF that] by (simp add: aborted_redis)
    show "users_ok (ac_db (st\<lparr>ac_redis := r, ac_db := ac_db st\<lparr>audit_events := evs\<rparr>\<rparr>))"
      using assms(1) by (simp add: users_ok_def)
  qed simp
  then show ?thesis
    unfolding logout_request_def logout_def wp_andThen wp_gets wp_on_redis
    by (intro wp_mono [OF wp_revoke_session [OF assms(2)]])
      (auto simp: record_event_def wp_on_db wp_modify)
qed

lemma wp_as_admin:
  assumes "\<And>actor. wp (body actor) Q E st" "E forbidden st"
  shows "wp (as_admin p body) Q E st"
  using assms by (simp add: as_admin_def require_admin_def wp_simps)

lemma wp_patch_user_request:
  assumes ok: "users_ok (ac_db st)" "redis_ok (ac_redis st)"
  shows "wp (patch_user_request now actor i username role tenant_id status)
    (\<lambda>_. evolves {} {} st) (\<lambda>_. aborted st) st"
  unfolding patch_user_request_def wp_andThen
proof (rule wp_mono [OF wp_update_user [OF ok]], goal_cases)
  case (1 u st')
  then have ev: "evolves {} {} st st'" by (rule changes_evolves [OF _ ok(1)])
  have ab: "aborted st st'" using 1 by (auto simp: changes_def rewrote_def)
  have ok': "users_ok (ac_db st')" "redis_ok (ac_redis st')" using ev by (simp_all add: evolves_def)
  have "wp (set_user_status now actor' i s None) (\<lambda>_. evolves {} {} st) (\<lambda>_. aborted st) st'" for actor' s
    by (rule wp_mono [OF wp_set_user_status [OF ok']])
      (auto intro: evolves_trans [OF ev] changes_evolves ok' aborted_trans [OF ab])
  with ev show ?case by (cases status) (simp_all add: wp_simps)
qed

lemma wp_serve:
  assumes ok: "users_ok (ac_db st)" "redis_ok (ac_redis st)" "0 < ss_idle_seconds cfg"
    and owner: "\<And>j w. (pc_session_id p, j, w) \<in> holdings st \<Longrightarrow> j = pc_user_id p"
  shows "wp (serve hash verify cfg now p req)
    (\<lambda>_. evolves {pc_session_id p} (new_ids req) st) (\<lambda>_. aborted st) st"
proof (cases req)
  case LogoutRequest
  then show ?thesis using wp_logout_request [OF ok(1,2)] by simp
next
  case (PasswordChangeRequest current new)
  have "wp (change_own_password hash verify cfg now user (pc_session_id p) current new None)
      (\<lambda>_. evolves {pc_session_id p} {} st) (\<lambda>_. aborted st) st"
    if user: "get_user (ac_db st) (pc_user_id p) = Some user" for user
  proof (rule wp_mono [OF wp_change_own_password [OF ok]])
    note id = get_user_id [OF user]
    show "get_user (ac_db st) (us_id user) = Some user" using user id by simp
    show "fst w = us_id user" if "ident (ac_redis st) (pc_session_id p) = Some w" for w
      using owner [of "fst w" "snd w"] that id by (simp add: holdings_def)
    fix u st' assume u: "regranted st (pc_session_id p) u st' \<and> us_id u = us_id user"
    show "evolves {pc_session_id p} {} st st'"
      by (rule regranted_evolves [OF conjunct1 [OF u] ok(1)]) (use owner u id in simp)
  qed simp
  then show ?thesis
    using PasswordChangeRequest aborted_refl [OF ok(2)]
    by (auto simp: change_password_request_def wp_andThen wp_fetch wp_ret split: option.splits)
next
  case (UserCreateRequest i username password role tenant_id)
  have "wp (create_user hash i now actor username password role tenant_id None)
      (\<lambda>_. evolves {pc_session_id p} {i} st) (\<lambda>_. aborted st) st" for actor
    by (rule wp_mono [OF wp_create_user [OF ok(1,2)]]) (auto intro: added_evolves ok)
  then show ?thesis using UserCreateRequest aborted_refl [OF ok(2)]
    by (auto simp: wp_andThen wp_ret intro!: wp_as_admin)
next
  case (UserPatchRequest i username role tenant_id status)
  have "wp (patch_user_request now actor i username role tenant_id status)
      (\<lambda>_. evolves {pc_session_id p} {} st) (\<lambda>_. aborted st) st" for actor
    by (rule wp_mono [OF wp_patch_user_request [OF ok(1,2)]]) (auto intro: evolves_none)
  then show ?thesis using UserPatchRequest aborted_refl [OF ok(2)] by (auto intro!: wp_as_admin)
next
  case (UserDeleteRequest i)
  have "wp (delete_user now actor i None) (\<lambda>_. evolves {pc_session_id p} {} st) (\<lambda>_. aborted st) st" for actor
    by (rule wp_mono [OF wp_delete_user [OF ok(1,2)]]) (auto intro: removed_evolves ok)
  then show ?thesis using UserDeleteRequest aborted_refl [OF ok(2)] by (auto intro!: wp_as_admin)
next
  case (ResetPasswordRequest i new_password)
  have "wp (reset_password hash now actor i new_password None)
      (\<lambda>_. evolves {pc_session_id p} {} st) (\<lambda>_. aborted st) st" for actor
    by (rule wp_mono [OF wp_reset_password [OF ok(1,2)]]) (auto intro: changes_evolves ok)
  then show ?thesis using ResetPasswordRequest aborted_refl [OF ok(2)]
    by (auto simp: wp_andThen wp_ret intro!: wp_as_admin)
qed

lemma versions_user: "get_user db i = Some u \<Longrightarrow> versions db i = Some (us_session_version u)"
  by (simp add: versions_def)

lemma wp_principal_of_session:
  assumes "\<And>user. \<lbrakk>get_user db (sd_user_id s) = Some user; us_status user = UserStatus_active;
      us_session_version user = sd_session_version s;
      us_role user = Role_tenant_user \<longrightarrow> us_tenant_id user \<noteq> None \<and> tenant_active db user\<rbrakk>
     \<Longrightarrow> Q \<lparr> pc_user_id = us_id user, pc_username = us_username user, pc_role = us_role user,
       pc_tenant_id = us_tenant_id user, pc_session_id = sid \<rparr> db"
    "E unauthenticated db"
  shows "wp (principal_of_session sid s) Q E db"
  using assms by (auto simp: principal_of_session_def wp_simps split: option.splits)

text \<open>The second half, from the state in which the session has been written back.\<close>

lemma wp_serve_session:
  assumes inv: "access_inv st" and s: "s \<in> set (ac_inflight st)" and idle: "0 < ss_idle_seconds cfg"
    and r: "redis_ok r" "ident r = (ident (ac_redis st))(sd_sid s \<mapsto> (sd_user_id s, sd_session_version s))"
    and p: "pc_session_id p = sd_sid s" "pc_user_id p = sd_user_id s"
  shows "wp (serve hash verify cfg now p req) (\<lambda>_. evolves {sd_sid s} (new_ids req) st)
    (\<lambda>_ st'. evolves {} {} st (st'\<lparr>ac_db := ac_db st\<rparr>)) (st\<lparr>ac_redis := r\<rparr>)"
proof -
  let ?st = "st\<lparr>ac_redis := r\<rparr>"
  have ok: "users_ok (ac_db st)" using inv by (simp add: access_inv_def)
  have held: "(sd_sid s, sd_user_id s, sd_session_version s) \<in> holdings st" using s by (auto simp: holdings_def)
  have owner: "j = sd_user_id s" if "(sd_sid s, j, w) \<in> holdings st" for j w
    using inv held that unfolding access_inv_def by blast
  have h: "holdings ?st \<subseteq> holdings st" using r(2) held by (auto simp: holdings_def split: if_splits)
  show ?thesis
  proof (rule wp_mono [OF wp_serve [where cfg = cfg and p = p]])
    show "j = pc_user_id p" if "(pc_session_id p, j, w) \<in> holdings ?st" for j w
      using that h owner [of j w] p by auto
    show "evolves {sd_sid s} (new_ids req) st st'" if "evolves {pc_session_id p} (new_ids req) ?st st'" for st'
    proof (rule evolves_after [where st' = ?st])
      show "(sd_sid s, sd_user_id s, sd_session_version s) \<in> holdings ?st" by (simp add: holdings_def r(2))
    qed (use that h owner p in auto)
    show "evolves {} {} st (st'\<lparr>ac_db := ac_db st\<rparr>)" if "aborted ?st st'" for st'
      using aborted_evolves [OF that, of "{}" "{}"] ok h unfolding evolves_def by auto
  qed (simp_all add: ok r idle)
qed

lemma wp_resume_request:
  assumes inv: "access_inv st" and s: "s \<in> set (ac_inflight st)" and idle: "0 < ss_idle_seconds cfg"
  shows "wp (resume_request hash verify cfg now s req)
    (\<lambda>_ st'. evolves {sd_sid s} (new_ids req) st st' \<and>
       versions (ac_db st) (sd_user_id s) = Some (sd_session_version s))
    (\<lambda>_ st'. evolves {} {} st (st'\<lparr>ac_db := ac_db st\<rparr>)) st"
proof -
  let ?Q = "\<lambda>_ st'. evolves {sd_sid s} (new_ids req) st st' \<and>
       versions (ac_db st) (sd_user_id s) = Some (sd_session_version s)"
  let ?E = "\<lambda>_ st'. evolves {} {} st (st'\<lparr>ac_db := ac_db st\<rparr>)"
  have ok: "users_ok (ac_db st)" "redis_ok (ac_redis st)" using inv by (simp_all add: access_inv_def)
  have rest: "wp (principal_of_session (sd_sid s) (s\<lparr>sd_last_seen := now\<rparr>))
      (\<lambda>p d. wp (serve hash verify cfg now p req) ?Q ?E (st\<lparr>ac_redis := r, ac_db := d\<rparr>))
      (\<lambda>e d. ?E e (st\<lparr>ac_redis := r, ac_db := d\<rparr>)) (ac_db st)"
    if r: "redis_ok r" "ident r = (ident (ac_redis st))(sd_sid s \<mapsto> (sd_user_id s, sd_session_version s))" for r
  proof (rule wp_principal_of_session, goal_cases)
    case (1 user)
    have v: "versions (ac_db st) (sd_user_id s) = Some (sd_session_version s)"
      using 1 by (simp add: versions_user)
    show ?case
      by (simp, rule wp_mono [OF wp_serve_session [OF inv s idle r]])
        (use v get_user_id [OF 1(1)] in simp_all)
  next
    case 2
    have "holdings (st\<lparr>ac_redis := r\<rparr>) \<subseteq> holdings st"
      using r(2) s by (auto simp: holdings_def split: if_splits)
    with r(1) ok show ?case by (auto simp: evolves_def versions_grow_def)
  qed
  show ?thesis
    unfolding resume_request_def wp_andThen wp_on_redis wp_on_db
    by (rule wp_mono [OF wp_refresh_session [OF ok(2) idle]]) (use rest in auto)
qed

section \<open>Runs\<close>

lemma access_invD:
  assumes "access_inv st" "(x, i, v) \<in> holdings st"
  shows "x \<in> set (ac_issued st)" "i \<in> set (ac_user_ids st)"
    "versions (ac_db st) i = Some w \<Longrightarrow> v \<le> w" "(x, j, u) \<in> holdings st \<Longrightarrow> j = i"
proof -
  have "x \<in> set (ac_issued st) \<and> i \<in> set (ac_user_ids st) \<and>
      (\<forall>w. versions (ac_db st) i = Some w \<longrightarrow> v \<le> w) \<and> (\<forall>j w. (x, j, w) \<in> holdings st \<longrightarrow> j = i)"
    using assms unfolding access_inv_def by simp
  then show "x \<in> set (ac_issued st)" "i \<in> set (ac_user_ids st)"
    "versions (ac_db st) i = Some w \<Longrightarrow> v \<le> w" "(x, j, u) \<in> holdings st \<Longrightarrow> j = i"
    by blast+
qed

lemma stale_grow:
  assumes "stale db i v" "versions_grow N db db'" "i \<notin> N"
  shows "stale db' i v"
  unfolding stale_def
proof (intro allI impI)
  fix w assume w: "versions db' i = Some w"
  with assms(2,3) obtain u where "versions db i = Some u" "u \<le> w"
    unfolding versions_grow_def by (metis option.distinct(1) option.exhaust)
  with assms(1) show "v < w" by (force simp: stale_def)
qed

lemma holdings_new:
  assumes "evolves X N st st'" "(x, i, v) \<in> holdings st'" "(x, i, v) \<notin> holdings st"
  shows "ident (ac_redis st') x = Some (i, v)" "x \<in> X" "versions (ac_db st') i = Some v"
    "\<And>j w. (x, j, w) \<in> holdings st \<Longrightarrow> j = i"
proof -
  have "x \<in> X \<and> versions (ac_db st') i = Some v \<and> (\<forall>j w. (x, j, w) \<in> holdings st \<longrightarrow> j = i)"
    using assms unfolding evolves_def by blast
  then show "x \<in> X" "versions (ac_db st') i = Some v" "\<And>j w. (x, j, w) \<in> holdings st \<Longrightarrow> j = i" by auto
  have "ac_inflight st' = ac_inflight st" using assms(1) by (simp add: evolves_def)
  then show "ident (ac_redis st') x = Some (i, v)" using assms(2,3) by (auto simp: holdings_def)
qed

text \<open>Along \<open>evolves\<close>, with the history of identifiers brought up to date.\<close>

definition advances :: "string set \<Rightarrow> uuid set \<Rightarrow> access \<Rightarrow> access \<Rightarrow> access \<Rightarrow> bool" where
  "advances X N st st1 st' \<longleftrightarrow> access_inv st \<and> evolves X N st st1 \<and>
     ac_db st' = ac_db st1 \<and> ac_redis st' = ac_redis st1 \<and>
     holdings st' \<subseteq> holdings st \<union> holdings st1 \<and>
     N \<inter> set (ac_user_ids st) = {} \<and>
     set (ac_issued st) \<union> X \<subseteq> set (ac_issued st') \<and>
     set (ac_user_ids st) \<union> N \<subseteq> set (ac_user_ids st')"

lemma advancesD:
  assumes "advances X N st st1 st'"
  shows "access_inv st" "evolves X N st st1" "ac_db st' = ac_db st1" "ac_redis st' = ac_redis st1"
    "holdings st' \<subseteq> holdings st \<union> holdings st1" "i \<in> set (ac_user_ids st) \<Longrightarrow> i \<notin> N"
    "set (ac_issued st) \<subseteq> set (ac_issued st')" "X \<subseteq> set (ac_issued st')"
    "set (ac_user_ids st) \<subseteq> set (ac_user_ids st')" "N \<subseteq> set (ac_user_ids st')"
    "versions_grow N (ac_db st) (ac_db st')"
  using assms by (auto simp: advances_def evolves_def)

lemma held_new:
  assumes "advances X N st st1 st'" "(x, i, v) \<in> holdings st'" "(x, i, v) \<notin> holdings st"
  shows "(x, i, v) \<in> holdings st1"
  using assms advancesD(5) by blast

lemma users_known:
  assumes adv: "advances X N st st1 st'"
  shows "us_id ` set (users (ac_db st')) \<subseteq> set (ac_user_ids st')"
proof -
  note a = advancesD [OF adv]
  have "us_id ` set (users (ac_db st1)) \<subseteq> us_id ` set (users (ac_db st)) \<union> N"
    using a(2) by (simp add: evolves_def)
  also have "us_id ` set (users (ac_db st)) \<subseteq> set (ac_user_ids st)" using a(1) by (simp add: access_inv_def)
  finally show ?thesis using a(3,9,10) by auto
qed

lemma known_kept:
  assumes adv: "advances X N st st1 st'" and h: "(x, i, v) \<in> holdings st'"
  shows "x \<in> set (ac_issued st') \<and> i \<in> set (ac_user_ids st') \<and> (\<forall>w. versions (ac_db st') i = Some w \<longrightarrow> v \<le> w)"
proof (cases "(x, i, v) \<in> holdings st")
  case old: True
  note a = advancesD [OF adv]
  have k: "x \<in> set (ac_issued st)" "i \<in> set (ac_user_ids st)" "\<And>w. versions (ac_db st) i = Some w \<Longrightarrow> v \<le> w"
    using access_invD [OF a(1) old] by simp_all
  have "v \<le> w" if w: "versions (ac_db st') i = Some w" for w
  proof -
    obtain u where u: "versions (ac_db st) i = Some u" "u \<le> w"
      using a(11) w a(6) [OF k(2)] unfolding versions_grow_def by (metis option.distinct(1) option.exhaust)
    then show ?thesis using k(3) [OF u(1)] by simp
  qed
  with k a(7,9) show ?thesis by blast
next
  case new: False
  note a = advancesD [OF adv] and n = holdings_new [OF advancesD(2) [OF adv] held_new [OF adv h new] new]
  obtain u where u: "get_user (ac_db st1) i = Some u" using n(3) by (auto simp: versions_def)
  have "i \<in> us_id ` set (users (ac_db st'))"
    using get_user_in [OF u] get_user_id [OF u] a(3) by (metis imageI)
  with users_known [OF adv] n(2,3) a(3,8) show ?thesis by auto
qed

lemma one_owner:
  assumes adv: "advances X N st st1 st'" and "(x, i, v) \<in> holdings st'" "(x, j, w) \<in> holdings st'"
  shows "j = i"
proof -
  note ev = advancesD(2) [OF adv]
  show ?thesis
  proof (cases "(x, i, v) \<in> holdings st")
    case i: True
    show ?thesis
    proof (cases "(x, j, w) \<in> holdings st")
      case old: True
      from access_invD(4) [OF advancesD(1) [OF adv] i old] show ?thesis .
    next
      case new: False
      from holdings_new(4) [OF ev held_new [OF adv assms(3) new] new i] show ?thesis by simp
    qed
  next
    case i: False
    note i' = held_new [OF adv assms(2) i]
    show ?thesis
    proof (cases "(x, j, w) \<in> holdings st")
      case old: True
      from holdings_new(4) [OF ev i' i old] show ?thesis .
    next
      case new: False
      from holdings_new(1) [OF ev i' i] holdings_new(1) [OF ev held_new [OF adv assms(3) new] new]
      show ?thesis by simp
    qed
  qed
qed

lemma inv_kept:
  assumes adv: "advances X N st st1 st'"
  shows "access_inv st'"
proof -
  have "redis_ok (ac_redis st')" "users_ok (ac_db st')"
    using advancesD(2-4) [OF adv] by (simp_all add: evolves_def)
  with users_known [OF adv] show ?thesis
    unfolding access_inv_def using known_kept [OF adv] one_owner [OF adv] by simp
qed

lemma dead_kept:
  assumes adv: "advances X N st st1 st'" and x: "dead st x" "x \<notin> X"
  shows "dead st' x"
proof -
  note a = advancesD [OF adv]
  have "stale (ac_db st') i v" if "(x, i, v) \<in> holdings st'" for i v
  proof (cases "(x, i, v) \<in> holdings st")
    case old: True
    then have "stale (ac_db st) i v" and "i \<in> set (ac_user_ids st)"
      using x(1) access_invD(2) [OF a(1) old] by (simp_all add: dead_def)
    then show ?thesis using stale_grow [OF _ a(11)] a(6) by blast
  next
    case new: False
    from holdings_new(2) [OF a(2) held_new [OF adv that new] new] x(2) show ?thesis by simp
  qed
  moreover have "x \<in> set (ac_issued st')" using x(1) a(7) by (auto simp: dead_def)
  ultimately show ?thesis by (simp add: dead_def)
qed

lemma wp_run: "wp m (\<lambda>_. P) (\<lambda>_. P) s \<Longrightarrow> m s = (res, s') \<Longrightarrow> P s'"
  by (cases res) (auto simp: wp_def)

lemma holdings_ghosts [simp]:
  "holdings (st\<lparr>ac_issued := xs\<rparr>) = holdings st" "holdings (st\<lparr>ac_user_ids := us\<rparr>) = holdings st"
  "holdings (st\<lparr>ac_db := d\<rparr>) = holdings st"
  by (simp_all add: holdings_def)

lemma login_evolves:
  assumes inv: "access_inv st" and idle: "0 < ss_idle_seconds cfg" and sid: "sid \<notin> set (ac_issued st)"
    and run: "request (login verify cfg now sid username password ip) st = (res, st')"
  shows "evolves {sid} {} st st'"
proof -
  have ok: "users_ok (ac_db st)" "redis_ok (ac_redis st)" using inv by (simp_all add: access_inv_def)
  have "wp (request (login verify cfg now sid username password ip)) (\<lambda>_. evolves {sid} {} st) (\<lambda>_. evolves {sid} {} st) st"
    unfolding wp_request
  proof (rule wp_mono [OF wp_login [OF ok idle]])
    fix r st1 assume "lr_session_id r = sid \<and> regranted st sid (lr_user r) st1"
    then show "evolves {sid} {} st st1"
      using regranted_evolves [OF _ ok(1)] access_invD(1) [OF inv] sid by metis
  qed (rule aborted_evolves [OF _ ok(1)])
  from wp_run [OF this run] show ?thesis .
qed

lemma bootstrap_evolves:
  assumes inv: "access_inv st"
    and run: "request (on_db (bootstrap_admin hash cu cp i now username password ip)) st = (res, st')"
  shows "evolves {} {i} st st'"
proof -
  have ok: "users_ok (ac_db st)" "redis_ok (ac_redis st)" using inv by (simp_all add: access_inv_def)
  have same: "evolves {} {i} st st" by (rule aborted_users_evolves) (simp_all add: aborted_refl ok)
  have "wp (request (on_db (bootstrap_admin hash cu cp i now username password ip)))
      (\<lambda>_. evolves {} {i} st) (\<lambda>_. evolves {} {i} st) st"
    unfolding wp_request
  proof (rule wp_mono [OF wp_bootstrap_admin [OF ok]])
    fix u st1 assume "st1 = st \<or> added st u st1 \<and> us_id u = i"
    then show "evolves {} {i} st st1" using same added_evolves [OF _ ok(2)] by metis
  qed (rule aborted_evolves [OF _ ok(1)])
  from wp_run [OF this run] show ?thesis .
qed

lemma resume_evolves:
  assumes inv: "access_inv st" and s: "s \<in> set (ac_inflight st)" and idle: "0 < ss_idle_seconds cfg"
    and run: "request (resume_request hash verify cfg now s req) st = (res, st')"
  shows "evolves {} {} st st' \<or> evolves {sd_sid s} (new_ids req) st st' \<and> \<not> dead st (sd_sid s)"
proof -
  have held: "(sd_sid s, sd_user_id s, sd_session_version s) \<in> holdings st" using s by (auto simp: holdings_def)
  have alive: "\<not> dead st (sd_sid s)" if "versions (ac_db st) (sd_user_id s) = Some (sd_session_version s)"
    using held that by (auto simp: dead_def stale_def)
  have "wp (request (resume_request hash verify cfg now s req))
      (\<lambda>_ st'. evolves {} {} st st' \<or> evolves {sd_sid s} (new_ids req) st st' \<and> \<not> dead st (sd_sid s))
      (\<lambda>_ st'. evolves {} {} st st' \<or> evolves {sd_sid s} (new_ids req) st st' \<and> \<not> dead st (sd_sid s)) st"
    unfolding wp_request by (rule wp_mono [OF wp_resume_request [OF inv s idle]]) (use alive in auto)
  from wp_run [OF this run] show ?thesis .
qed

lemma arrive_evolves:
  assumes inv: "access_inv st" and run: "get_session_read now sid (ac_redis st) = (Inr found, r)"
  shows "evolves {} {} st (st\<lparr>ac_redis := r\<rparr>)"
    "found = Some s \<Longrightarrow> (sd_sid s, sd_user_id s, sd_session_version s) \<in> holdings st"
proof -
  have ok: "users_ok (ac_db st)" "redis_ok (ac_redis st)" using inv by (simp_all add: access_inv_def)
  note post = wp_okD [OF wp_get_session_read [OF ok(2)] run]
  have "fewer (ac_redis st) r" using post by (auto simp: fewer_def split: option.splits)
  then show "evolves {} {} st (st\<lparr>ac_redis := r\<rparr>)"
    by (intro aborted_users_evolves) (simp_all add: aborted_redis ok)
  show "(sd_sid s, sd_user_id s, sd_session_version s) \<in> holdings st" if "found = Some s"
    using post that by (auto simp: holdings_def)
qed

lemma step_advances:
  assumes "access_step hash verify cfg st st'" "access_inv st" "0 < ss_idle_seconds cfg"
  obtains X N st1 where "advances X N st st1 st'" "\<And>x. dead st x \<Longrightarrow> x \<notin> X"
  using assms(1)
proof cases
  case (login_step sid now username password ip res st1)
  have ev: "evolves {sid} {} st st1" by (rule login_evolves [OF assms(2,3) login_step(2,3)])
  show ?thesis
  proof (rule that)
    show "advances {sid} {} st st1 st'"
      using ev assms(2) by (auto simp: advances_def evolves_def login_step(1))
  qed (use login_step(2) in \<open>auto simp: dead_def\<close>)
next
  case (bootstrap_step i cu cp now username password ip res st1)
  then show ?thesis
    using that [of "{}" "{i}" st1] bootstrap_evolves [OF assms(2)] assms(2)
    by (auto simp: advances_def evolves_def)
next
  case (arrive_step now sid found r)
  note ev = arrive_evolves [OF assms(2) arrive_step(2)]
  have "holdings st' \<subseteq> holdings st \<union> holdings (st\<lparr>ac_redis := r\<rparr>)"
    using ev(2) by (cases found) (auto simp: arrive_step(1) holdings_def)
  then show ?thesis
    using that [of "{}" "{}" "st\<lparr>ac_redis := r\<rparr>"] ev(1) assms(2)
    by (simp add: advances_def arrive_step(1))
next
  case (resume_step s req now res st1)
  have h: "holdings st' \<subseteq> holdings st1" if "ac_inflight st1 = ac_inflight st"
    using that notin_set_remove1 by (fastforce simp: resume_step(1) holdings_def)
  have ids: "set (ac_user_ids st) \<union> new_ids req \<subseteq> set (ac_user_ids st')"
    by (cases req) (auto simp: resume_step(1))
  have frame: "ac_issued st' = ac_issued st1" "ac_db st' = ac_db st1" "ac_redis st' = ac_redis st1"
    by (simp_all add: resume_step(1))
  from resume_evolves [OF assms(2) resume_step(2) assms(3) resume_step(4)]
  show ?thesis
  proof
    assume ev: "evolves {} {} st st1"
    then show ?thesis using that [of "{}" "{}" st1] h ids frame assms(2) by (auto simp: advances_def evolves_def)
  next
    assume ev: "evolves {sd_sid s} (new_ids req) st st1 \<and> \<not> dead st (sd_sid s)"
    have "sd_sid s \<in> set (ac_issued st)"
      using access_invD(1) [OF assms(2), of "sd_sid s" "sd_user_id s" "sd_session_version s"] resume_step(2)
      by (auto simp: holdings_def)
    with ev show ?thesis
      using that [of "{sd_sid s}" "new_ids req" st1] h ids frame assms(2) resume_step(3)
      by (auto simp: advances_def evolves_def)
  qed
next
  case (other_step d)
  then show ?thesis
    using that [of "{}" "{}" st'] assms(2) aborted_users_evolves [of st st' "{}" "{}"]
      aborted_refl [of st] by (auto simp: advances_def access_inv_def)
qed

text \<open>Runs, and what they keep.\<close>

abbreviation access_run where
  "access_run hash verify cfg \<equiv> (access_step hash verify cfg)\<^sup>*\<^sup>*"

lemma run_keeps:
  assumes "access_run hash verify cfg st st'" "access_inv st" "0 < ss_idle_seconds cfg"
  shows "access_inv st'" "dead st x \<Longrightarrow> dead st' x" "has_admin (ac_db st) \<Longrightarrow> has_admin (ac_db st')"
proof -
  have "access_inv st' \<and> (dead st x \<longrightarrow> dead st' x) \<and> (has_admin (ac_db st) \<longrightarrow> has_admin (ac_db st'))"
    using assms(1)
  proof (induction rule: rtranclp_induct)
    case (step st1 st2)
    then have inv: "access_inv st1" by simp
    obtain X N m where adv: "advances X N st1 m st2" and X: "\<And>y. dead st1 y \<Longrightarrow> y \<notin> X"
      by (rule step_advances [OF step(2) inv assms(3)]) blast
    have "has_admin (ac_db st1) \<Longrightarrow> has_admin (ac_db st2)"
      using advancesD(2,3) [OF adv] by (simp add: evolves_def)
    with step(3) inv_kept [OF adv] dead_kept [OF adv] X show ?case by blast
  qed (simp add: assms(2))
  then show "access_inv st'" "dead st x \<Longrightarrow> dead st' x" "has_admin (ac_db st) \<Longrightarrow> has_admin (ac_db st')" by auto
qed

section \<open>What a run means for a session\<close>





lemma request_ok: "request m st = (Inr y, st') \<Longrightarrow> m st = (Inr y, st')"
  by (auto simp: request_def split: prod.splits sum.splits)



section \<open>Properties\<close>


text \<open>
  A run that starts with an active administrator ends with one.  This is of
  requests whose checks and writes do not overlap; the query for another
  administrator takes no lock.
\<close>

theorem last_admin_stays:
  assumes "access_inv st" "0 < ss_idle_seconds cfg" "access_run hash verify cfg st st'" "has_admin (ac_db st)"
  shows "has_admin (ac_db st')"
  by (rule run_keeps(3) [OF assms(3,1,2,4)])

text \<open>
  C38 With three or more active administrators none of them can be deleted or
  disabled: the query for another administrator finds several rows and raises.
\<close>

theorem spare_admins_cannot_leave:
  assumes user: "get_user (ac_db st) i = Some user" "active_admin user"
    and others: "a \<in> set (users (ac_db st))" "b \<in> set (users (ac_db st))" "active_admin a" "active_admin b"
      "us_id a \<noteq> i" "us_id b \<noteq> i" "a \<noteq> b"
  shows "fst (request (delete_user now actor i ip) st) = Inl MultipleResultsFound \<and>
    fst (request (set_user_status now actor i UserStatus_disabled ip) st) = Inl MultipleResultsFound"
proof -
  let ?rows = "filter (\<lambda>u. active_admin u \<and> us_id u \<noteq> us_id user) (users (ac_db st))"
  have id: "us_id user = i" by (rule get_user_id [OF user(1)])
  have two: "{a, b} \<subseteq> set ?rows" using others id by simp
  obtain c d rest where rows: "?rows = c # d # rest"
  proof (cases ?rows)
    case (Cons c tail)
    then have "tail \<noteq> []" using two others(7) by auto
    with Cons that show ?thesis by (cases tail) auto
  qed (use two in simp)
  show ?thesis
    using user id rows
    by (simp add: request_def delete_user_def set_user_status_def get_existing_user_def on_db_def run_simps
        ensure_not_last_active_admin_def one_or_none_def)
qed

section \<open>Sample\<close>

text \<open>The sample deployment with one session of the tenant's user, which a request is also using.\<close>

definition sample_settings :: session_settings where
  "sample_settings = \<lparr> ss_idle_seconds = 1800, ss_absolute_seconds = 43200 \<rparr>"

definition sample_session :: SessionData where
  "sample_session = \<lparr> sd_sid = ''s1'', sd_user_id = 11, sd_session_version = 0, sd_created_at = 0,
     sd_absolute_expiry = 43200000000, sd_last_seen = 0, sd_ip = None \<rparr>"

definition sample_access :: access where
  "sample_access = \<lparr> ac_db = sample_db,
     ac_redis = \<lparr> rd_values = (\<lambda>_. None)(''s1'' \<mapsto> (dump_session sample_session, 1800000000)),
       rd_members = (\<lambda>_. [])(11 := [''s1'']) \<rparr>,
     ac_inflight = [sample_session], ac_issued = [''s1''], ac_user_ids = [10, 11] \<rparr>"

lemma sample_users: "users_ok sample_db"
  by (simp add: users_ok_def sample_defs role_tenant_ok_def user_tenant_alt row_Cons lower_def lower_char_def)

lemma sample_held: "holdings sample_access = {(''s1'', 11, 0)}"
  by (auto simp: holdings_def sample_access_def sample_session_def ident_def load_dump split: if_splits)

lemma sample_access_inv: "access_inv sample_access"
  unfolding access_inv_def sample_held
  by (simp add: sample_access_def sample_users redis_ok_def)
    (auto simp: sample_defs versions_def get_user_def row_Cons split: if_splits)


theorem last_admin_stays_witness: "has_admin (ac_db sample_access)"
  by (rule last_admin_stays [OF sample_access_inv, of sample_settings "\<lambda>p. p" "\<lambda>_ _. None"])
    (simp_all add: sample_settings_def sample_access_def has_admin_def active_admin_def sample_defs)

text \<open>The sample with two more administrators.\<close>

definition sample_crowd :: access where
  "sample_crowd = sample_access\<lparr>ac_db := sample_db\<lparr>users := [sample_admin, sample_user,
     sample_admin\<lparr>us_id := 12, us_username := ''ops''\<rparr>, sample_admin\<lparr>us_id := 13, us_username := ''night''\<rparr>]\<rparr>\<rparr>"

theorem spare_admins_cannot_leave_witness:
  "fst (request (delete_user 5 None 10 None) sample_crowd) = Inl MultipleResultsFound"
proof -
  have "get_user (ac_db sample_crowd) 10 = Some sample_admin"
    by (simp add: sample_crowd_def get_user_def row_Cons sample_admin_def)
  from spare_admins_cannot_leave [OF this, of "sample_admin\<lparr>us_id := 12, us_username := ''ops''\<rparr>"
      "sample_admin\<lparr>us_id := 13, us_username := ''night''\<rparr>" 5 None None]
  show ?thesis by (simp add: sample_crowd_def active_admin_def sample_admin_def)
qed

section \<open>Login\<close>

lemma flush_user_ok:
  assumes "flush_user now before u db = (Inr x, d)"
  shows "tenants d = tenants db" "us_id x = us_id u" "us_role x = us_role u" "us_tenant_id x = us_tenant_id u"
    "us_status x = us_status u" "us_session_version x = us_session_version u" "us_username x = us_username u"
  using assms
  by (auto simp: flush_user_def check_user_row_def Let_def run_simps split: if_splits prod.splits sum.splits)

lemma login_runs:
  assumes run: "login verify cfg now sid username password ip st = (Inr res, st')"
  obtains user d evs where "user \<in> set (users (ac_db st))" "citext_eq (us_username user) username"
    "us_status user = UserStatus_active" "us_role user = Role_tenant_user \<longrightarrow> tenant_active (ac_db st) user"
    "lr_session_id res = sid"
    "flush_user now user (user\<lparr>us_last_login_at := Some now\<rparr>) (ac_db st) = (Inr (lr_user res), d)"
    "ac_db st' = d\<lparr>audit_events := evs\<rparr>"
    "redis_get later (ac_redis st') sid = (if later < now + ss_idle_seconds cfg * 1000000
       then Some (dump_session \<lparr> sd_sid = sid, sd_user_id = us_id user, sd_session_version = us_session_version user,
        sd_created_at = now, sd_absolute_expiry = now + ss_absolute_seconds cfg * 1000000,
        sd_last_seen = now, sd_ip = ip \<rparr>) else None)"
proof -
  obtain user where rows: "filter (\<lambda>u. citext_eq (us_username u) username) (users (ac_db st)) = [user]"
    using run by (auto simp: login_def failed_login_def record_event_def on_db_def run_simps one_or_none_def
        split: list.splits)
  then have "user \<in> set (filter (\<lambda>u. citext_eq (us_username u) username) (users (ac_db st)))" by simp
  then have u: "user \<in> set (users (ac_db st))" "citext_eq (us_username user) username" by simp_all
  have ok: "verify_password verify password (us_password_hash user)" "us_status user = UserStatus_active"
      "us_role user = Role_tenant_user \<longrightarrow> tenant_active (ac_db st) user" "0 < ss_idle_seconds cfg"
    using run rows by (auto simp: login_def failed_login_def record_event_def on_db_def on_redis_def run_simps
        one_or_none_def create_session_def redis_set_def Let_def split: if_splits)
  obtain x d where f: "flush_user now user (user\<lparr>us_last_login_at := Some now\<rparr>) (ac_db st) = (Inr x, d)"
    using run rows ok by (auto simp: login_def failed_login_def record_event_def on_db_def on_redis_def run_simps
        one_or_none_def create_session_def redis_set_def Let_def split: if_splits prod.splits sum.splits)
  show thesis
    using run rows ok f u
    by (intro that) (auto simp: login_def record_event_def on_db_def on_redis_def run_simps
        one_or_none_def create_session_def redis_set_def Let_def redis_get_def redis_sadd_def)
qed

lemma resolve_live:
  assumes raw: "redis_get later (ac_redis st) sid = Some (dump_session s)" "later < sd_absolute_expiry s"
    "0 < ss_idle_seconds cfg"
    and user: "get_user (ac_db st) (sd_user_id s) = Some user" "us_status user = UserStatus_active"
      "us_session_version user = sd_session_version s"
      "us_role user = Role_tenant_user \<longrightarrow> tenant_active (ac_db st) user"
  shows "fst (resolve_current_user cfg later sid st) =
    Inr \<lparr> pc_user_id = us_id user, pc_username = us_username user, pc_role = us_role user,
      pc_tenant_id = us_tenant_id user, pc_session_id = sid \<rparr>"
proof -
  have "us_role user = Role_tenant_user \<longrightarrow> us_tenant_id user \<noteq> None \<and> tenant_active (ac_db st) user"
    using user(4) by (cases "us_tenant_id user") (auto simp: tenant_active_def user_tenant_def)
  then show ?thesis
    using raw user(1-3)
    by (simp add: resolve_current_user_def get_session_def get_session_read_def read_session_def on_redis_def on_db_def
        run_simps load_dump is_absolute_expired_def refresh_session_def redis_set_def Let_def principal_of_session_def)
qed

text \<open>
  C16 A login that succeeds opens a session that authenticates its user, with the
  role and the tenant of the user's row, at every moment before the idle period
  and the absolute period end.
\<close>

theorem login_opens_session:
  assumes ok: "users_ok (ac_db st)" "redis_ok (ac_redis st)" "0 < ss_idle_seconds cfg"
    and run: "request (login verify cfg now sid username password ip) st = (Inr res, st')"
    and later: "later < now + ss_idle_seconds cfg * 1000000" "later < now + ss_absolute_seconds cfg * 1000000"
  shows "fst (resolve_current_user cfg later (lr_session_id res) st') =
    Inr \<lparr> pc_user_id = us_id (lr_user res), pc_username = us_username (lr_user res),
      pc_role = us_role (lr_user res), pc_tenant_id = us_tenant_id (lr_user res), pc_session_id = sid \<rparr> \<and>
    citext_eq (us_username (lr_user res)) username"
proof -
  note run' = request_ok [OF run]
  obtain user d evs where user: "user \<in> set (users (ac_db st))" "citext_eq (us_username user) username"
      "us_status user = UserStatus_active" "us_role user = Role_tenant_user \<longrightarrow> tenant_active (ac_db st) user"
      "lr_session_id res = sid"
      "flush_user now user (user\<lparr>us_last_login_at := Some now\<rparr>) (ac_db st) = (Inr (lr_user res), d)"
      "ac_db st' = d\<lparr>audit_events := evs\<rparr>"
    and raw: "redis_get later (ac_redis st') sid = (if later < now + ss_idle_seconds cfg * 1000000
       then Some (dump_session \<lparr> sd_sid = sid, sd_user_id = us_id user, sd_session_version = us_session_version user,
        sd_created_at = now, sd_absolute_expiry = now + ss_absolute_seconds cfg * 1000000,
        sd_last_seen = now, sd_ip = ip \<rparr>) else None)"
    by (rule login_runs [OF run', where later = later])
  note f = flush_user_ok [OF user(6)]
  have "regranted st sid (lr_user res) st'" using wp_okD [OF wp_login [OF ok] run'] by simp
  then obtain before where b: "get_user (ac_db st) (us_id (lr_user res)) = Some before"
      "users (ac_db st') = update_row us_id (us_id (lr_user res)) (\<lambda>_. lr_user res) (users (ac_db st))"
    by (auto simp: regranted_def)
  have found: "get_user (ac_db st') (us_id user) = Some (lr_user res)"
    using b f(2) by (simp add: get_user_def row_update_const)
  have "tenant_active (ac_db st') (lr_user res) = tenant_active (ac_db st) user"
    using f(1,4) user(7) by (cases "us_tenant_id user") (simp_all add: tenant_active_def user_tenant_alt)
  moreover have "redis_get later (ac_redis st') sid = Some (dump_session \<lparr> sd_sid = sid, sd_user_id = us_id user,
      sd_session_version = us_session_version user, sd_created_at = now,
      sd_absolute_expiry = now + ss_absolute_seconds cfg * 1000000, sd_last_seen = now, sd_ip = ip \<rparr>)"
    using raw later(1) by simp
  note resolve_live [OF this _ ok(3), of "lr_user res"]
  ultimately show ?thesis using user(2-5) f later(2) found by simp
qed

text \<open>
  C39 A logout can be undone by a request that had read the session before: the
  write of its refreshed session brings the session back, and it authenticates
  again.
\<close>

theorem logout_is_overtaken:
  assumes known: "principal_of_session (sd_sid s) s (ac_db st) = (Inr p, ac_db st)"
    and idle: "0 < ss_idle_seconds cfg" and age: "now < sd_absolute_expiry s"
    and logout: "logout now actor (sd_sid s) ip st = (Inr (), st1)"
    and refresh: "on_redis (refresh_session cfg now s) st1 = (Inr s', st2)"
  shows "rd_values (ac_redis st1) (sd_sid s) = None \<and>
    fst (resolve_current_user cfg now (sd_sid s) st2) = Inr p"
proof -
  obtain r evs where st1: "st1 = st\<lparr>ac_redis := r, ac_db := ac_db st\<lparr>audit_events := evs\<rparr>\<rparr>"
      "rd_values r (sd_sid s) = None"
    using logout by (auto simp: logout_def on_redis_def on_db_def record_event_def run_simps revoke_session_def
        redis_delete_def redis_srem_def split: prod.splits sum.splits option.splits)
  have st2: "redis_get now (ac_redis st2) (sd_sid s) = Some (dump_session (s\<lparr>sd_last_seen := now\<rparr>))"
      "ac_db st2 = ac_db st\<lparr>audit_events := evs\<rparr>"
    using refresh idle by (auto simp: st1(1) on_redis_def refresh_session_def redis_set_def Let_def run_simps redis_get_def)
  obtain user where user: "get_user (ac_db st) (sd_user_id s) = Some user" "us_status user = UserStatus_active"
      "us_session_version user = sd_session_version s"
      "us_role user = Role_tenant_user \<longrightarrow> tenant_active (ac_db st) user"
      "p = \<lparr> pc_user_id = us_id user, pc_username = us_username user, pc_role = us_role user,
         pc_tenant_id = us_tenant_id user, pc_session_id = sd_sid s \<rparr>"
    using known by (auto simp: principal_of_session_def run_simps split: option.splits if_splits)
  have "get_user (ac_db st2) (sd_user_id s) = Some user" using user(1) st2(2) by (simp add: get_user_def)
  moreover have "tenant_active (ac_db st2) user = tenant_active (ac_db st) user"
    using st2(2) by (simp add: tenant_active_def)
  ultimately have "fst (resolve_current_user cfg now (sd_sid s) st2) = Inr p"
    using resolve_live [OF st2(1) _ idle, of user] age user by simp
  with st1 show ?thesis by simp
qed

theorem login_opens_session_witness:
  "fst (resolve_current_user sample_settings 6000000 (lr_session_id (projr (fst (request
      (login (\<lambda>p h. Some (p = h)) sample_settings 5 ''s2'' ''alice'' ''y'' None) sample_access))))
    (snd (request (login (\<lambda>p h. Some (p = h)) sample_settings 5 ''s2'' ''alice'' ''y'' None) sample_access))) =
   Inr \<lparr> pc_user_id = 11, pc_username = ''alice'', pc_role = Role_tenant_user, pc_tenant_id = Some 2,
     pc_session_id = ''s2'' \<rparr>"
proof -
  let ?m = "login (\<lambda>p h. Some (p = h)) sample_settings 5 ''s2'' ''alice'' ''y'' None"
  have "\<exists>res st'. request ?m sample_access = (Inr res, st') \<and> us_id (lr_user res) = 11 \<and>
      us_username (lr_user res) = ''alice'' \<and> us_role (lr_user res) = Role_tenant_user \<and> us_tenant_id (lr_user res) = Some 2"
    by (simp add: request_def login_def on_db_def on_redis_def run_simps one_or_none_def verify_password_def
        tenant_active_def user_tenant_alt create_session_def redis_set_def Let_def flush_user_def check_user_row_def
        record_event_def sample_access_def sample_settings_def sample_defs role_tenant_ok_def row_Cons
        citext_eq_def lower_def lower_char_def)
  then obtain res st' where r: "request ?m sample_access = (Inr res, st')" "us_id (lr_user res) = 11"
      "us_username (lr_user res) = ''alice''" "us_role (lr_user res) = Role_tenant_user"
      "us_tenant_id (lr_user res) = Some 2" by blast
  have "users_ok (ac_db sample_access)" "redis_ok (ac_redis sample_access)"
    using sample_access_inv by (simp_all add: access_inv_def)
  from login_opens_session [OF this _ r(1), of 6000000] r show ?thesis by (simp add: sample_settings_def)
qed

theorem logout_is_overtaken_witness:
  "let st1 = snd (logout 5 None ''s1'' None sample_access);
       st2 = snd (on_redis (refresh_session sample_settings 5 sample_session) st1) in
   rd_values (ac_redis st1) ''s1'' = None \<and> isl (fst (resolve_current_user sample_settings 5 ''s1'' st2)) = False"
proof -
  let ?p = "\<lparr> pc_user_id = 11, pc_username = ''alice'', pc_role = Role_tenant_user, pc_tenant_id = Some 2,
     pc_session_id = ''s1'' \<rparr>"
  have p: "principal_of_session (sd_sid sample_session) sample_session (ac_db sample_access) = (Inr ?p, ac_db sample_access)"
    by (simp add: principal_of_session_def run_simps sample_session_def sample_access_def get_user_def row_Cons
        sample_defs tenant_active_def user_tenant_alt)
  obtain st1 where st1: "logout 5 None (sd_sid sample_session) None sample_access = (Inr (), st1)"
    by (simp add: logout_def on_redis_def on_db_def revoke_session_def read_session_def redis_get_def run_simps
        record_event_def sample_access_def sample_session_def load_dump)
  obtain s' st2 where st2: "on_redis (refresh_session sample_settings 5 sample_session) st1 = (Inr s', st2)"
    by (simp add: on_redis_def refresh_session_def redis_set_def Let_def run_simps sample_settings_def)
  from logout_is_overtaken [OF p _ _ st1 st2] st1 st2 show ?thesis
    by (simp add: sample_settings_def sample_session_def)
qed

end
