(* ===== verification/Spec2Isabelle.thy ===== *)
theory Spec2Isabelle
  imports Prelude Cidr Models AuditLog Deployment PyFloat ErrorScrub ApplyJobs JobLifecycle NodeControl
    RuleMatch Allocations Processor Services Rules
    FeedParser FeedReconcile DenyConvergence Lists Wire Applier PacketFilter Feeds FeedFetch FeedRunner
    Sessions Access Revocation
begin

text \<open>
  A verification of the anti-DDoS scrubbing gateway: the control plane in
  \<open>control-plane/app\<close> (paths below are relative to it) and the part of the
  data plane that reads what the control plane writes.

  \<^bold>\<open>The program.\<close> Operators and tenants configure, over a REST interface, which
  addresses a tenant holds, which services on them are protected, which packets a
  service admits, and which sources are denied everywhere.  Requests change a
  PostgreSQL database in one transaction each and record a job.  A worker takes the
  jobs: it serializes the configuration of the node and hands it to a helper that
  loads it into the packet filter, fetches threat feeds and merges them into the
  global deny list, and keeps node-wide switches in step with the tables.

  \<^bold>\<open>How code becomes definitions.\<close> A request or a step of the worker is a program
  (\<open>prog\<close> of \<open>Prelude\<close>): a function from the database to a result or an exception,
  and the database after it.  The database is the record \<open>db\<close> of \<open>Models\<close>, one field
  for each table of \<open>db/models.py\<close>, a table being the list of its rows.  SQL
  statements are operations on these lists; a constraint of a table raises
  \<open>IntegrityError\<close> where SQLAlchemy flushes.  \<open>begin_nested\<close> is \<open>transaction\<close>, and
  \<open>session_scope\<close> commits or rolls back and then dispatches the registered jobs.
  Generated identifiers and the time of a request are parameters, as are the
  functions of third-party code: the hash, the collation of the database, the node,
  the commits of other transactions (\<open>concurrent\<close>), and which rows are locked by
  others.  Python's integers are \<open>int\<close>, decimals rationals, floats rationals rounded
  by \<open>fl\<close>, times microseconds; the wire format and the C code use \<open>word\<close>.

  \<^bold>\<open>The theories.\<close>
  \<^item> \<open>Prelude\<close>: programs, their weakest preconditions (\<open>wp\<close> with the collection
    \<open>wp_simps\<close>), programs that keep an invariant (\<open>keeps\<close>, and \<open>commits\<close> where an
    error rolls back; collection \<open>inv_intros\<close>), and tables.
  \<^item> \<open>Cidr\<close> (\<open>core/cidr.py\<close>), \<open>RuleMatch\<close> (\<open>core/rulematch.py\<close>), \<open>FeedParser\<close>
    (\<open>core/feed_parser.py\<close>), \<open>ErrorScrub\<close> (the redaction in \<open>worker/feed_jobs.py\<close>),
    \<open>PyFloat\<close>: pure functions.  Shown: networks are sets of addresses, printing and
    parsing are inverse and host bits are refused, rules overlap exactly when a
    packet matches both, the parser accounts for every line.
  \<^item> \<open>Models\<close> (\<open>db/models.py\<close>, \<open>db/session.py\<close>), \<open>AuditLog\<close> (\<open>services/audit.py\<close>),
    \<open>Deployment\<close> (the example at which properties are instantiated).
  \<^item> \<open>ApplyJobs\<close> (\<open>core/applystate.py\<close>, \<open>services/apply.py\<close>): the apply state of a
    service and the job ledger; an abstract machine of apply states and the proof
    that every operation is a sequence of its steps.  \<open>JobLifecycle\<close>
    (\<open>worker/feed_jobs.py\<close>): claim, success, failure and recovery of the three
    kinds of job.  \<open>Processor\<close> (\<open>worker/processor.py\<close>): one job and one pass over
    the ledger.  Shown: invariants, jobs complete, stale jobs change no service, the
    live version never goes back.
  \<^item> \<open>Allocations\<close> (\<open>services/allocations.py\<close>), \<open>Services\<close> (\<open>services/services.py\<close>),
    \<open>Rules\<close> (\<open>services/rules.py\<close>): the configuration and its invariant, the states
    that runs of requests reach from an empty gateway (\<open>config_run\<close>) with their
    disjoint tenants, limits and unique priorities.
  \<^item> \<open>FeedReconcile\<close> (\<open>services/feed_reconcile.py\<close>), \<open>Lists\<close> (\<open>services/lists.py\<close>),
    \<open>Feeds\<close> (\<open>services/feeds.py\<close>), \<open>DenyConvergence\<close> (convergence in
    \<open>worker/feed_scheduler.py\<close> and \<open>worker/feed_runner.py\<close>): the global deny list as
    the union of manual entries and feeds, one run of a feed at a time (a step
    relation with its reachable states), and the way of the list to the node.
  \<^item> \<open>FeedFetch\<close> (\<open>services/feed_fetch.py\<close>, \<open>worker/feed_coordinator.py\<close>) and
    \<open>FeedRunner\<close> (\<open>worker/feed_runner.py\<close>, \<open>worker/feed_scheduler.py\<close>): the bounded
    download of a feed, the server being a parameter, and what becomes of it: every
    claimed feed job ends, and what was downloaded reaches the node.
  \<^item> \<open>Sessions\<close> (\<open>core/sessions.py\<close> on the Redis commands it uses, with their
    expiry), \<open>Access\<close> (\<open>core/security.py\<close>, \<open>core/deps.py\<close>, \<open>services/auth.py\<close>,
    \<open>services/users.py\<close> and their routers) and \<open>Revocation\<close>: logins, requests that
    are served while others are under way (the step relation \<open>access_step\<close>), and
    user administration.  Shown: a session that was revoked or outdated
    authenticates no later request, some active administrator remains, and two
    places where the code does less than it means to.
  \<^item> \<open>NodeControl\<close> (\<open>services/node_control.py\<close>, \<open>services/ddos_amplification.py\<close> and
    the two reconcilers of \<open>worker/\<close>): a lane that writes a desired value until
    the node has it, a locale interpreted for both reconcilers.
  \<^item> \<open>Wire\<close> (\<open>data-plane/tools/xdpgw-apply.c\<close>, \<open>data-plane/src/apply_snapshot.h\<close>),
    \<open>Applier\<close> (\<open>worker/applier.py\<close>, \<open>worker/handlers.py\<close>), \<open>PacketFilter\<close>
    (\<open>data-plane/src/rules.h\<close> and the writing of rules and whitelists in
    \<open>xdpgw-apply.c\<close>): the bytes the control plane writes are read back by
    the helper as the configuration, what the helper accepts is within its
    bounds and canonical, from the tables to the block of rules in the map the
    packet filter picks the rule that the control plane means, and a whitelist is
    written to the end only below 65536 sources.

  \<^bold>\<open>Loops and fuel.\<close> Loops over rows, lines and bytes are structural recursion.
  The terminal mark of a job is retried at most \<open>TERMINAL_MARK_ATTEMPTS\<close> times as in
  the code.  The loop that writes a whitelist may not end; it is a
  \<open>partial_function\<close> into \<open>option\<close>, and not ending is \<open>None\<close>.  No definition runs on
  fuel that the code does not count itself.

  \<^bold>\<open>Concurrency.\<close> A transaction is one step, except where a parameter
  \<open>concurrent\<close> says what others commit between two of its statements: between the
  checks and the insert of a service or an allocation, and around the download and
  the apply of a feed.  Row locks are taken to give the current row.

  \<^bold>\<open>Not modelled.\<close> The routers and request schemas (FastAPI and pydantic,
  except for what the routers of logins and users do around the services they
  call), the web frontend, migrations, process set-up, HTTP and
  netlink I/O, and the packet path of the data plane other than the matching of
  rules (BPF maps and per-CPU buckets are the kernel's).  Tenant administration,
  alerting, telemetry and billing are left for later.
\<close>

end
